(* ===== verification/Prelude.thy ===== *)
theory Prelude
  imports Complex_Main "HOL-Library.Word" "HOL-Library.Signed_Division" "HOL-Library.Log_Nat"
begin

unbundle bit_operations_syntax

section \<open>Prelude: machine integers, byte memory, shared lemmas\<close>

text \<open>
  The C types of the firmware at their width, the little-endian byte order of the Cortex-M4, a
  byte-addressed memory, and the list and option facts that several components use.
  \<^item> \<open>u8\<close>, \<open>u16\<close>, \<open>u32\<close> are the unsigned types; a signed type is the same word read by \<open>sint\<close>.
  \<^item> \<open>le_bytes32\<close> and \<open>le_word32\<close> are \<open>memcpy\<close> of a \<open>uint32_t\<close> to and from memory.
  \<^item> \<open>mem_bytes m a n\<close> reads \<open>n\<close> bytes from address \<open>a\<close>; \<open>mem_store m a bs\<close> writes \<open>bs\<close> there.
  Addresses are 32-bit words, so address arithmetic wraps as it does on the machine.
\<close>

type_synonym u8 = "8 word"
type_synonym u16 = "16 word"
type_synonym u32 = "32 word"
type_synonym memory = "u32 \<Rightarrow> u8"

named_theorems option_bind_simps \<open>rules that unfold an option bind whose head is known\<close>
named_theorems mem_simps \<open>rules for reading a memory after a store\<close>

subsection \<open>Options\<close>

lemma bind_Some_iff [option_bind_simps]:
  "Option.bind x f = Some y \<longleftrightarrow> (\<exists>z. x = Some z \<and> f z = Some y)"
  by (cases x) auto

lemma case_option_Some_iff:
  "(case x of None \<Rightarrow> None | Some z \<Rightarrow> f z) = Some y \<longleftrightarrow> (\<exists>z. x = Some z \<and> f z = Some y)"
  by (cases x) auto

subsection \<open>Little-endian bytes\<close>

definition le_bytes32 :: "u32 \<Rightarrow> u8 list" where
  "le_bytes32 w = [ucast w, ucast (drop_bit 8 w), ucast (drop_bit 16 w), ucast (drop_bit 24 w)]"

definition le_bytes16 :: "u16 \<Rightarrow> u8 list" where
  "le_bytes16 w = [ucast w, ucast (drop_bit 8 w)]"

fun le_word32 :: "u8 list \<Rightarrow> u32" where
  "le_word32 [a, b, c, d] =
     ucast a OR push_bit 8 (ucast b) OR push_bit 16 (ucast c) OR push_bit 24 (ucast d)"
| "le_word32 _ = 0"

fun le_word16 :: "u8 list \<Rightarrow> u16" where
  "le_word16 [a, b] = ucast a OR push_bit 8 (ucast b)"
| "le_word16 _ = 0"

lemma length_le_bytes32 [simp]: "length (le_bytes32 w) = 4"
  by (simp add: le_bytes32_def)

lemma length_le_bytes16 [simp]: "length (le_bytes16 w) = 2"
  by (simp add: le_bytes16_def)

lemma le_word32_bytes [simp]: "le_word32 (le_bytes32 w) = w"
  unfolding le_bytes32_def le_word32.simps
proof (rule bit_word_eqI)
  fix n :: nat
  assume "n < LENGTH(32)"
  then consider "n < 8" | "8 \<le> n" "n < 16" | "16 \<le> n" "n < 24" | "24 \<le> n" "n < 32"
    by fastforce
  then show "bit (ucast (ucast w :: u8) OR push_bit 8 (ucast (ucast (drop_bit 8 w) :: u8)) OR
      push_bit 16 (ucast (ucast (drop_bit 16 w) :: u8)) OR
      push_bit 24 (ucast (ucast (drop_bit 24 w) :: u8)) :: u32) n \<longleftrightarrow> bit w n"
    by cases (auto simp: bit_simps)
qed

lemma le_word16_bytes [simp]: "le_word16 (le_bytes16 w) = w"
  unfolding le_bytes16_def le_word16.simps
  by (rule bit_word_eqI) (auto simp: bit_simps)

lemma le_bytes32_inject: "le_bytes32 a = le_bytes32 b \<longleftrightarrow> a = b"
  by (metis le_word32_bytes)

lemma le_bytes32_word:
  assumes "length bs = 4"
  shows "le_bytes32 (le_word32 bs) = bs"
proof -
  from assms obtain a b c d where bs: "bs = [a, b, c, d]"
    by (auto simp: numeral_eq_Suc length_Suc_conv)
  show ?thesis
    unfolding bs le_word32.simps le_bytes32_def
    by (simp, intro conjI; rule bit_word_eqI) (auto simp: bit_simps dest: bit_imp_le_length)
qed

subsection \<open>Byte memory\<close>

definition mem_bytes :: "memory \<Rightarrow> u32 \<Rightarrow> nat \<Rightarrow> u8 list" where
  "mem_bytes m a n = map (\<lambda>i. m (a + of_nat i)) [0..<n]"

fun mem_store :: "memory \<Rightarrow> u32 \<Rightarrow> u8 list \<Rightarrow> memory" where
  "mem_store m a [] = m"
| "mem_store m a (b # bs) = mem_store (m(a := b)) (a + 1) bs"

lemma length_mem_bytes [simp]: "length (mem_bytes m a n) = n"
  by (simp add: mem_bytes_def)

lemma nth_mem_bytes [simp]: "i < n \<Longrightarrow> mem_bytes m a n ! i = m (a + of_nat i)"
  by (simp add: mem_bytes_def)

lemma mem_bytes_0 [simp]: "mem_bytes m a 0 = []"
  by (simp add: mem_bytes_def)

lemma mem_bytes_append: "mem_bytes m a (i + j) = mem_bytes m a i @ mem_bytes m (a + of_nat i) j"
  by (rule nth_equalityI) (auto simp: nth_append add.assoc simp flip: of_nat_add)

lemma mem_bytes_cong:
  "(\<And>i. i < n \<Longrightarrow> m (a + of_nat i) = m' (a + of_nat i)) \<Longrightarrow> mem_bytes m a n = mem_bytes m' a n"
  by (simp add: mem_bytes_def)

lemma mem_bytes_Suc: "mem_bytes m a (Suc n) = m a # mem_bytes m (a + 1) n"
  using mem_bytes_append[of m a 1 n] by (simp add: mem_bytes_def)

subsection \<open>Addresses\<close>

lemma addr_offset_inject:
  assumes "i < 2 ^ 32" "j < 2 ^ 32"
  shows "(a + of_nat i :: u32) = a + of_nat j \<longleftrightarrow> i = j"
proof
  assume "a + of_nat i = a + of_nat j"
  then have "unat (of_nat i :: u32) = unat (of_nat j :: u32)" by simp
  then show "i = j" using assms by (simp add: of_nat_inverse)
qed simp

lemma addr_offset_ne: "0 < i \<Longrightarrow> i < 2 ^ 32 \<Longrightarrow> (a + of_nat i :: u32) \<noteq> a"
  using addr_offset_inject[of i 0 a] by simp

lemma unat_addr_offset: "unat (a :: u32) + i < 2 ^ 32 \<Longrightarrow> unat (a + of_nat i) = unat a + i"
  by (simp add: unat_word_ariths(1) of_nat_inverse)

text \<open>The memory from a base address on, indexed by a natural offset.\<close>

definition mview :: "memory \<Rightarrow> u32 \<Rightarrow> nat \<Rightarrow> u8" where
  "mview m a k = m (a + of_nat k)"

lemma mem_bytes_mview: "mem_bytes m (a + of_nat k) n = map (mview m a) [k..<k + n]"
  by (rule nth_equalityI) (auto simp: mview_def add.assoc)

lemma mem_bytes_mview0: "mem_bytes m a n = map (mview m a) [0..<n]"
  using mem_bytes_mview[of m a 0 n] by simp

subsection \<open>Words as integers\<close>

lemma sint_of_int32: "- (2 ^ 31) \<le> k \<Longrightarrow> k < 2 ^ 31 \<Longrightarrow> sint (word_of_int k :: u32) = k"
  by (simp add: signed_of_int signed_take_bit_int_eq_self)

lemma uint_of_int32: "0 \<le> k \<Longrightarrow> k < 2 ^ 32 \<Longrightarrow> uint (word_of_int k :: u32) = k"
  by (simp add: unsigned_of_int take_bit_int_eq_self)

end
