(* ===== verification/IEEE_Float.thy ===== *)
theory IEEE_Float
  imports Prelude
begin

section \<open>IEEE 754 arithmetic of the \<open>float\<close> and \<open>double\<close> types\<close>

text \<open>
  The control code computes in \<open>float\<close> (binary32, in the FPU of the Cortex-M4) and, where a
  constant without the \<open>f\<close> suffix takes part, in \<open>double\<close> (binary64). A value is a NaN, an
  infinity or a signed magnitude, so both zeroes are told apart; a magnitude is a rational, which
  is exact, and every operation rounds its exact result to the nearest number of the format, ties
  to even. The format is a parameter (\<open>f32\<close>, \<open>f64\<close>); NaN payloads are not modelled, NaN signs
  are (an operation returns its first NaN operand, and a positive NaN for an invalid operation).

  The lemmas show what the control code relies on: rounding is monotone (\<open>round_mag_mono\<close>) and
  exact on the numbers of the format (\<open>round_mag_repr\<close>), the comparisons are those of the values
  and false on a NaN.
\<close>

subsection \<open>Values and formats\<close>

datatype fp = FNaN bool | FInf bool | FFin bool rat

record ffmt =
  fprec :: nat \<comment> \<open>bits of the significand\<close>
  fqmin :: int \<comment> \<open>exponent of the smallest unit in the last place\<close>
  fqmax :: int \<comment> \<open>exponent of the largest unit in the last place\<close>

definition f32 :: ffmt where
  "f32 = \<lparr>fprec = 24, fqmin = -149, fqmax = 104\<rparr>"

definition f64 :: ffmt where
  "f64 = \<lparr>fprec = 53, fqmin = -1074, fqmax = 971\<rparr>"

definition pow2 :: "int \<Rightarrow> rat" where
  "pow2 e = (if 0 \<le> e then 2 ^ nat e else 1 / 2 ^ nat (- e))"

text \<open>For evaluation: a power of two is a numeral of zero bits.\<close>

fun num_pow2 :: "nat \<Rightarrow> num" where
  "num_pow2 0 = Num.One"
| "num_pow2 (Suc n) = Num.Bit0 (num_pow2 n)"

lemma numeral_num_pow2: "numeral (num_pow2 n) = (2 :: rat) ^ n"
proof (induction n)
  case (Suc n)
  have "numeral (num_pow2 (Suc n)) = (numeral (num_pow2 n) + numeral (num_pow2 n) :: rat)"
    by (subst num_pow2.simps(2)) (rule numeral_Bit0)
  also have "\<dots> = 2 ^ Suc n" unfolding Suc.IH by (simp only: power_Suc mult_2)
  finally show ?case .
qed simp

lemma pow2_code [code]:
  "pow2 e = (if 0 \<le> e then of_int (Int.Pos (num_pow2 (nat e))) else 1 / of_int (Int.Pos (num_pow2 (nat (- e)))))"
  by (simp only: pow2_def Int.Pos_def of_int_numeral numeral_num_pow2)

definition fmax :: "ffmt \<Rightarrow> rat" where
  "fmax F = (2 ^ fprec F - 1) * pow2 (fqmax F)"

subsection \<open>Rounding to nearest, ties to even\<close>

definition floor_log2 :: "rat \<Rightarrow> int" where
  "floor_log2 m = (let (a, b) = quotient_of m;
     k = bitlen a - bitlen b
   in if pow2 k \<le> m then k else k - 1)"

definition rne :: "rat \<Rightarrow> int" where
  "rne x = (let f = \<lfloor>x\<rfloor>; d = x - of_int f in
     if d < 1 / 2 then f else if 1 / 2 < d then f + 1 else if even f then f else f + 1)"

definition ulp_exp :: "ffmt \<Rightarrow> rat \<Rightarrow> int" where
  "ulp_exp F m = max (floor_log2 m - (int (fprec F) - 1)) (fqmin F)"

definition round_mag :: "ffmt \<Rightarrow> rat \<Rightarrow> rat" where
  "round_mag F m = (if m = 0 then 0
     else let q = ulp_exp F m in of_int (rne (m / pow2 q)) * pow2 q)"

definition fround :: "ffmt \<Rightarrow> bool \<Rightarrow> rat \<Rightarrow> fp" where
  "fround F s m = (let r = round_mag F m in if fmax F < r then FInf s else FFin s r)"

definition fround_signed :: "ffmt \<Rightarrow> rat \<Rightarrow> fp" where
  "fround_signed F x = fround F (x < 0) \<bar>x\<bar>"

subsection \<open>Operations\<close>

fun sval :: "bool \<Rightarrow> rat \<Rightarrow> rat" where
  "sval s m = (if s then - m else m)"

fun is_nan :: "fp \<Rightarrow> bool" where
  "is_nan (FNaN _) = True"
| "is_nan _ = False"

fun fneg :: "fp \<Rightarrow> fp" where
  "fneg (FNaN s) = FNaN (\<not> s)"
| "fneg (FInf s) = FInf (\<not> s)"
| "fneg (FFin s m) = FFin (\<not> s) m"

fun fabs :: "fp \<Rightarrow> fp" where
  "fabs (FNaN s) = FNaN False"
| "fabs (FInf s) = FInf False"
| "fabs (FFin s m) = FFin False m"

fun signbit :: "fp \<Rightarrow> bool" where
  "signbit (FNaN s) = s"
| "signbit (FInf s) = s"
| "signbit (FFin s m) = s"

definition copysign :: "fp \<Rightarrow> fp \<Rightarrow> fp" where
  "copysign x y = (if signbit y then fneg (fabs x) else fabs x)"

fun fadd :: "ffmt \<Rightarrow> fp \<Rightarrow> fp \<Rightarrow> fp" where
  "fadd F (FNaN s) y = FNaN s"
| "fadd F x (FNaN t) = FNaN t"
| "fadd F (FInf s) (FInf t) = (if s = t then FInf s else FNaN False)"
| "fadd F (FInf s) (FFin t n) = FInf s"
| "fadd F (FFin s m) (FInf t) = FInf t"
| "fadd F (FFin s m) (FFin t n) =
     (let v = sval s m + sval t n in
      if v = 0 then FFin (s \<and> t) 0 else fround_signed F v)"

fun fsub :: "ffmt \<Rightarrow> fp \<Rightarrow> fp \<Rightarrow> fp" where
  "fsub F (FNaN s) y = FNaN s"
| "fsub F x (FNaN t) = FNaN t"
| "fsub F x y = fadd F x (fneg y)"

fun fmul :: "ffmt \<Rightarrow> fp \<Rightarrow> fp \<Rightarrow> fp" where
  "fmul F (FNaN s) y = FNaN s"
| "fmul F x (FNaN t) = FNaN t"
| "fmul F (FInf s) (FInf t) = FInf (s \<noteq> t)"
| "fmul F (FInf s) (FFin t n) = (if n = 0 then FNaN False else FInf (s \<noteq> t))"
| "fmul F (FFin s m) (FInf t) = (if m = 0 then FNaN False else FInf (s \<noteq> t))"
| "fmul F (FFin s m) (FFin t n) = fround F (s \<noteq> t) (m * n)"

fun fdiv :: "ffmt \<Rightarrow> fp \<Rightarrow> fp \<Rightarrow> fp" where
  "fdiv F (FNaN s) y = FNaN s"
| "fdiv F x (FNaN t) = FNaN t"
| "fdiv F (FInf s) (FInf t) = FNaN False"
| "fdiv F (FInf s) (FFin t n) = FInf (s \<noteq> t)"
| "fdiv F (FFin s m) (FInf t) = FFin (s \<noteq> t) 0"
| "fdiv F (FFin s m) (FFin t n) =
     (if n = 0 then if m = 0 then FNaN False else FInf (s \<noteq> t)
      else fround F (s \<noteq> t) (m / n))"

text \<open>Conversions: from an integer, from a decimal constant, between the formats (\<open>float\<close> to
  \<open>double\<close> is exact), and to an integer, which truncates. C leaves the conversion of a NaN, of
  an infinity and of a value that does not fit undefined: \<open>None\<close>.\<close>

definition f_of_int :: "ffmt \<Rightarrow> int \<Rightarrow> fp" where
  "f_of_int F i = fround_signed F (of_int i)"

definition f_const :: "ffmt \<Rightarrow> rat \<Rightarrow> fp" where
  "f_const F q = fround_signed F q"

fun f_conv :: "ffmt \<Rightarrow> fp \<Rightarrow> fp" where
  "f_conv F (FFin s m) = fround F s m"
| "f_conv F x = x"

fun f_trunc :: "fp \<Rightarrow> int option" where
  "f_trunc (FFin s m) = Some (if s then - \<lfloor>m\<rfloor> else \<lfloor>m\<rfloor>)"
| "f_trunc _ = None"

definition f_to_range :: "int \<Rightarrow> int \<Rightarrow> fp \<Rightarrow> int option" where
  "f_to_range lo hi x = (case f_trunc x of None \<Rightarrow> None
     | Some i \<Rightarrow> if lo \<le> i \<and> i \<le> hi then Some i else None)"

subsection \<open>Comparisons\<close>

fun flt :: "fp \<Rightarrow> fp \<Rightarrow> bool" where
  "flt (FNaN s) y = False"
| "flt x (FNaN t) = False"
| "flt (FInf s) (FInf t) = (s \<and> \<not> t)"
| "flt (FInf s) (FFin t n) = s"
| "flt (FFin s m) (FInf t) = (\<not> t)"
| "flt (FFin s m) (FFin t n) = (sval s m < sval t n)"

fun fle :: "fp \<Rightarrow> fp \<Rightarrow> bool" where
  "fle (FNaN s) y = False"
| "fle x (FNaN t) = False"
| "fle (FInf s) (FInf t) = (s \<or> \<not> t)"
| "fle (FInf s) (FFin t n) = s"
| "fle (FFin s m) (FInf t) = (\<not> t)"
| "fle (FFin s m) (FFin t n) = (sval s m \<le> sval t n)"

fun feq :: "fp \<Rightarrow> fp \<Rightarrow> bool" where
  "feq (FNaN s) y = False"
| "feq x (FNaN t) = False"
| "feq (FInf s) (FInf t) = (s = t)"
| "feq (FInf s) (FFin t n) = False"
| "feq (FFin s m) (FInf t) = False"
| "feq (FFin s m) (FFin t n) = (sval s m = sval t n)"

abbreviation fzero :: fp where
  "fzero \<equiv> FFin False 0"

abbreviation fone :: fp where
  "fone \<equiv> FFin False 1"

text \<open>The values a format can hold.\<close>

fun in_fmt :: "ffmt \<Rightarrow> fp \<Rightarrow> bool" where
  "in_fmt F (FFin s m) = (0 \<le> m \<and> round_mag F m = m \<and> m \<le> fmax F)"
| "in_fmt F _ = True"

subsection \<open>Powers of two and the binary logarithm\<close>

lemma pow2_pos [simp]: "0 < pow2 e"
  by (simp add: pow2_def)

lemma pow2_nonneg [simp]: "0 \<le> pow2 e"
  by (simp add: less_imp_le)

lemma pow2_nonzero [simp]: "pow2 e \<noteq> 0"
  using pow2_pos[of e] by linarith

lemma pow2_powi: "pow2 e = 2 powi e"
  by (auto simp: pow2_def power_int_def field_simps)

lemma pow2_add: "pow2 (a + b) = pow2 a * pow2 b"
  by (simp add: pow2_powi power_int_add)

lemma pow2_mono: "a \<le> b \<Longrightarrow> pow2 a \<le> pow2 b"
  by (simp add: pow2_powi power_int_increasing)

lemma pow2_strict_mono: "a < b \<Longrightarrow> pow2 a < pow2 b"
  by (simp add: pow2_powi power_int_strict_increasing)

lemma pow2_less_cancel: "pow2 a < pow2 b \<Longrightarrow> a < b"
  using pow2_mono[of b a] by (meson leD leI)

lemma pow2_int: "0 \<le> e \<Longrightarrow> pow2 e = of_int (2 ^ nat e)"
  by (simp add: pow2_def)

lemma pow2_diff: "pow2 (a - b) = pow2 a / pow2 b"
  by (simp add: pow2_powi power_int_diff)

lemma floorlog2_bounds:
  assumes "0 < (a::nat)"
  shows "2 ^ (floorlog 2 a - 1) \<le> a" and "a < 2 ^ floorlog 2 a" and "0 < floorlog 2 a"
  using floorlog_bounds[of a 2] assms floorlog_eq_zero_iff[of 2 a] by auto

lemma rat_floorlog2_bounds:
  assumes "0 < a"
  shows "(2::rat) ^ (floorlog 2 (nat a) - 1) \<le> of_int a" and "of_int a < (2::rat) ^ floorlog 2 (nat a)"
    and "0 < floorlog 2 (nat a)"
proof -
  from assms have n: "0 < nat a" and r: "(of_int a :: rat) = of_nat (nat a)" by auto
  show "(2::rat) ^ (floorlog 2 (nat a) - 1) \<le> of_int a"
    unfolding r using floorlog2_bounds(1)[OF n] by (metis of_nat_le_iff of_nat_numeral of_nat_power)
  show "of_int a < (2::rat) ^ floorlog 2 (nat a)"
    unfolding r using floorlog2_bounds(2)[OF n] by (metis of_nat_less_iff of_nat_numeral of_nat_power)
  show "0 < floorlog 2 (nat a)" by (rule floorlog2_bounds(3)[OF n])
qed

lemma floor_log2_bounds:
  assumes "0 < m"
  shows "pow2 (floor_log2 m) \<le> m \<and> m < pow2 (floor_log2 m + 1)"
proof -
  obtain a b where q: "quotient_of m = (a, b)" by (cases "quotient_of m")
  from q have b: "0 < b" by (rule quotient_of_denom_pos)
  from q have m: "m = of_int a / of_int b" by (rule quotient_of_div)
  from assms m b have a: "0 < a" by (simp add: zero_less_divide_iff)
  define x y where "x = floorlog 2 (nat a)" and "y = floorlog 2 (nat b)"
  have x: "(2::rat) ^ (x - 1) \<le> of_int a" "of_int a < (2::rat) ^ x" "0 < x"
    using rat_floorlog2_bounds[OF a] unfolding x_def by auto
  have y: "(2::rat) ^ (y - 1) \<le> of_int b" "of_int b < (2::rat) ^ y" "0 < y"
    using rat_floorlog2_bounds[OF b] unfolding y_def by auto
  define k where "k = int x - int y"
  have p: "pow2 (int i) = 2 ^ i" for i by (simp add: pow2_def)
  have "m < pow2 (int x) / pow2 (int (y - 1))"
    unfolding m p using x y a b by (intro frac_less) auto
  also have "\<dots> = pow2 (k + 1)"
    unfolding k_def pow2_diff[symmetric] using y(3) by (intro arg_cong[where f=pow2]) linarith
  finally have up: "m < pow2 (k + 1)" .
  have "pow2 (int (x - 1)) / pow2 (int y) < m"
    unfolding m p using x y a b by (intro frac_less2) auto
  moreover have "int (x - 1) - int y = k - 1" unfolding k_def using x(3) by linarith
  ultimately have lo: "pow2 (k - 1) < m" unfolding pow2_diff[symmetric] by simp
  have e: "floor_log2 m = (if pow2 k \<le> m then k else k - 1)"
    unfolding floor_log2_def q k_def x_def y_def Let_def prod.case bitlen_def by (rule refl)
  show ?thesis using up lo unfolding e by auto
qed

lemma floor_log2_mono:
  assumes "0 < a" "a \<le> b"
  shows "floor_log2 a \<le> floor_log2 b"
proof -
  have "pow2 (floor_log2 a) < pow2 (floor_log2 b + 1)"
    using floor_log2_bounds[of a] floor_log2_bounds[of b] assms by auto
  then show ?thesis using pow2_less_cancel by fastforce
qed

lemma floor_log2_less:
  assumes "0 < m" "m < pow2 e"
  shows "floor_log2 m < e"
  using floor_log2_bounds[OF assms(1)] assms(2) by (intro pow2_less_cancel) auto

subsection \<open>Rounding is monotone and exact on representable values\<close>

lemma rne_of_int [simp]: "rne (of_int i) = i"
  by (simp add: rne_def)

lemma rne_bounds: "\<lfloor>x\<rfloor> \<le> rne x \<and> rne x \<le> \<lfloor>x\<rfloor> + 1"
  by (simp add: rne_def Let_def)

lemma rne_mono:
  assumes "x \<le> y"
  shows "rne x \<le> rne y"
proof (cases "\<lfloor>x\<rfloor> = \<lfloor>y\<rfloor>")
  case True
  then show ?thesis using assms by (auto simp: rne_def Let_def)
next
  case False
  then have "\<lfloor>x\<rfloor> + 1 \<le> \<lfloor>y\<rfloor>" using floor_mono[OF assms] by linarith
  then show ?thesis using rne_bounds[of x] rne_bounds[of y] by linarith
qed

lemma rne_le_of_int: "x \<le> of_int i \<Longrightarrow> rne x \<le> i"
  using rne_mono[of x "of_int i"] by simp

lemma of_int_le_rne: "of_int i \<le> x \<Longrightarrow> i \<le> rne x"
  using rne_mono[of "of_int i" x] by simp

lemma round_mag_0 [simp]: "round_mag F 0 = 0"
  by (simp add: round_mag_def)

lemma round_mag_pos_def:
  "0 < m \<Longrightarrow> round_mag F m = of_int (rne (m / pow2 (ulp_exp F m))) * pow2 (ulp_exp F m)"
  by (simp add: round_mag_def Let_def)

lemma round_mag_nonneg: "0 \<le> m \<Longrightarrow> 0 \<le> round_mag F m"
  by (cases "m = 0") (auto simp: round_mag_pos_def intro!: mult_nonneg_nonneg of_int_le_rne)

lemma round_mag_le_pow2:
  assumes "0 < m" "m \<le> pow2 e" "ulp_exp F m \<le> e"
  shows "round_mag F m \<le> pow2 e"
proof -
  let ?p = "ulp_exp F m"
  have i: "pow2 (e - ?p) = of_int (2 ^ nat (e - ?p))" using assms(3) by (simp add: pow2_int)
  have "m / pow2 ?p \<le> pow2 (e - ?p)"
    unfolding pow2_diff by (rule divide_right_mono[OF assms(2)]) simp
  then have "rne (m / pow2 ?p) \<le> 2 ^ nat (e - ?p)" unfolding i by (rule rne_le_of_int)
  then have "round_mag F m \<le> of_int (2 ^ nat (e - ?p)) * pow2 ?p"
    unfolding round_mag_pos_def[OF assms(1)] by (intro mult_right_mono) (auto simp flip: of_int_le_iff)
  also have "\<dots> = pow2 e" unfolding i[symmetric] by (simp flip: pow2_add)
  finally show ?thesis .
qed

lemma pow2_le_round_mag:
  assumes "0 < m" "pow2 e \<le> m" "ulp_exp F m \<le> e"
  shows "pow2 e \<le> round_mag F m"
proof -
  let ?p = "ulp_exp F m"
  have i: "pow2 (e - ?p) = of_int (2 ^ nat (e - ?p))" using assms(3) by (simp add: pow2_int)
  have "pow2 (e - ?p) \<le> m / pow2 ?p"
    unfolding pow2_diff by (rule divide_right_mono[OF assms(2)]) simp
  then have "2 ^ nat (e - ?p) \<le> rne (m / pow2 ?p)" unfolding i by (rule of_int_le_rne)
  then have "of_int (2 ^ nat (e - ?p)) * pow2 ?p \<le> round_mag F m"
    unfolding round_mag_pos_def[OF assms(1)] by (intro mult_right_mono) (auto simp flip: of_int_le_iff)
  moreover have "of_int (2 ^ nat (e - ?p)) * pow2 ?p = pow2 e"
    unfolding i[symmetric] by (simp flip: pow2_add)
  ultimately show ?thesis by simp
qed

lemma round_mag_mono:
  assumes P: "0 < fprec F" and ab: "0 \<le> a" "a \<le> b"
  shows "round_mag F a \<le> round_mag F b"
proof (cases "a = 0")
  case True
  then show ?thesis using ab by (simp add: round_mag_nonneg)
next
  case nz: False
  with ab have a: "0 < a" and b: "0 < b" by auto
  show ?thesis
  proof (cases "ulp_exp F a = ulp_exp F b")
    case True
    then show ?thesis using a b ab(2)
      by (auto simp: round_mag_pos_def intro!: mult_right_mono rne_mono divide_right_mono)
  next
    case False
    define k where "k = floor_log2 b"
    have le: "floor_log2 a \<le> k" unfolding k_def using a ab(2) by (rule floor_log2_mono)
    have "ulp_exp F a < ulp_exp F b" "floor_log2 a < k" "ulp_exp F b \<le> k"
      using False le P unfolding ulp_exp_def k_def by (auto simp: max_def split: if_splits)
    moreover have "a \<le> pow2 k"
      using floor_log2_bounds[OF a] pow2_mono[of "floor_log2 a + 1" k] \<open>floor_log2 a < k\<close> by linarith
    moreover have "pow2 k \<le> b"
      unfolding k_def using floor_log2_bounds[OF b] by simp
    ultimately show ?thesis
      using round_mag_le_pow2[OF a, of k F] pow2_le_round_mag[OF b, of k F] by linarith
  qed
qed

lemma round_mag_repr:
  assumes "0 \<le> n" "n < 2 ^ fprec F" "fqmin F \<le> q"
  shows "round_mag F (of_int n * pow2 q) = of_int n * pow2 q"
proof (cases "n = 0")
  case False
  define m where "m = of_int n * pow2 q"
  from False assms(1) have m: "0 < m" by (simp add: m_def)
  have "of_int n < (2::rat) ^ fprec F" using assms(2) by (metis of_int_less_iff of_int_numeral of_int_power)
  then have "m < pow2 (int (fprec F)) * pow2 q"
    unfolding m_def by (intro mult_strict_right_mono) (auto simp: pow2_def)
  then have "floor_log2 m < int (fprec F) + q"
    unfolding pow2_add[symmetric] by (rule floor_log2_less[OF m])
  then have u: "ulp_exp F m \<le> q" using assms(3) by (simp add: ulp_exp_def)
  define v where "v = ulp_exp F m"
  have "m / pow2 v = of_int n * pow2 (q - v)" by (simp add: m_def pow2_diff)
  also have "\<dots> = of_int (n * 2 ^ nat (q - v))"
    using u by (simp add: pow2_int v_def)
  finally have "m / pow2 (ulp_exp F m) = of_int (n * 2 ^ nat (q - v))" by (simp add: v_def)
  then have "round_mag F m = m / pow2 (ulp_exp F m) * pow2 (ulp_exp F m)"
    unfolding round_mag_pos_def[OF m] by (metis rne_of_int)
  then show ?thesis by (simp add: m_def)
qed simp

lemma round_mag_idem:
  assumes "0 < fprec F" "0 \<le> m"
  shows "round_mag F (round_mag F m) = round_mag F m"
proof (cases "m = 0")
  case False
  with assms(2) have m: "0 < m" by simp
  define q n where "q = ulp_exp F m" and "n = rne (m / pow2 q)"
  have r: "round_mag F m = of_int n * pow2 q" unfolding n_def q_def by (rule round_mag_pos_def[OF m])
  have q: "fqmin F \<le> q" "floor_log2 m + 1 \<le> int (fprec F) + q" by (auto simp: q_def ulp_exp_def)
  have n0: "0 \<le> n" unfolding n_def using m by (intro of_int_le_rne) simp
  have "m / pow2 q \<le> pow2 (int (fprec F))"
    using floor_log2_bounds[OF m] pow2_mono[OF q(2)] by (simp add: pow2_add field_simps)
  then have n1: "n \<le> 2 ^ fprec F" unfolding n_def by (intro rne_le_of_int) (simp add: pow2_def)
  show ?thesis
  proof (cases "n = 2 ^ fprec F")
    case True
    have "n = 2 * 2 ^ (fprec F - 1)" unfolding True using assms(1) by (metis power_eq_if neq0_conv)
    then have "of_int n * pow2 q = of_int (2 ^ (fprec F - 1)) * pow2 (q + 1)"
      unfolding pow2_add by (simp add: pow2_def[of 1])
    moreover have "(2::int) ^ (fprec F - 1) < 2 ^ fprec F" using assms(1) by simp
    ultimately show ?thesis unfolding r using q(1) round_mag_repr[of "2 ^ (fprec F - 1)" F "q + 1"] by simp
  next
    case False
    then show ?thesis unfolding r using n0 n1 q(1) by (intro round_mag_repr) auto
  qed
qed simp

lemma fprec_pos [simp]: "0 < fprec f32" "0 < fprec f64"
  by (simp_all add: f32_def f64_def)

subsection \<open>Comparisons and signs\<close>

named_theorems fp_order \<open>the order of the comparable values\<close>

lemma fneg_fneg [simp]: "fneg (fneg x) = x"
  by (cases x) auto

lemma is_nan_fneg [simp]: "is_nan (fneg x) = is_nan x"
  by (cases x) auto

lemma not_flt [fp_order]: "\<not> is_nan a \<Longrightarrow> \<not> is_nan b \<Longrightarrow> \<not> flt a b \<longleftrightarrow> fle b a"
  by (cases a; cases b) auto

lemma flt_fneg [simp]: "flt (fneg a) (fneg b) = flt b a"
  by (cases a; cases b) auto

lemma fle_fneg [simp]: "fle (fneg a) (fneg b) = fle b a"
  by (cases a; cases b) auto

lemma flt_imp_fle [fp_order]: "flt a b \<Longrightarrow> fle a b"
  by (cases a; cases b) auto

lemma fle_trans [fp_order]: "fle a b \<Longrightarrow> fle b c \<Longrightarrow> fle a c"
  by (cases a; cases b; cases c) auto

lemma flt_fle_trans: "flt a b \<Longrightarrow> fle b c \<Longrightarrow> flt a c"
  by (cases a; cases b; cases c) auto

lemma fle_refl [simp]: "fle a a \<longleftrightarrow> \<not> is_nan a"
  by (cases a) auto

lemma fle_not_nan: "fle a b \<Longrightarrow> \<not> is_nan a \<and> \<not> is_nan b"
  by (cases a; cases b) auto

lemma flt_not_nan: "flt a b \<Longrightarrow> \<not> is_nan a \<and> \<not> is_nan b"
  by (cases a; cases b) auto

lemma fle_fzero_fneg: "fle fzero l \<Longrightarrow> fle (fneg l) l"
  by (cases l) auto

lemma flt_irrefl [simp]: "\<not> flt a a"
  by (cases a) auto

subsection \<open>Results of the operations\<close>

lemma fround_not_nan [simp]: "\<not> is_nan (fround F s m)"
  by (simp add: fround_def Let_def)

lemma fmax_nonneg [simp]: "0 \<le> fmax F"
  by (simp add: fmax_def)

lemma fround_zero [simp]: "fround f32 s 0 = FFin s 0" "fround f64 s 0 = FFin s 0"
  using pow2_pos[of 104] pow2_pos[of 971] by (simp_all add: fround_def fmax_def f32_def f64_def not_less)

lemma in_fmt_fround: "0 < fprec F \<Longrightarrow> 0 \<le> m \<Longrightarrow> in_fmt F (fround F s m)"
  by (auto simp: fround_def Let_def round_mag_idem round_mag_nonneg)

lemma in_fmt_fround_signed [simp]: "0 < fprec F \<Longrightarrow> in_fmt F (fround_signed F v)"
  by (simp add: fround_signed_def in_fmt_fround)

lemma fround_in_fmt: "in_fmt F (FFin s m) \<Longrightarrow> fround F t m = FFin t m"
  by (simp add: fround_def)

lemma in_fmt_fneg [simp]: "in_fmt F (fneg x) = in_fmt F x"
  by (cases x) auto

lemma in_fmt_f_of_int [simp]: "0 < fprec F \<Longrightarrow> in_fmt F (f_of_int F i)"
  by (simp add: f_of_int_def)

lemma in_fmt_f_const [simp]: "0 < fprec F \<Longrightarrow> in_fmt F (f_const F q)"
  by (simp add: f_const_def)

text \<open>A multiplication by one of the format's exact values 1 and -1 does not round.\<close>

lemma fmul_sign:
  assumes "in_fmt F x" "\<not> is_nan x"
  shows "fmul F (FFin s 1) x = (if s then fneg x else x)"
  using assms by (cases x) (auto simp: fround_in_fmt simp del: in_fmt.simps)

lemma fround_mono:
  assumes "0 < fprec F" "0 \<le> m" "m \<le> n" "round_mag F n \<le> fmax F"
  obtains r where "fround F s m = FFin s r" "0 \<le> r" "r \<le> round_mag F n"
proof
  have r: "round_mag F m \<le> round_mag F n" by (rule round_mag_mono[OF assms(1-3)])
  show "fround F s m = FFin s (round_mag F m)"
    using r assms(4) by (simp add: fround_def Let_def)
  show "0 \<le> round_mag F m" by (rule round_mag_nonneg[OF assms(2)])
  show "round_mag F m \<le> round_mag F n" by (rule r)
qed

subsection \<open>Rounding error\<close>

lemma rne_error: "\<bar>of_int (rne x) - x\<bar> \<le> 1 / 2"
proof -
  have "of_int \<lfloor>x\<rfloor> \<le> x" "x < of_int \<lfloor>x\<rfloor> + 1" by linarith+
  then show ?thesis by (simp add: rne_def Let_def abs_le_iff; linarith)
qed

lemma round_mag_error:
  assumes "0 < fprec F" "pow2 (fqmin F + int (fprec F) - 1) \<le> m"
  shows "\<bar>round_mag F m - m\<bar> \<le> m / 2 ^ fprec F"
proof -
  have m: "0 < m" using assms(2) pow2_pos less_le_trans by blast
  let ?q = "ulp_exp F m"
  have "pow2 (fqmin F + int (fprec F) - 1) < pow2 (floor_log2 m + 1)"
    using floor_log2_bounds[OF m] assms(2) by auto
  then have q: "?q = floor_log2 m - (int (fprec F) - 1)"
    using pow2_less_cancel by (fastforce simp: ulp_exp_def)
  have "round_mag F m - m = (of_int (rne (m / pow2 ?q)) - m / pow2 ?q) * pow2 ?q"
    using round_mag_pos_def[OF m, of F] by (simp add: left_diff_distrib)
  then have "\<bar>round_mag F m - m\<bar> \<le> 1 / 2 * pow2 ?q"
    using mult_right_mono[OF rne_error[of "m / pow2 ?q"], of "pow2 ?q"] by (simp add: abs_mult)
  also have "pow2 ?q = pow2 (floor_log2 m) * 2 / 2 ^ fprec F"
  proof -
    have "?q = floor_log2 m + 1 - int (fprec F)" using q by simp
    then show ?thesis by (simp only: pow2_diff pow2_add) (simp add: pow2_def)
  qed
  also have "1 / 2 * (pow2 (floor_log2 m) * 2 / 2 ^ fprec F) \<le> m / 2 ^ fprec F"
    using floor_log2_bounds[OF m] by (simp add: divide_right_mono)
  finally show ?thesis .
qed

lemma fround_near:
  assumes "0 < fprec F" "pow2 (fqmin F + int (fprec F) - 1) \<le> m" "2 * m \<le> fmax F"
  obtains r where "fround F s m = FFin s r" "\<bar>r - m\<bar> \<le> m / 2 ^ fprec F" "0 < r"
proof
  have m: "0 < m" using assms(2) pow2_pos less_le_trans by blast
  note e = round_mag_error[OF assms(1,2)]
  have p: "(2 :: rat) \<le> 2 ^ fprec F" using assms(1) by (cases "fprec F") auto
  then have h: "m / 2 ^ fprec F \<le> m / 2" using m by (intro divide_left_mono) auto
  have "round_mag F m \<le> fmax F" using e h assms(3) m by linarith
  then show "fround F s m = FFin s (round_mag F m)" by (simp add: fround_def)
  show "\<bar>round_mag F m - m\<bar> \<le> m / 2 ^ fprec F" by (rule e)
  show "0 < round_mag F m" using e h m by linarith
qed

lemma f_of_int_exact:
  assumes "\<bar>i\<bar> < 2 ^ fprec F" "fqmin F \<le> 0" "2 ^ fprec F \<le> fmax F"
  shows "f_of_int F i = FFin (i < 0) (of_int \<bar>i\<bar>)"
proof -
  have r: "round_mag F (of_int \<bar>i\<bar>) = of_int \<bar>i\<bar>"
    using round_mag_repr[of "\<bar>i\<bar>" F 0] assms by (simp add: pow2_def)
  have "(of_int \<bar>i\<bar> :: rat) \<le> 2 ^ fprec F"
    using assms(1) by (metis less_le of_int_le_iff of_int_numeral of_int_power)
  then have "(of_int \<bar>i\<bar> :: rat) \<le> fmax F" using assms(3) by linarith
  then show ?thesis using r by (simp add: f_of_int_def fround_signed_def fround_def Let_def)
qed

lemma fmax_large: "2 ^ 128 - 2 ^ 104 \<le> fmax f32" "2 ^ 1000 \<le> fmax f64"
  by (simp_all add: fmax_def f32_def f64_def pow2_def)

end
