(* ===== verification/Flash_Driver.thy ===== *)
theory Flash_Driver
  imports Prelude
begin

section \<open>The flash driver (\<open>src/flash/flash.c\<close>)\<close>

text \<open>
  The driver talks to the flash controller of the STM32F4 through memory-mapped registers. The
  controller is hardware, so it is a parameter: a \<open>flash_bus\<close> gives the effect of a 32-bit
  register read, of a 32-bit register write and of a byte store on a machine state \<open>'h\<close>. Each C
  function is a state transformer over it; those that poll the busy flag return an option, \<open>None\<close>
  when the poll never ends.

  The locale \<open>flash_controller\<close> states the documented behaviour of the controller the driver relies
  on (key sequence, lock bit, byte programming that only clears bits, sector erase, busy flag); the
  locale \<open>flash_store\<close> is what the driver promises to its clients, and every controller gives one
  (\<open>flash_controller \<subseteq> flash_store\<close>). \<open>ref_bus\<close> is an executable controller that satisfies the
  laws.
\<close>

subsection \<open>Registers\<close>

record 'h flash_bus =
  bus_read32 :: "u32 \<Rightarrow> 'h \<Rightarrow> u32 \<times> 'h"
  bus_write32 :: "u32 \<Rightarrow> u32 \<Rightarrow> 'h \<Rightarrow> 'h"
  bus_write8 :: "u32 \<Rightarrow> u8 \<Rightarrow> 'h \<Rightarrow> 'h"

definition FLASH_KEYR :: u32 where "FLASH_KEYR = 0x40023C04"
definition FLASH_SR :: u32 where "FLASH_SR = 0x40023C0C"
definition FLASH_CR :: u32 where "FLASH_CR = 0x40023C10"

definition FLASH_KEY1 :: u32 where "FLASH_KEY1 = 0x45670123"
definition FLASH_KEY2 :: u32 where "FLASH_KEY2 = 0xCDEF89AB"
definition FLASH_CR_LOCK :: u32 where "FLASH_CR_LOCK = push_bit 31 1"
definition FLASH_CR_PSIZE :: u32 where "FLASH_CR_PSIZE = push_bit 8 0x03"
definition FLASH_CR_PG :: u32 where "FLASH_CR_PG = push_bit 0 1"
definition FLASH_CR_SNB :: u32 where "FLASH_CR_SNB = 0x000000F8"
definition FLASH_CR_SER :: u32 where "FLASH_CR_SER = 0x00000002"
definition FLASH_CR_STRT :: u32 where "FLASH_CR_STRT = 0x00010000"
definition FLASH_SR_BSY :: u32 where "FLASH_SR_BSY = push_bit 16 1"

lemmas flash_bits = FLASH_CR_LOCK_def FLASH_CR_PSIZE_def FLASH_CR_PG_def FLASH_CR_SNB_def
  FLASH_CR_SER_def FLASH_CR_STRT_def FLASH_SR_BSY_def

text \<open>\<open>FLASH_CR |= v\<close> and \<open>FLASH_CR &= ~v\<close>: a read and a write of the register.\<close>

definition cr_set :: "'h flash_bus \<Rightarrow> u32 \<Rightarrow> 'h \<Rightarrow> 'h" where
  "cr_set bus v h = (let (c, h') = bus_read32 bus FLASH_CR h in bus_write32 bus FLASH_CR (c OR v) h')"

definition cr_clear :: "'h flash_bus \<Rightarrow> u32 \<Rightarrow> 'h \<Rightarrow> 'h" where
  "cr_clear bus v h =
     (let (c, h') = bus_read32 bus FLASH_CR h in bus_write32 bus FLASH_CR (c AND NOT v) h')"

subsection \<open>The functions of the driver\<close>

definition flash_addr_to_sector :: "u32 \<Rightarrow> u8" where
  "flash_addr_to_sector addr =
     (let offset = addr AND 0xFFFFFF;
          sector = (if offset < 0x10000 then ucast (offset div 0x4000)
                    else if offset < 0x20000 then ucast (3 + offset div 0x10000)
                    else ucast (4 + offset div 0x20000))
      in if 0x08100000 \<le> addr then sector + 12 else sector)"

definition flash_lock :: "'h flash_bus \<Rightarrow> 'h \<Rightarrow> 'h" where
  "flash_lock bus h = cr_set bus FLASH_CR_LOCK h"

definition flash_unlock :: "'h flash_bus \<Rightarrow> 'h \<Rightarrow> 'h" where
  "flash_unlock bus h =
     (let h1 = cr_set bus FLASH_CR_LOCK h;
          h2 = bus_write32 bus FLASH_KEYR FLASH_KEY1 h1
      in bus_write32 bus FLASH_KEYR FLASH_KEY2 h2)"

definition flash_set_parallelism_8x :: "'h flash_bus \<Rightarrow> 'h \<Rightarrow> 'h" where
  "flash_set_parallelism_8x bus h = cr_clear bus FLASH_CR_PSIZE h"

partial_function (option) flash_wait_while_busy :: "'h flash_bus \<Rightarrow> 'h \<Rightarrow> 'h option" where
  "flash_wait_while_busy bus h =
     (let (s, h') = bus_read32 bus FLASH_SR h in
      if s AND FLASH_SR_BSY \<noteq> 0 then flash_wait_while_busy bus h' else Some h')"

definition flash_write_byte :: "'h flash_bus \<Rightarrow> u32 \<Rightarrow> u8 \<Rightarrow> 'h \<Rightarrow> 'h option" where
  "flash_write_byte bus flash byte h =
     (let h1 = cr_set bus FLASH_CR_PG h;
          h2 = bus_write8 bus flash byte h1
      in flash_wait_while_busy bus h2)"

fun flash_write_loop :: "'h flash_bus \<Rightarrow> u32 \<Rightarrow> u8 list \<Rightarrow> 'h \<Rightarrow> 'h option" where
  "flash_write_loop bus w [] h = Some h"
| "flash_write_loop bus w (b # bs) h =
     Option.bind (flash_write_byte bus w b h) (flash_write_loop bus (w + 1) bs)"

definition flash_write :: "'h flash_bus \<Rightarrow> u32 \<Rightarrow> u8 list \<Rightarrow> 'h \<Rightarrow> 'h option" where
  "flash_write bus addr data h =
     Option.bind (flash_wait_while_busy bus h) (\<lambda>h1.
     Option.bind (flash_write_loop bus addr data (flash_set_parallelism_8x bus h1)) (\<lambda>h2.
     Some (cr_clear bus FLASH_CR_PG h2)))"

definition flash_sector_erase_number :: "'h flash_bus \<Rightarrow> u8 \<Rightarrow> 'h \<Rightarrow> 'h option" where
  "flash_sector_erase_number bus sector h =
     Option.bind (flash_wait_while_busy bus (flash_set_parallelism_8x bus h)) (\<lambda>h1.
     (let h2 = cr_clear bus FLASH_CR_SNB h1;
          h3 = cr_set bus (push_bit 3 (ucast sector) AND FLASH_CR_SNB) h2;
          h4 = cr_set bus FLASH_CR_SER h3;
          h5 = cr_set bus FLASH_CR_STRT h4
      in flash_wait_while_busy bus h5))"

definition flash_sector_erase :: "'h flash_bus \<Rightarrow> u32 \<Rightarrow> 'h \<Rightarrow> 'h option" where
  "flash_sector_erase bus addr h = flash_sector_erase_number bus (flash_addr_to_sector addr) h"

subsection \<open>Flash memory: sectors, programming, erasing\<close>

text \<open>The sectors of the 1 MB part: four of 16 KB, one of 64 KB, seven of 128 KB.\<close>

definition sector_base :: "nat \<Rightarrow> nat" where
  "sector_base s = (if s < 4 then s * 0x4000 else if s = 4 then 0x10000 else (s - 4) * 0x20000)"

definition sector_size :: "nat \<Rightarrow> nat" where
  "sector_size s = (if s < 4 then 0x4000 else if s = 4 then 0x10000 else 0x20000)"

definition in_flash :: "u32 \<Rightarrow> bool" where
  "in_flash a \<longleftrightarrow> 0x08000000 \<le> unat a \<and> unat a < 0x08100000"

definition in_sector :: "nat \<Rightarrow> u32 \<Rightarrow> bool" where
  "in_sector s a \<longleftrightarrow> s < 12 \<and> 0x08000000 + sector_base s \<le> unat a
     \<and> unat a < 0x08000000 + sector_base s + sector_size s"

definition erase_mem :: "nat \<Rightarrow> memory \<Rightarrow> memory" where
  "erase_mem s m = (\<lambda>a. if in_sector s a then 0xFF else m a)"

fun program :: "memory \<Rightarrow> u32 \<Rightarrow> u8 list \<Rightarrow> memory" where
  "program m a [] = m"
| "program m a (b # bs) = program (m(a := m a AND b)) (a + 1) bs"

subsection \<open>Sector of an address\<close>

lemma unat_flash_offset: "unat (a AND 0xFFFFFF :: u32) = unat a mod 2 ^ 24"
proof -
  have "a AND 0xFFFFFF = take_bit 24 a" by (simp add: take_bit_eq_mask mask_eq_exp_minus_1)
  then show ?thesis unfolding take_bit_eq_mod[symmetric] by (simp only: unsigned_take_bit_eq)
qed

lemma addr_to_sector_nat:
  assumes "in_flash a"
  defines "k \<equiv> unat a - 0x08000000"
  shows "unat (flash_addr_to_sector a) =
    (if k < 0x10000 then k div 0x4000 else if k < 0x20000 then 3 + k div 0x10000 else 4 + k div 0x20000)"
proof -
  have k: "unat a = 0x08000000 + k" "k < 0x100000" using assms by (auto simp: in_flash_def)
  have "unat a = k + 2 ^ 24 * 8" using k(1) by simp
  then have o: "unat (a AND 0xFFFFFF) = k"
    unfolding unat_flash_offset using k(2) by (simp only: mod_mult_self2) simp
  have "\<not> 0x08100000 \<le> a" using k by (simp add: word_le_nat_alt)
  moreover have "k div 0x4000 < 0x40" "k div 0x10000 < 0x10" "k div 0x20000 < 8" using k(2) by auto
  ultimately show ?thesis
    by (simp add: flash_addr_to_sector_def Let_def word_less_nat_alt o unat_div unsigned_ucast_eq
        unat_word_ariths(1) take_bit_eq_mod)
qed

lemma addr_to_sector_in_sector:
  assumes "in_flash a"
  shows "in_sector (unat (flash_addr_to_sector a)) a"
proof -
  obtain k where k: "unat a = 0x08000000 + k" "k < 0x100000"
    using assms by (auto simp: in_flash_def dest: le_Suc_ex)
  then have e: "unat (flash_addr_to_sector a) =
      (if k < 0x10000 then k div 0x4000 else if k < 0x20000 then 3 + k div 0x10000 else 4 + k div 0x20000)"
    using addr_to_sector_nat[OF assms] by simp
  show ?thesis
    unfolding in_sector_def sector_base_def sector_size_def e k(1) using k(2) by (auto split: if_splits)
qed

lemma in_sector_unique: "in_sector s a \<Longrightarrow> in_sector t a \<Longrightarrow> s = t"
  unfolding in_sector_def sector_base_def sector_size_def by (auto split: if_splits)

lemma in_sector_in_flash: "in_sector s a \<Longrightarrow> in_flash a"
  unfolding in_sector_def in_flash_def sector_base_def sector_size_def by (auto split: if_splits)

lemma addr_to_sector_iff: "in_sector s a \<Longrightarrow> unat (flash_addr_to_sector a) = s"
  using addr_to_sector_in_sector in_sector_unique in_sector_in_flash by blast

subsection \<open>Bits of the control register\<close>

lemma or_and_zero: "x AND z = 0 \<Longrightarrow> y AND z = 0 \<Longrightarrow> (x OR y) AND z = (0::'a::len word)"
  by (simp add: word_bw_comms bit.conj_disj_distrib)

lemma clear_and_zero: "x AND z = 0 \<Longrightarrow> (x AND NOT y) AND z = (0::'a::len word)"
  by (metis and.assoc and.commute and_zero_eq)

lemma clear_self_zero: "(x AND NOT y) AND y = (0::'a::len word)"
  by (simp add: and.assoc)

lemma set_self: "(x OR y) AND y = (y::'a::len word)"
  by (simp add: word_ao_absorbs)

lemma flash_bits_disjoint [simp]:
  "FLASH_CR_PG AND FLASH_CR_LOCK = 0" "FLASH_CR_PG AND FLASH_CR_STRT = 0"
  "FLASH_CR_PG AND FLASH_CR_PSIZE = 0" "FLASH_CR_SER AND FLASH_CR_PG = 0"
  "FLASH_CR_SER AND FLASH_CR_LOCK = 0" "FLASH_CR_SER AND FLASH_CR_STRT = 0"
  "FLASH_CR_STRT AND FLASH_CR_LOCK = 0" "FLASH_CR_STRT AND FLASH_CR_PG = 0"
  "FLASH_CR_SER AND FLASH_CR_SNB = 0" "FLASH_CR_STRT AND FLASH_CR_SNB = 0"
  "FLASH_CR_SNB AND FLASH_CR_LOCK = 0" "FLASH_CR_SNB AND FLASH_CR_STRT = 0"
  "FLASH_CR_LOCK AND FLASH_CR_STRT = 0" "FLASH_CR_SNB AND FLASH_CR_PG = 0" "FLASH_CR_LOCK AND FLASH_CR_PG = 0"
  "FLASH_CR_PG \<noteq> 0" "FLASH_CR_SER \<noteq> 0" "FLASH_CR_STRT \<noteq> 0" "FLASH_CR_LOCK \<noteq> 0"
  by (simp_all add: flash_bits)

lemma snb_and_zero [simp]: "FLASH_CR_SNB AND z = 0 \<Longrightarrow> (x AND FLASH_CR_SNB) AND z = 0"
  by (simp add: and.assoc)

lemma and_snb_self [simp]: "(x AND FLASH_CR_SNB) AND FLASH_CR_SNB = x AND FLASH_CR_SNB"
  by (simp add: and.assoc)

lemmas flash_bit_rules = or_and_zero clear_and_zero clear_self_zero set_self

definition snb_of :: "u32 \<Rightarrow> nat" where
  "snb_of v = unat (drop_bit 3 (v AND FLASH_CR_SNB))"

lemma snb_of_field: "unat (s :: u8) < 12 \<Longrightarrow> drop_bit 3 (push_bit 3 (ucast s) AND FLASH_CR_SNB) = (ucast s :: u32)"
proof -
  assume a: "unat s < 12"
  then have "s \<in> of_nat ` {..<12}" by (intro image_eqI[of _ _ "unat s"]) auto
  then have "s \<in> {0, 1, 2, 3, 4, 5, 6, 7, 8, 9, 10, 11}"
    by (auto simp: lessThan_Suc numeral_eq_Suc)
  then show ?thesis by (auto simp: FLASH_CR_SNB_def)
qed

lemma snb_of_erase:
  assumes "unat s < 12"
  shows "snb_of (x AND NOT FLASH_CR_SNB OR push_bit 3 (ucast s) AND FLASH_CR_SNB
    OR FLASH_CR_SER OR FLASH_CR_STRT) = unat (s :: u8)"
proof -
  let ?y = "push_bit 3 (ucast s) AND FLASH_CR_SNB :: u32"
  have "(x AND NOT FLASH_CR_SNB OR ?y OR FLASH_CR_SER OR FLASH_CR_STRT) AND FLASH_CR_SNB = ?y"
    by (simp add: bit.conj_disj_distrib2 clear_self_zero)
  then have "snb_of (x AND NOT FLASH_CR_SNB OR ?y OR FLASH_CR_SER OR FLASH_CR_STRT) = unat (ucast s :: u32)"
    unfolding snb_of_def by (simp only: snb_of_field[OF assms])
  then show ?thesis using assms by (simp add: unsigned_ucast_eq take_bit_nat_eq_self)
qed

subsection \<open>Programming erased memory\<close>

lemma program_other: "(\<And>i. i < length bs \<Longrightarrow> a + of_nat i \<noteq> x) \<Longrightarrow> program m a bs x = m x"
proof (induction bs arbitrary: m a)
  case (Cons b bs)
  have "program (m(a := m a AND b)) (a + 1) bs x = (m(a := m a AND b)) x"
  proof (rule Cons.IH)
    fix i assume "i < length bs"
    then show "a + 1 + of_nat i \<noteq> x" using Cons.prems[of "Suc i"] by (simp add: add.assoc)
  qed
  moreover have "a \<noteq> x" using Cons.prems[of 0] by simp
  ultimately show ?case by simp
qed simp

lemma program_at:
  assumes "i < length bs" "length bs \<le> 2 ^ 32"
  shows "program m a bs (a + of_nat i) = m (a + of_nat i) AND bs ! i"
  using assms
proof (induction bs arbitrary: m a i)
  case (Cons b bs)
  show ?case
  proof (cases i)
    case 0
    have "program (m(a := m a AND b)) (a + 1) bs a = (m(a := m a AND b)) a"
    proof (rule program_other)
      fix j assume "j < length bs"
      then show "a + 1 + of_nat j \<noteq> a"
        using Cons.prems(2) addr_offset_ne[of "Suc j" a] by (simp add: add.assoc)
    qed
    then show ?thesis using 0 by simp
  next
    case (Suc j)
    have ne: "a + 1 + of_nat j \<noteq> a"
      using Cons.prems Suc addr_offset_ne[of "Suc j" a] by (simp add: add.assoc)
    have "program (m(a := m a AND b)) (a + 1) bs (a + 1 + of_nat j) = (m(a := m a AND b)) (a + 1 + of_nat j) AND bs ! j"
      using Cons.prems Suc by (intro Cons.IH) auto
    then show ?thesis using Suc ne by (simp add: add.assoc)
  qed
qed simp

lemma mview_program:
  assumes "k < 2 ^ 32" "c + length bs \<le> 2 ^ 32"
  shows "mview (program m (a + of_nat c) bs) a k =
    (if c \<le> k \<and> k < c + length bs then mview m a k AND bs ! (k - c) else mview m a k)"
proof (cases "c \<le> k \<and> k < c + length bs")
  case True
  then have "a + of_nat k = a + of_nat c + of_nat (k - c)" by (simp add: add.assoc)
  then show ?thesis
    unfolding mview_def using True assms program_at[of "k - c" bs m "a + of_nat c"] by auto
next
  case False
  have "program m (a + of_nat c) bs (a + of_nat k) = m (a + of_nat k)"
  proof (rule program_other)
    fix i assume "i < length bs"
    then show "a + of_nat c + of_nat i \<noteq> a + of_nat k"
      using False assms addr_offset_inject[of "c + i" k a] by (auto simp: add.assoc)
  qed
  then show ?thesis unfolding if_not_P[OF False] by (simp add: mview_def)
qed

lemma erased_and [simp]: "0xFF AND b = (b :: u8)"
proof -
  have "(0xFF :: u8) = - 1" by simp
  then show ?thesis by (simp only: and.left_neutral)
qed

subsection \<open>What the driver relies on: the documented flash controller\<close>

text \<open>
  \<open>cr h\<close> is what the control register reads once the controller is idle, \<open>keyed h\<close> says that the
  first key has been written, \<open>busy h\<close> counts the polls of the status register that still report a
  running operation, \<open>mem h\<close> is the memory.
\<close>

definition ctl_idle :: "('h \<Rightarrow> u32) \<Rightarrow> ('h \<Rightarrow> nat) \<Rightarrow> 'h \<Rightarrow> bool" where
  "ctl_idle cr busy h \<longleftrightarrow> busy h = 0 \<and> cr h AND FLASH_CR_PG = 0"

definition ctl_unlocked :: "('h \<Rightarrow> u32) \<Rightarrow> ('h \<Rightarrow> nat) \<Rightarrow> 'h \<Rightarrow> bool" where
  "ctl_unlocked cr busy h \<longleftrightarrow> busy h = 0 \<and> cr h AND FLASH_CR_LOCK = 0"

definition ctl_ready :: "('h \<Rightarrow> u32) \<Rightarrow> ('h \<Rightarrow> nat) \<Rightarrow> 'h \<Rightarrow> bool" where
  "ctl_ready cr busy h \<longleftrightarrow> ctl_unlocked cr busy h \<and> cr h AND FLASH_CR_PG = 0"

lemmas idle_def = ctl_idle_def
lemmas unlocked_def = ctl_unlocked_def
lemmas ready_def = ctl_ready_def

locale flash_controller =
  fixes bus :: "'h flash_bus" and cr :: "'h \<Rightarrow> u32" and keyed :: "'h \<Rightarrow> bool"
    and busy :: "'h \<Rightarrow> nat" and mem :: "'h \<Rightarrow> memory"
  assumes read_cr: "busy h = 0 \<Longrightarrow> bus_read32 bus FLASH_CR h = (cr h, h)"
    and read_sr: "\<exists>v h'. bus_read32 bus FLASH_SR h = (v, h') \<and> (v AND FLASH_SR_BSY \<noteq> 0 \<longleftrightarrow> 0 < busy h)
      \<and> busy h' = busy h - 1 \<and> cr h' = cr h \<and> mem h' = mem h"
    and cr_strt: "cr h AND FLASH_CR_STRT = 0"
    and write_lock: "busy h = 0 \<Longrightarrow> h' = bus_write32 bus FLASH_CR (cr h OR FLASH_CR_LOCK) h \<Longrightarrow>
      cr h' = cr h OR FLASH_CR_LOCK \<and> busy h' = 0 \<and> mem h' = mem h"
    and write_key1: "h' = bus_write32 bus FLASH_KEYR FLASH_KEY1 h \<Longrightarrow>
      keyed h' \<and> cr h' = cr h \<and> busy h' = busy h \<and> mem h' = mem h"
    and write_key2: "keyed h \<Longrightarrow> h' = bus_write32 bus FLASH_KEYR FLASH_KEY2 h \<Longrightarrow>
      cr h' = cr h AND NOT FLASH_CR_LOCK \<and> busy h' = busy h \<and> mem h' = mem h"
    and write_cr: "busy h = 0 \<Longrightarrow> cr h AND FLASH_CR_LOCK = 0 \<Longrightarrow> v AND FLASH_CR_LOCK = 0 \<Longrightarrow>
      v AND FLASH_CR_STRT = 0 \<Longrightarrow> h' = bus_write32 bus FLASH_CR v h \<Longrightarrow>
      cr h' = v \<and> busy h' = 0 \<and> mem h' = mem h"
    and start_erase: "busy h = 0 \<Longrightarrow> cr h AND FLASH_CR_LOCK = 0 \<Longrightarrow> v AND FLASH_CR_LOCK = 0 \<Longrightarrow>
      v AND FLASH_CR_STRT \<noteq> 0 \<Longrightarrow> v AND FLASH_CR_SER \<noteq> 0 \<Longrightarrow> v AND FLASH_CR_PG = 0 \<Longrightarrow>
      h' = bus_write32 bus FLASH_CR v h \<Longrightarrow>
      cr h' = v AND NOT FLASH_CR_STRT \<and> mem h' = erase_mem (snb_of v) (mem h)"
    and store_byte: "busy h = 0 \<Longrightarrow> cr h AND FLASH_CR_LOCK = 0 \<Longrightarrow> cr h AND FLASH_CR_PG \<noteq> 0 \<Longrightarrow>
      cr h AND FLASH_CR_PSIZE = 0 \<Longrightarrow> in_flash a \<Longrightarrow> h' = bus_write8 bus a b h \<Longrightarrow>
      cr h' = cr h \<and> mem h' = (mem h)(a := mem h a AND b)"
begin

abbreviation idle :: "'h \<Rightarrow> bool" where "idle \<equiv> ctl_idle cr busy"
abbreviation unlocked :: "'h \<Rightarrow> bool" where "unlocked \<equiv> ctl_unlocked cr busy"
abbreviation ready :: "'h \<Rightarrow> bool" where "ready \<equiv> ctl_ready cr busy"

lemma wait_while_busy:
  "\<exists>h'. flash_wait_while_busy bus h = Some h' \<and> busy h' = 0 \<and> cr h' = cr h \<and> mem h' = mem h"
proof (induction "busy h" arbitrary: h)
  case 0
  then show ?case using read_sr[of h] by (subst flash_wait_while_busy.simps) auto
next
  case (Suc n)
  obtain v g where g: "bus_read32 bus FLASH_SR h = (v, g)" "v AND FLASH_SR_BSY \<noteq> 0"
      "busy g = busy h - 1" "cr g = cr h" "mem g = mem h"
    using read_sr[of h] Suc.hyps(2) by auto
  with Suc.hyps(2) have "n = busy g" by simp
  from Suc.hyps(1)[OF this] show ?case
    using g by (subst flash_wait_while_busy.simps) simp
qed

lemma cr_set_unlocked:
  assumes "unlocked h" "v AND FLASH_CR_LOCK = 0" "v AND FLASH_CR_STRT = 0"
  shows "unlocked (cr_set bus v h) \<and> cr (cr_set bus v h) = cr h OR v \<and> mem (cr_set bus v h) = mem h"
  using assms write_cr[of h "cr h OR v", OF _ _ _ _ refl]
  by (simp add: unlocked_def cr_set_def read_cr cr_strt or_and_zero)

lemma cr_clear_unlocked:
  assumes "unlocked h"
  shows "unlocked (cr_clear bus v h) \<and> cr (cr_clear bus v h) = cr h AND NOT v \<and> mem (cr_clear bus v h) = mem h"
  using assms write_cr[of h "cr h AND NOT v", OF _ _ _ _ refl]
  by (simp add: unlocked_def cr_clear_def read_cr cr_strt clear_and_zero)

lemma flash_lock_idle: "idle h \<Longrightarrow> idle (flash_lock bus h) \<and> mem (flash_lock bus h) = mem h"
  using write_lock[OF _ refl, of h]
  by (simp add: idle_def flash_lock_def cr_set_def read_cr or_and_zero)

lemma flash_unlock_ready:
  assumes "idle h"
  shows "ready (flash_unlock bus h) \<and> mem (flash_unlock bus h) = mem h"
proof -
  define h1 where "h1 = cr_set bus FLASH_CR_LOCK h"
  have h1: "cr h1 = cr h OR FLASH_CR_LOCK" "busy h1 = 0" "mem h1 = mem h"
    using assms write_lock[OF _ refl, of h] by (simp_all add: h1_def idle_def cr_set_def read_cr)
  define h2 where "h2 = bus_write32 bus FLASH_KEYR FLASH_KEY1 h1"
  note h2 = write_key1[OF h2_def]
  have "flash_unlock bus h = bus_write32 bus FLASH_KEYR FLASH_KEY2 h2"
    by (simp add: flash_unlock_def h1_def h2_def)
  note h3 = write_key2[OF conjunct1[OF h2] this]
  show ?thesis
    using assms h1 h2 h3
    by (auto simp: ready_def unlocked_def idle_def clear_self_zero clear_and_zero or_and_zero)
qed

lemma flash_write_byte_ok:
  assumes "unlocked h" "cr h AND FLASH_CR_PSIZE = 0" "in_flash a"
  shows "\<exists>h'. flash_write_byte bus a b h = Some h' \<and> unlocked h' \<and> cr h' = cr h OR FLASH_CR_PG
    \<and> mem h' = (mem h)(a := mem h a AND b)"
proof -
  define h1 where "h1 = cr_set bus FLASH_CR_PG h"
  have h1: "unlocked h1" "cr h1 = cr h OR FLASH_CR_PG" "mem h1 = mem h"
    using cr_set_unlocked[OF assms(1), of FLASH_CR_PG] by (simp_all add: h1_def)
  have "cr h1 AND FLASH_CR_PSIZE = 0" "cr h1 AND FLASH_CR_PG \<noteq> 0"
    using assms(2) h1(2) by (simp_all add: or_and_zero set_self)
  then have h2: "cr (bus_write8 bus a b h1) = cr h1" "mem (bus_write8 bus a b h1) = (mem h)(a := mem h a AND b)"
    using store_byte[OF _ _ _ _ assms(3) refl, of h1 b] h1 by (auto simp: unlocked_def)
  show ?thesis
    using wait_while_busy[of "bus_write8 bus a b h1"] h1 h2
    by (auto simp: flash_write_byte_def Let_def unlocked_def simp flip: h1_def)
qed

lemma flash_write_loop_ok:
  assumes "unlocked h" "cr h AND FLASH_CR_PSIZE = 0" "\<And>i. i < length bs \<Longrightarrow> in_flash (a + of_nat i)"
  shows "\<exists>h'. flash_write_loop bus a bs h = Some h' \<and> unlocked h' \<and> mem h' = program (mem h) a bs"
  using assms
proof (induction bs arbitrary: a h)
  case (Cons b bs)
  have "in_flash a" using Cons.prems(3)[of 0] by simp
  from flash_write_byte_ok[OF Cons.prems(1,2) this, of b]
  obtain g where g: "flash_write_byte bus a b h = Some g" "unlocked g" "cr g = cr h OR FLASH_CR_PG"
      "mem g = (mem h)(a := mem h a AND b)" by auto
  have "cr g AND FLASH_CR_PSIZE = 0" using g(3) Cons.prems(2) by (simp add: or_and_zero)
  moreover have "in_flash (a + 1 + of_nat i)" if "i < length bs" for i
    using Cons.prems(3)[of "Suc i"] that by (simp add: add.assoc)
  ultimately show ?case using Cons.IH[OF g(2)] g by fastforce
qed simp

lemma flash_write_ok:
  assumes "ready h" "\<And>i. i < length bs \<Longrightarrow> in_flash (a + of_nat i)"
  shows "\<exists>h'. flash_write bus a bs h = Some h' \<and> ready h' \<and> mem h' = program (mem h) a bs"
proof -
  obtain h1 where h1: "flash_wait_while_busy bus h = Some h1" "busy h1 = 0" "cr h1 = cr h" "mem h1 = mem h"
    using wait_while_busy by blast
  define h2 where "h2 = flash_set_parallelism_8x bus h1"
  have h2: "unlocked h2" "cr h2 AND FLASH_CR_PSIZE = 0" "mem h2 = mem h"
    using cr_clear_unlocked[of h1 FLASH_CR_PSIZE] assms(1) h1
    by (auto simp: h2_def flash_set_parallelism_8x_def clear_self_zero ready_def unlocked_def)
  from flash_write_loop_ok[OF h2(1,2) assms(2)]
  obtain h3 where h3: "flash_write_loop bus a bs h2 = Some h3" "unlocked h3" "mem h3 = program (mem h) a bs"
    using h2(3) by auto
  show ?thesis
    using h1(1) h3 cr_clear_unlocked[OF h3(2), of FLASH_CR_PG]
    by (auto simp: flash_write_def ready_def clear_self_zero simp flip: h2_def)
qed

lemma flash_sector_erase_number_ok:
  assumes "ready h" "unat s < 12"
  shows "\<exists>h'. flash_sector_erase_number bus s h = Some h' \<and> ready h' \<and> mem h' = erase_mem (unat s) (mem h)"
proof -
  define h0 where "h0 = flash_set_parallelism_8x bus h"
  have h0: "unlocked h0" "cr h0 AND FLASH_CR_PG = 0" "mem h0 = mem h"
    using cr_clear_unlocked[of h FLASH_CR_PSIZE] assms(1)
    by (auto simp: h0_def flash_set_parallelism_8x_def clear_and_zero ready_def)
  obtain h1 where h1: "flash_wait_while_busy bus h0 = Some h1" "unlocked h1" "cr h1 AND FLASH_CR_PG = 0" "mem h1 = mem h"
    using wait_while_busy[of h0] h0 by (auto simp: unlocked_def)
  define y where "y = (push_bit 3 (ucast s) AND FLASH_CR_SNB :: u32)"
  define h2 where "h2 = cr_clear bus FLASH_CR_SNB h1"
  have h2: "unlocked h2" "cr h2 = cr h1 AND NOT FLASH_CR_SNB" "mem h2 = mem h"
    using cr_clear_unlocked[OF h1(2), of FLASH_CR_SNB] h1(4) by (auto simp: h2_def)
  define h3 where "h3 = cr_set bus y h2"
  have h3: "unlocked h3" "cr h3 = cr h1 AND NOT FLASH_CR_SNB OR y" "mem h3 = mem h"
    using cr_set_unlocked[OF h2(1), of y] h2 by (auto simp: h3_def y_def)
  define h4 where "h4 = cr_set bus FLASH_CR_SER h3"
  have h4: "unlocked h4" "cr h4 = cr h1 AND NOT FLASH_CR_SNB OR y OR FLASH_CR_SER" "mem h4 = mem h"
    using cr_set_unlocked[OF h3(1), of FLASH_CR_SER] h3 by (auto simp: h4_def or.assoc)
  define v where "v = cr h1 AND NOT FLASH_CR_SNB OR y OR FLASH_CR_SER OR FLASH_CR_STRT"
  have v: "v AND FLASH_CR_LOCK = 0" "v AND FLASH_CR_STRT \<noteq> 0" "v AND FLASH_CR_SER \<noteq> 0" "v AND FLASH_CR_PG = 0"
    using h1(2,3) unfolding v_def unlocked_def y_def
    by (auto simp: or_and_zero clear_and_zero set_self bit.conj_disj_distrib2)
  define h5 where "h5 = cr_set bus FLASH_CR_STRT h4"
  have "h5 = bus_write32 bus FLASH_CR v h4"
    using h4(1,2) by (simp add: h5_def cr_set_def v_def read_cr unlocked_def or.assoc)
  from start_erase[OF _ _ v this] h4(1,3)
  have h5: "cr h5 = v AND NOT FLASH_CR_STRT" "mem h5 = erase_mem (snb_of v) (mem h)"
    by (auto simp: unlocked_def)
  have "snb_of v = unat s" unfolding v_def y_def using assms(2) by (rule snb_of_erase)
  moreover obtain h6 where "flash_wait_while_busy bus h5 = Some h6" "busy h6 = 0" "cr h6 = cr h5" "mem h6 = mem h5"
    using wait_while_busy[of h5] by auto
  ultimately show ?thesis
    using h1(1) h5 v(1,4)
    by (auto simp: flash_sector_erase_number_def Let_def ready_def unlocked_def clear_and_zero
        simp flip: h0_def h2_def y_def h3_def h4_def h5_def)
qed

lemma flash_sector_erase_ok:
  assumes "ready h" "in_sector s a"
  shows "\<exists>h'. flash_sector_erase bus a h = Some h' \<and> ready h' \<and> mem h' = erase_mem s (mem h)"
  using flash_sector_erase_number_ok[OF assms(1), of "flash_addr_to_sector a"] addr_to_sector_iff[OF assms(2)] assms(2)
  by (simp add: flash_sector_erase_def in_sector_def)

end

subsection \<open>What the driver promises: the interface of \<open>flash.h\<close>\<close>

text \<open>
  The clients link against the four functions of \<open>flash.h\<close> and read the flash through pointers.
\<close>

record 'h flash_api =
  api_unlock :: "'h \<Rightarrow> 'h"
  api_lock :: "'h \<Rightarrow> 'h"
  api_write :: "u32 \<Rightarrow> u8 list \<Rightarrow> 'h \<Rightarrow> 'h option"
  api_erase :: "u32 \<Rightarrow> 'h \<Rightarrow> 'h option"
  api_mem :: "'h \<Rightarrow> memory"

definition flash_c :: "'h flash_bus \<Rightarrow> ('h \<Rightarrow> memory) \<Rightarrow> 'h flash_api" where
  "flash_c bus mem = \<lparr>api_unlock = flash_unlock bus, api_lock = flash_lock bus,
     api_write = flash_write bus, api_erase = flash_sector_erase bus, api_mem = mem\<rparr>"

locale flash_store =
  fixes api :: "'h flash_api" and idle :: "'h \<Rightarrow> bool" and ready :: "'h \<Rightarrow> bool"
  assumes unlock_ready: "idle h \<Longrightarrow> ready (api_unlock api h) \<and> api_mem api (api_unlock api h) = api_mem api h"
    and lock_idle: "ready h \<Longrightarrow> idle (api_lock api h) \<and> api_mem api (api_lock api h) = api_mem api h"
    and ready_idle: "ready h \<Longrightarrow> idle h"
    and write_program: "ready h \<Longrightarrow> (\<And>i. i < length bs \<Longrightarrow> in_flash (a + of_nat i)) \<Longrightarrow>
      \<exists>h'. api_write api a bs h = Some h' \<and> ready h' \<and> api_mem api h' = program (api_mem api h) a bs"
    and erase_sector: "ready h \<Longrightarrow> in_sector s a \<Longrightarrow>
      \<exists>h'. api_erase api a h = Some h' \<and> ready h' \<and> api_mem api h' = erase_mem s (api_mem api h)"

sublocale flash_controller \<subseteq> store: flash_store "flash_c bus mem" idle ready
proof (unfold_locales, unfold flash_c_def flash_api.simps)
  show "idle h \<Longrightarrow> ready (flash_unlock bus h) \<and> mem (flash_unlock bus h) = mem h" for h
    by (rule flash_unlock_ready)
  show "ready h \<Longrightarrow> idle h" for h
    by (simp add: ready_def unlocked_def idle_def)
  then show "ready h \<Longrightarrow> idle (flash_lock bus h) \<and> mem (flash_lock bus h) = mem h" for h
    by (rule flash_lock_idle)
qed (rule flash_write_ok flash_sector_erase_ok; assumption)+

context flash_controller
begin

lemma flash_store_flash_c: "flash_store (flash_c bus mem) idle ready"
  by (rule store.flash_store_axioms)

end

subsection \<open>An executable controller\<close>

text \<open>
  A controller that satisfies the laws: registers and memory in a record, two polls of the status
  register per operation.
\<close>

record ref_flash =
  rf_cr :: u32
  rf_keyed :: bool
  rf_busy :: nat
  rf_mem :: memory

definition ref_cr :: "ref_flash \<Rightarrow> u32" where
  "ref_cr h = rf_cr h AND NOT FLASH_CR_STRT"

definition ref_read32 :: "u32 \<Rightarrow> ref_flash \<Rightarrow> u32 \<times> ref_flash" where
  "ref_read32 a h =
     (if a = FLASH_CR then (ref_cr h, h)
      else if a = FLASH_SR then (if 0 < rf_busy h then FLASH_SR_BSY else 0, h\<lparr>rf_busy := rf_busy h - 1\<rparr>)
      else (0, h))"

definition ref_write32 :: "u32 \<Rightarrow> u32 \<Rightarrow> ref_flash \<Rightarrow> ref_flash" where
  "ref_write32 a v h =
     (if a = FLASH_KEYR then
        if v = FLASH_KEY1 then h\<lparr>rf_keyed := True\<rparr>
        else if v = FLASH_KEY2 \<and> rf_keyed h then h\<lparr>rf_keyed := False, rf_cr := ref_cr h AND NOT FLASH_CR_LOCK\<rparr>
        else h
      else if a = FLASH_CR then
        if ref_cr h AND FLASH_CR_LOCK \<noteq> 0 then h\<lparr>rf_cr := ref_cr h OR (v AND FLASH_CR_LOCK)\<rparr>
        else if v AND FLASH_CR_STRT \<noteq> 0 \<and> v AND FLASH_CR_SER \<noteq> 0
        then h\<lparr>rf_cr := v, rf_busy := 2, rf_mem := erase_mem (snb_of v) (rf_mem h)\<rparr>
        else h\<lparr>rf_cr := v\<rparr>
      else h)"

definition ref_write8 :: "u32 \<Rightarrow> u8 \<Rightarrow> ref_flash \<Rightarrow> ref_flash" where
  "ref_write8 a b h =
     (if in_flash a \<and> ref_cr h AND FLASH_CR_LOCK = 0 \<and> ref_cr h AND FLASH_CR_PG \<noteq> 0
      then h\<lparr>rf_busy := 2, rf_mem := (rf_mem h)(a := rf_mem h a AND b)\<rparr> else h)"

definition ref_bus :: "ref_flash flash_bus" where
  "ref_bus = \<lparr>bus_read32 = ref_read32, bus_write32 = ref_write32, bus_write8 = ref_write8\<rparr>"

lemma flash_register_addresses [simp]:
  "FLASH_CR \<noteq> FLASH_KEYR" "FLASH_SR \<noteq> FLASH_CR" "FLASH_KEY2 \<noteq> FLASH_KEY1"
  by (simp_all add: FLASH_CR_def FLASH_KEYR_def FLASH_SR_def FLASH_KEY1_def FLASH_KEY2_def)

lemma and_not_absorb:
  assumes "x AND z = (0::'a::len word)"
  shows "x AND NOT z = x"
proof (rule bit_word_eqI)
  fix n
  have "\<not> bit (x AND z) n" using assms by simp
  then show "n < LENGTH('a) \<Longrightarrow> bit (x AND NOT z) n = bit x n" by (auto simp: bit_simps)
qed

lemma ref_bus_simps [simp]:
  "bus_read32 ref_bus = ref_read32" "bus_write32 ref_bus = ref_write32" "bus_write8 ref_bus = ref_write8"
  by (simp_all add: ref_bus_def)

interpretation ref: flash_controller ref_bus ref_cr rf_keyed rf_busy rf_mem
proof (unfold_locales, unfold ref_bus_simps)
  show "ref_cr h AND FLASH_CR_STRT = 0" for h
    by (simp add: ref_cr_def clear_self_zero)
  show "\<exists>v h'. ref_read32 FLASH_SR h = (v, h') \<and> (v AND FLASH_SR_BSY \<noteq> 0 \<longleftrightarrow> 0 < rf_busy h)
      \<and> rf_busy h' = rf_busy h - 1 \<and> ref_cr h' = ref_cr h \<and> rf_mem h' = rf_mem h" for h
    by (simp add: ref_read32_def ref_cr_def FLASH_SR_BSY_def)
  show "ref_read32 FLASH_CR h = (ref_cr h, h)" for h
    by (simp add: ref_read32_def)
  show "ref_cr h' = ref_cr h OR FLASH_CR_LOCK \<and> rf_busy h' = 0 \<and> rf_mem h' = rf_mem h"
    if "rf_busy h = 0" "h' = ref_write32 FLASH_CR (ref_cr h OR FLASH_CR_LOCK) h" for h h'
  proof -
    have "(ref_cr h OR FLASH_CR_LOCK) AND FLASH_CR_STRT = 0"
      by (rule or_and_zero) (simp_all add: ref_cr_def clear_self_zero)
    then show ?thesis using that
      by (simp add: ref_write32_def ref_cr_def[of "rf_cr_update _ _"] set_self and_not_absorb)
  qed
qed (auto simp: ref_write32_def ref_write8_def ref_cr_def and_not_absorb clear_self_zero clear_and_zero)

subsection \<open>Properties of the driver\<close>

lemma program_erased:
  "(\<And>i. i < length bs \<Longrightarrow> m (a + of_nat i) = 0xFF) \<Longrightarrow> length bs \<le> 2 ^ 32 \<Longrightarrow>
    program m a bs = mem_store m a bs"
proof (induction bs arbitrary: m a)
  case (Cons b bs)
  have "(m(a := b)) (a + 1 + of_nat i) = 0xFF" if "i < length bs" for i
    using Cons.prems(1)[of "Suc i"] Cons.prems(2) that addr_offset_ne[of "Suc i" a] by (simp add: add.assoc)
  then have "program (m(a := b)) (a + 1) bs = mem_store (m(a := b)) (a + 1) bs"
    using Cons.prems(2) by (intro Cons.IH) auto
  then show ?case using Cons.prems(1)[of 0] by simp
qed simp

lemma flash_update_controller:
  assumes "flash_controller bus cr keyed busy mem" and "ctl_idle cr busy h"
    and "in_sector s a" and "\<forall>i < length bs. in_sector s (a + of_nat i)" and "length bs \<le> 2 ^ 32"
  shows "\<exists>h1 h2. flash_sector_erase bus a (flash_unlock bus h) = Some h1 \<and> flash_write bus a bs h1 = Some h2
    \<and> ctl_idle cr busy (flash_lock bus h2)
    \<and> mem (flash_lock bus h2) = mem_store (erase_mem s (mem h)) a bs"
proof -
  note unlock = flash_controller.flash_unlock_ready[OF assms(1,2)]
  obtain h1 where h1: "flash_sector_erase bus a (flash_unlock bus h) = Some h1" "ctl_ready cr busy h1"
      "mem h1 = erase_mem s (mem h)"
    using flash_controller.flash_sector_erase_ok[OF assms(1) _ assms(3)] unlock by metis
  obtain h2 where h2: "flash_write bus a bs h1 = Some h2" "ctl_ready cr busy h2" "mem h2 = program (mem h1) a bs"
    using flash_controller.flash_write_ok[OF assms(1) h1(2), of bs a] assms(4) in_sector_in_flash by blast
  have "mem h2 = mem_store (erase_mem s (mem h)) a bs"
    unfolding h2(3) h1(3) by (rule program_erased) (use assms(4,5) in \<open>simp_all add: erase_mem_def\<close>)
  moreover have "ctl_idle cr busy h2"
    using h2(2) by (simp add: ctl_idle_def ctl_ready_def ctl_unlocked_def)
  ultimately show ?thesis
    using h1(1) h2(1) flash_controller.flash_lock_idle[OF assms(1)] by metis
qed


text \<open>C1. On every controller that behaves as documented, unlocking the flash, erasing the sector of an
  address and writing a buffer there, inside the sector, returns, leaves the controller idle, the buffer
  readable at the address, the rest of the sector erased and every other address as it was.\<close>
theorem flash_update:
  assumes "flash_controller bus cr keyed busy mem" and "ctl_idle cr busy h"
    and "in_sector s a" and "\<forall>i < length bs. in_sector s (a + of_nat i)" and "length bs \<le> 2 ^ 32"
  shows "\<exists>h1 h2. flash_sector_erase bus a (flash_unlock bus h) = Some h1 \<and> flash_write bus a bs h1 = Some h2
    \<and> ctl_idle cr busy (flash_lock bus h2)
    \<and> mem (flash_lock bus h2) = mem_store (erase_mem s (mem h)) a bs"
  by (rule flash_update_controller[OF assms])

definition ref_init :: ref_flash where
  "ref_init = \<lparr>rf_cr = FLASH_CR_LOCK, rf_keyed = False, rf_busy = 0, rf_mem = (\<lambda>_. 0)\<rparr>"

lemma ref_init_idle: "ctl_idle ref_cr rf_busy ref_init"
  by (simp add: ctl_idle_def ref_init_def ref_cr_def clear_and_zero)

lemma flash_update_witness:
  "\<exists>h1 h2. flash_sector_erase ref_bus 0x08010000 (flash_unlock ref_bus ref_init) = Some h1
    \<and> flash_write ref_bus 0x08010000 [0x12, 0x34] h1 = Some h2
    \<and> ctl_idle ref_cr rf_busy (flash_lock ref_bus h2)
    \<and> rf_mem (flash_lock ref_bus h2) = mem_store (erase_mem 4 (rf_mem ref_init)) 0x08010000 [0x12, 0x34]"
  by (rule flash_update[OF ref.flash_controller_axioms ref_init_idle])
    (simp_all add: in_sector_def sector_base_def sector_size_def All_less_Suc)

lemma addr_to_sector_bank2:
  assumes "0x08100000 \<le> unat a" "unat a < 0x08200000"
  shows "unat (flash_addr_to_sector a) = 16 + (unat a - 0x08000000) div 0x20000"
proof -
  define k where "k = unat a - 0x08000000"
  have k: "unat a = 0x08000000 + k" "0x100000 \<le> k" "k < 0x200000" using assms by (auto simp: k_def)
  have "unat a = k + 2 ^ 24 * 8" using k(1) by simp
  then have o: "unat (a AND 0xFFFFFF) = k"
    unfolding unat_flash_offset using k(3) by (simp only: mod_mult_self2) simp
  have "0x08100000 \<le> a" using k by (simp add: word_le_nat_alt)
  moreover have "k div 0x20000 < 0x10" using k(3) by auto
  ultimately show ?thesis
    using k(2) unfolding k_def[symmetric]
    by (simp add: flash_addr_to_sector_def Let_def word_less_nat_alt o unat_div unsigned_ucast_eq
        unat_word_ariths(1) take_bit_eq_mod)
qed

text \<open>The sector number computed from an address of the 1 MB flash is that of the one sector that holds
  the address; from an address of the second megabyte of a 2 MB part it is eight more than the number of
  its sector (and sector 12, the first of bank 2, is never computed), because the mask keeps the bit that
  tells the banks apart.\<close>
lemma flash_addr_to_sector_spec:
  "(in_flash a \<longrightarrow> (\<forall>s. in_sector s a \<longleftrightarrow> s = unat (flash_addr_to_sector a))) \<and>
   (0x08120000 \<le> unat a \<and> unat a < 0x08200000 \<longrightarrow>
     in_sector (unat (flash_addr_to_sector a) - 20) (a - 0x00100000) \<and> 25 \<le> unat (flash_addr_to_sector a)) \<and>
   (0x08100000 \<le> unat a \<and> unat a < 0x08120000 \<longrightarrow> flash_addr_to_sector a = 24)"
proof (intro conjI impI)
  show "\<forall>s. in_sector s a \<longleftrightarrow> s = unat (flash_addr_to_sector a)" if "in_flash a"
    using addr_to_sector_in_sector[OF that] addr_to_sector_iff by blast
next
  assume a: "0x08120000 \<le> unat a \<and> unat a < 0x08200000"
  then have s: "unat (flash_addr_to_sector a) = 16 + (unat a - 0x08000000) div 0x20000"
    by (intro addr_to_sector_bank2) auto
  have "unat (a - 0x00100000) = unat a - 0x00100000"
    using a by (simp add: unat_sub word_le_nat_alt)
  moreover define q r where "q = (unat a - 0x08100000) div 0x20000" and "r = (unat a - 0x08100000) mod 0x20000"
  then have "unat a = 0x08100000 + q * 0x20000 + r" "r < 0x20000" using a by auto
  moreover from this have "1 \<le> q" "q < 8" "unat a - 0x08000000 = r + (8 + q) * 0x20000" using a by auto
  moreover from this \<open>r < 0x20000\<close> have "(unat a - 0x08000000) div 0x20000 = 8 + q" by simp
  ultimately show "in_sector (unat (flash_addr_to_sector a) - 20) (a - 0x00100000)"
    and "25 \<le> unat (flash_addr_to_sector a)"
    unfolding s in_sector_def sector_base_def sector_size_def by auto
next
  assume a: "0x08100000 \<le> unat a \<and> unat a < 0x08120000"
  then have "unat (flash_addr_to_sector a) = 16 + (unat a - 0x08000000) div 0x20000"
    by (intro addr_to_sector_bank2) auto
  also have "\<dots> = 24" using a by auto
  finally show "flash_addr_to_sector a = 24" by (simp add: word_unat_eq_iff)
qed

lemma flash_addr_to_sector_spec_witness:
  "(\<forall>s. in_sector s 0x08012345 \<longleftrightarrow> s = unat (flash_addr_to_sector 0x08012345)) \<and>
   in_sector (unat (flash_addr_to_sector 0x08140000) - 20) (0x08140000 - 0x00100000) \<and>
   flash_addr_to_sector 0x08110000 = 24"
  using flash_addr_to_sector_spec[of "0x08012345"] flash_addr_to_sector_spec[of "0x08140000"]
    flash_addr_to_sector_spec[of "0x08110000"]
  by (simp add: in_flash_def)

end
