(* ===== verification/Config_Storage.thy ===== *)
theory Config_Storage
  imports Flash_Driver
begin

section \<open>Persistent configuration (\<open>src/config_flash_storage.c\<close>)\<close>

text \<open>
  The parameter tree is saved to a flash sector as a log of blocks, each a header (checksum of the
  length, length, checksum of the data) and the serialized tree. Saving appends a block, or erases
  the sector and starts again when the block does not fit; loading reads the last block.

  Parameters stand for the code outside the repository: \<open>crc\<close> is \<open>crc32\<close>, \<open>wcmp\<close> is
  \<open>parameter_msgpack_write_cmp\<close> (it serializes the tree through the writer callback it is given
  and says whether an error was reported), \<open>mread\<close> is \<open>parameter_msgpack_read\<close>. The flash is
  reached through the interface \<open>flash_api\<close>. Pointers are 32-bit words, \<open>NULL\<close> is \<open>None\<close>, and a
  loop or recursion that does not end is \<open>None\<close> of the outer option.
\<close>

subsection \<open>Blocks\<close>

type_synonym crc_fun = "u32 \<Rightarrow> u8 list \<Rightarrow> u32"

definition CONFIG_HEADER_SIZE :: u32 where
  "CONFIG_HEADER_SIZE = 3 * 4"

definition CRC_INITIAL_VALUE :: u32 where
  "CRC_INITIAL_VALUE = 0xdeadbeef"

definition config_block_is_valid :: "crc_fun \<Rightarrow> memory \<Rightarrow> u32 \<Rightarrow> bool" where
  "config_block_is_valid crc m block =
     (let crc1 = le_word32 (mem_bytes m block 4);
          len = le_word32 (mem_bytes m (block + 4) 4)
      in if crc1 \<noteq> crc CRC_INITIAL_VALUE (le_bytes32 len) then False
         else let crc2 = le_word32 (mem_bytes m (block + 8) 4)
              in if crc2 \<noteq> crc CRC_INITIAL_VALUE (mem_bytes m (block + 12) (unat len)) then False
                 else True)"

definition config_block_get_length :: "memory \<Rightarrow> u32 \<Rightarrow> u32" where
  "config_block_get_length m block = le_word32 (mem_bytes m (block + 4) 4)"

definition config_write_block_header ::
  "'h flash_api \<Rightarrow> crc_fun \<Rightarrow> u32 \<Rightarrow> u32 \<Rightarrow> 'h \<Rightarrow> 'h option" where
  "config_write_block_header api crc dst len h =
     Option.bind (api_write api dst (le_bytes32 (crc CRC_INITIAL_VALUE (le_bytes32 len))) h) (\<lambda>h1.
     Option.bind (api_write api (dst + 4) (le_bytes32 len) h1) (\<lambda>h2.
     (let c = crc CRC_INITIAL_VALUE (mem_bytes (api_mem api h2) (dst + CONFIG_HEADER_SIZE) (unat len))
      in api_write api (dst + 8) (le_bytes32 c) h2)))"

partial_function (option) find_last_used_loop ::
  "crc_fun \<Rightarrow> memory \<Rightarrow> u32 \<Rightarrow> u32 option \<Rightarrow> u32 option option" where
  "find_last_used_loop crc m block last_block =
     (if config_block_is_valid crc m block
      then find_last_used_loop crc m
        (block + config_block_get_length m block + CONFIG_HEADER_SIZE) (Some block)
      else Some last_block)"

definition config_block_find_last_used :: "crc_fun \<Rightarrow> memory \<Rightarrow> u32 \<Rightarrow> u32 option option" where
  "config_block_find_last_used crc m p = find_last_used_loop crc m p None"

partial_function (option) config_block_find_first_free ::
  "crc_fun \<Rightarrow> memory \<Rightarrow> u32 \<Rightarrow> u32 option" where
  "config_block_find_first_free crc m block =
     (if config_block_is_valid crc m block
      then config_block_find_first_free crc m
        (block + config_block_get_length m block + CONFIG_HEADER_SIZE)
      else Some block)"

subsection \<open>The writer given to the serializer\<close>

record mem_access =
  ma_buf :: u32
  ma_size :: u32
  ma_index :: u32

type_synonym 'h writer_state = "mem_access \<times> 'h"
type_synonym 'h writer = "'h writer_state \<Rightarrow> u8 list \<Rightarrow> (u32 \<times> 'h writer_state) option"
type_synonym ('ns, 'h) serializer =
  "'ns \<Rightarrow> 'h writer \<Rightarrow> 'h writer_state \<Rightarrow> (bool \<times> 'h writer_state) option"

definition cmp_flash_writer :: "'h flash_api \<Rightarrow> 'h writer" where
  "cmp_flash_writer api = (\<lambda>(mem, h) data.
     let len = of_nat (length data) in
     if ma_index mem + len \<le> ma_size mem
     then Option.bind (api_write api (ma_buf mem + ma_index mem) data h)
       (\<lambda>h'. Some (len, (mem\<lparr>ma_index := ma_index mem + len\<rparr>, h')))
     else Some (0, (mem, h)))"

subsection \<open>Erase, save, load\<close>

definition config_erase :: "'h flash_api \<Rightarrow> u32 \<Rightarrow> 'h \<Rightarrow> 'h option" where
  "config_erase api dst h =
     Option.bind (api_erase api dst (api_unlock api h)) (\<lambda>h1. Some (api_lock api h1))"

text \<open>
  One pass of \<open>config_save\<close>: from the unlocked flash, where the block goes and whether the serializer
  succeeded. \<open>config_save\<close> then writes the header, or erases the sector and calls itself.
\<close>

definition config_save_pass ::
  "'h flash_api \<Rightarrow> crc_fun \<Rightarrow> ('ns, 'h) serializer \<Rightarrow> u32 \<Rightarrow> u32 \<Rightarrow> 'ns \<Rightarrow> 'h
    \<Rightarrow> (bool \<times> u32 \<times> mem_access \<times> 'h) option" where
  "config_save_pass api crc wcmp orig_dst dst_len ns h =
     Option.bind (config_block_find_last_used crc (api_mem api h) orig_dst) (\<lambda>last_block.
     Option.bind (if last_block = None then api_erase api orig_dst h else Some h) (\<lambda>h1.
     Option.bind (config_block_find_first_free crc (api_mem api h1) orig_dst) (\<lambda>free.
     let len1 = dst_len - (free - orig_dst) in
     Option.bind (if len1 \<le> CONFIG_HEADER_SIZE
                  then Option.bind (api_erase api orig_dst h1) (\<lambda>h2. Some (orig_dst, dst_len, h2))
                  else Some (free, len1, h1)) (\<lambda>(dst, len, h2).
     let mem = \<lparr>ma_buf = dst + CONFIG_HEADER_SIZE, ma_size = len - CONFIG_HEADER_SIZE, ma_index = 0\<rparr> in
     Option.bind (wcmp ns (cmp_flash_writer api) (mem, h2)) (\<lambda>(success, mem, h3).
     Some (success, dst, mem, h3))))))"

partial_function (option) config_save ::
  "'h flash_api \<Rightarrow> crc_fun \<Rightarrow> ('ns, 'h) serializer \<Rightarrow> u32 \<Rightarrow> u32 \<Rightarrow> 'ns \<Rightarrow> 'h \<Rightarrow> 'h option" where
  "config_save api crc wcmp orig_dst dst_len ns h =
     Option.bind (config_save_pass api crc wcmp orig_dst dst_len ns (api_unlock api h))
       (\<lambda>(success, dst, mem, h1).
          if \<not> success
          then Option.bind (api_erase api orig_dst h1)
            (\<lambda>h2. config_save api crc wcmp orig_dst dst_len ns (api_lock api h2))
          else Option.bind (config_write_block_header api crc dst (ma_index mem) h1)
            (\<lambda>h2. Some (api_lock api h2)))"

definition config_load ::
  "crc_fun \<Rightarrow> ('ns \<Rightarrow> u8 list \<Rightarrow> int \<times> 'ns) \<Rightarrow> memory \<Rightarrow> 'ns \<Rightarrow> u32 \<Rightarrow> (bool \<times> 'ns) option" where
  "config_load crc mread m ns src =
     Option.bind (config_block_find_last_used crc m src) (\<lambda>last.
       case last of None \<Rightarrow> Some (False, ns)
       | Some block \<Rightarrow>
           let src_len = config_block_get_length m block;
               (res, ns') = mread ns (mem_bytes m (block + CONFIG_HEADER_SIZE) (unat src_len))
           in if res \<noteq> 0 then Some (False, ns') else Some (True, ns'))"

subsection \<open>What a block is\<close>

definition block_header :: "crc_fun \<Rightarrow> u8 list \<Rightarrow> u8 list" where
  "block_header crc d = le_bytes32 (crc CRC_INITIAL_VALUE (le_bytes32 (of_nat (length d))))
     @ le_bytes32 (of_nat (length d)) @ le_bytes32 (crc CRC_INITIAL_VALUE d)"

definition block_at :: "crc_fun \<Rightarrow> memory \<Rightarrow> u32 \<Rightarrow> u8 list \<Rightarrow> bool" where
  "block_at crc m p d \<longleftrightarrow> length d < 2 ^ 32 \<and> mem_bytes m p 12 = block_header crc d
     \<and> mem_bytes m (p + 12) (length d) = d"

lemma length_block_header [simp]: "length (block_header crc d) = 12"
  by (simp add: block_header_def)

lemma header_fields: "mem_bytes m p 12 = mem_bytes m p 4 @ mem_bytes m (p + 4) 4 @ mem_bytes m (p + 8) 4"
  using mem_bytes_append[of m p 4 8] mem_bytes_append[of m "p + 4" 4 4] by (simp add: add.assoc)

lemma block_at_fields:
  assumes "block_at crc m p d"
  shows "le_word32 (mem_bytes m p 4) = crc CRC_INITIAL_VALUE (le_bytes32 (of_nat (length d)))"
    and "le_word32 (mem_bytes m (p + 4) 4) = of_nat (length d)"
    and "le_word32 (mem_bytes m (p + 8) 4) = crc CRC_INITIAL_VALUE d"
  using assms unfolding block_at_def block_header_def header_fields by auto

lemma block_at_length: "block_at crc m p d \<Longrightarrow> config_block_get_length m p = of_nat (length d)"
  by (simp add: config_block_get_length_def block_at_fields(2))

lemma block_at_unat_length: "block_at crc m p d \<Longrightarrow> unat (config_block_get_length m p) = length d"
  by (rule of_nat_inverse[OF block_at_length[symmetric]]) (auto simp: block_at_def)

lemma block_at_valid: "block_at crc m p d \<Longrightarrow> config_block_is_valid crc m p"
  using block_at_fields[of crc m p d] block_at_unat_length[of crc m p d]
  by (auto simp: config_block_is_valid_def Let_def config_block_get_length_def block_at_def)

lemma valid_block_at:
  assumes "config_block_is_valid crc m p"
  shows "block_at crc m p (mem_bytes m (p + 12) (unat (config_block_get_length m p)))"
proof -
  let ?len = "config_block_get_length m p"
  have l: "unat ?len < 2 ^ 32" using unsigned_less[of ?len] by simp
  have b: "mem_bytes m a 4 = le_bytes32 (le_word32 (mem_bytes m a 4))" for a
    by (rule le_bytes32_word[symmetric]) simp
  have c: "le_word32 (mem_bytes m p 4) = crc CRC_INITIAL_VALUE (le_bytes32 ?len)"
    "le_word32 (mem_bytes m (p + 8) 4) = crc CRC_INITIAL_VALUE (mem_bytes m (p + 12) (unat ?len))"
    using assms by (auto simp: config_block_is_valid_def config_block_get_length_def Let_def split: if_splits)
  then have "mem_bytes m p 12 = block_header crc (mem_bytes m (p + 12) (unat ?len))"
    unfolding block_header_def header_fields using b[of p] b[of "p + 4"] b[of "p + 8"]
    by (simp add: config_block_get_length_def)
  then show ?thesis using l by (simp add: block_at_def)
qed

theorem config_block_is_valid_iff:
  "config_block_is_valid crc m p \<longleftrightarrow> (\<exists>d. block_at crc m p d)"
  using valid_block_at block_at_valid by blast

lemma block_at_cong:
  assumes "\<And>k. k < 12 + length d \<Longrightarrow> mview m' p k = mview m p k"
  shows "block_at crc m' p d = block_at crc m p d"
proof -
  have "mem_bytes m' p 12 = mem_bytes m p 12" using assms by (simp add: mem_bytes_mview0)
  moreover have "mem_bytes m' (p + of_nat 12) (length d) = mem_bytes m (p + of_nat 12) (length d)"
    using assms unfolding mem_bytes_mview by (intro map_cong) auto
  ultimately show ?thesis by (simp add: block_at_def)
qed

subsection \<open>The log of blocks\<close>

definition block_size :: "u8 list \<Rightarrow> nat" where
  "block_size d = 12 + length d"

definition used :: "u8 list list \<Rightarrow> nat" where
  "used ds = sum_list (map block_size ds)"

fun log_at :: "crc_fun \<Rightarrow> memory \<Rightarrow> u32 \<Rightarrow> u8 list list \<Rightarrow> bool" where
  "log_at crc m p [] = True"
| "log_at crc m p (d # ds) = (block_at crc m p d \<and> log_at crc m (p + of_nat (block_size d)) ds)"

lemma used_simps [simp]:
  "used [] = 0" "used (d # ds) = block_size d + used ds" "used (ds @ es) = used ds + used es"
  by (simp_all add: used_def)

lemma log_at_append:
  "log_at crc m p (ds @ es) \<longleftrightarrow> log_at crc m p ds \<and> log_at crc m (p + of_nat (used ds)) es"
  by (induction ds arbitrary: p) (auto simp: add.assoc)

lemma log_at_cong:
  "(\<And>k. k < used ds \<Longrightarrow> mview m' p k = mview m p k) \<Longrightarrow> log_at crc m' p ds = log_at crc m p ds"
proof (induction ds arbitrary: p)
  case (Cons d ds)
  have "block_at crc m' p d = block_at crc m p d"
    using Cons.prems by (intro block_at_cong) (auto simp: block_size_def)
  moreover have "log_at crc m' (p + of_nat (block_size d)) ds = log_at crc m (p + of_nat (block_size d)) ds"
  proof (rule Cons.IH)
    fix k assume "k < used ds"
    then show "mview m' (p + of_nat (block_size d)) k = mview m (p + of_nat (block_size d)) k"
      using Cons.prems[of "block_size d + k"] by (simp add: mview_def add.assoc)
  qed
  ultimately show ?case by simp
qed simp

text \<open>The address the next block starts at, as the loops compute it.\<close>

lemma next_block:
  "block_at crc m p d \<Longrightarrow>
    p + config_block_get_length m p + CONFIG_HEADER_SIZE = p + of_nat (block_size d)"
  by (simp add: block_at_length CONFIG_HEADER_SIZE_def block_size_def add.commute add.left_commute)

lemma find_first_free_log:
  assumes "log_at crc m p ds" "\<not> config_block_is_valid crc m (p + of_nat (used ds))"
  shows "config_block_find_first_free crc m p = Some (p + of_nat (used ds))"
  using assms
proof (induction ds arbitrary: p)
  case Nil
  then show ?case by (subst config_block_find_first_free.simps) simp
next
  case (Cons d ds)
  then have b: "block_at crc m p d" by simp
  have "config_block_find_first_free crc m p = config_block_find_first_free crc m (p + of_nat (block_size d))"
    by (subst config_block_find_first_free.simps) (simp only: block_at_valid[OF b] next_block[OF b] if_True)
  also have "\<dots> = Some (p + of_nat (used (d # ds)))"
    using Cons.IH[of "p + of_nat (block_size d)"] Cons.prems by (simp add: add.assoc)
  finally show ?case .
qed

lemma find_last_used_log:
  assumes "log_at crc m p ds" "\<not> config_block_is_valid crc m (p + of_nat (used ds))"
  shows "find_last_used_loop crc m p l =
    Some (if ds = [] then l else Some (p + of_nat (used (butlast ds))))"
  using assms
proof (induction ds arbitrary: p l)
  case Nil
  then show ?case by (subst find_last_used_loop.simps) simp
next
  case (Cons d ds)
  then have b: "block_at crc m p d" by simp
  have "find_last_used_loop crc m p l = find_last_used_loop crc m (p + of_nat (block_size d)) (Some p)"
    by (subst find_last_used_loop.simps) (simp only: block_at_valid[OF b] next_block[OF b] if_True)
  also have "\<dots> = Some (if ds = [] then Some p else Some (p + of_nat (block_size d) + of_nat (used (butlast ds))))"
    using Cons.IH[of "p + of_nat (block_size d)" "Some p"] Cons.prems by (simp add: add.assoc)
  finally show ?case by (simp add: add.assoc)
qed

end
