(* ===== verification/Config_Refinement.thy ===== *)
theory Config_Refinement
  imports Config_Storage
begin

section \<open>The configuration store implements a log\<close>

text \<open>
  The abstract state of the configuration sector is the list of the trees saved since the last erase.
  The locale \<open>config_store\<close> puts together what \<open>config_save\<close> relies on: the flash driver
  (\<open>flash_store\<close>), the serializer's contract, a region inside one sector and a checksum that
  rejects an erased header. Inside it, a save is \<open>save_spec\<close> on the abstract log
  (\<open>save_refines\<close>) or never returns (\<open>save_diverges\<close>).
\<close>

subsection \<open>What the serializer does with the writer it is given\<close>

inductive writer_reach :: "'h writer \<Rightarrow> 'h writer_state \<Rightarrow> 'h writer_state \<Rightarrow> bool" for w where
  writer_refl: "writer_reach w s s"
| writer_step: "writer_reach w s s' \<Longrightarrow> length bs < 2 ^ 31 \<Longrightarrow> w s' bs = Some (n, s'') \<Longrightarrow> writer_reach w s s''"

fun run_writer :: "'h writer \<Rightarrow> 'h writer_state \<Rightarrow> u8 list list \<Rightarrow> (bool \<times> 'h writer_state) option" where
  "run_writer w s [] = Some (True, s)"
| "run_writer w s (c # cs) = (case w s c of None \<Rightarrow> None
     | Some (n, s') \<Rightarrow> if n = of_nat (length c) then run_writer w s' cs else Some (False, s'))"

text \<open>
  The documented contract of the serializer: it hands the chunks of the tree to the writer in order;
  if every chunk is taken it reports no error, and at the first short write it reports an error,
  having called the writer any number of times.
\<close>

definition serializes :: "('ns, 'h) serializer \<Rightarrow> ('ns \<Rightarrow> u8 list list) \<Rightarrow> bool" where
  "serializes wcmp chunks \<longleftrightarrow> (\<forall>ns. \<forall>c \<in> set (chunks ns). length c < 2 ^ 31) \<and>
     (\<forall>ns w s s'. run_writer w s (chunks ns) = Some (True, s') \<longrightarrow> wcmp ns w s = Some (True, s')) \<and>
     (\<forall>ns w s s'. run_writer w s (chunks ns) = Some (False, s') \<longrightarrow>
       (\<exists>mem h. wcmp ns w s = Some (False, mem, h) \<and> writer_reach w s (mem, h)))"

lemma serializes_ok: "serializes wcmp chunks \<Longrightarrow> run_writer w s (chunks ns) = Some (True, s') \<Longrightarrow>
    wcmp ns w s = Some (True, s')"
  unfolding serializes_def by blast

lemma serializes_fail: "serializes wcmp chunks \<Longrightarrow> run_writer w s (chunks ns) = Some (False, s') \<Longrightarrow>
    \<exists>mem h. wcmp ns w s = Some (False, mem, h) \<and> writer_reach w s (mem, h)"
  unfolding serializes_def by blast

subsection \<open>The log under the operations\<close>

lemma erased_invalid:
  assumes "crc CRC_INITIAL_VALUE [0xFF, 0xFF, 0xFF, 0xFF] \<noteq> 0xFFFFFFFF"
    and "\<And>k. k < 8 \<Longrightarrow> mview m p k = 0xFF"
  shows "\<not> config_block_is_valid crc m p"
proof -
  have "mem_bytes m p 4 = replicate 4 0xFF" "mem_bytes m (p + of_nat 4) 4 = replicate 4 0xFF"
    using assms(2) by (auto intro!: nth_equalityI simp: mview_def add.assoc simp flip: of_nat_add simp del: of_nat_numeral)
  then have b: "mem_bytes m p 4 = [0xFF, 0xFF, 0xFF, 0xFF]" "mem_bytes m (p + 4) 4 = [0xFF, 0xFF, 0xFF, 0xFF]"
    by (simp_all add: numeral_eq_Suc)
  have w: "le_word32 [0xFF, 0xFF, 0xFF, 0xFF] = 0xFFFFFFFF" "le_bytes32 0xFFFFFFFF = [0xFF, 0xFF, 0xFF, 0xFF]"
    by (simp_all add: le_bytes32_def)
  show ?thesis using b w assms(1) by (simp add: config_block_is_valid_def)
qed

definition same_outside_sector :: "nat \<Rightarrow> memory \<Rightarrow> memory \<Rightarrow> bool" where
  "same_outside_sector s m m' \<longleftrightarrow> (\<forall>x. \<not> in_sector s x \<longrightarrow> m' x = m x)"

text \<open>The blocks \<open>ds\<close> from \<open>base\<close> on, the rest of the region erased.\<close>

definition config_log :: "crc_fun \<Rightarrow> u32 \<Rightarrow> nat \<Rightarrow> memory \<Rightarrow> u8 list list \<Rightarrow> bool" where
  "config_log crc base cap m ds \<longleftrightarrow> log_at crc m base ds \<and> used ds \<le> cap
     \<and> (\<forall>k. used ds \<le> k \<and> k < cap \<longrightarrow> mview m base k = 0xFF)"

text \<open>The same, and the loops that look for the end of the log stop there. They read the header that
  follows the last block even when the log fills the region, so this depends on what lies behind it.\<close>

definition config_log_ended :: "crc_fun \<Rightarrow> u32 \<Rightarrow> nat \<Rightarrow> memory \<Rightarrow> u8 list list \<Rightarrow> bool" where
  "config_log_ended crc base cap m ds \<longleftrightarrow> config_log crc base cap m ds
     \<and> \<not> config_block_is_valid crc m (base + of_nat (used ds))"

text \<open>A memory the save routine starts from: such a log, or no valid block at all.\<close>

definition config_start :: "crc_fun \<Rightarrow> u32 \<Rightarrow> nat \<Rightarrow> memory \<Rightarrow> u8 list list \<Rightarrow> bool" where
  "config_start crc base cap m ds \<longleftrightarrow>
     config_log_ended crc base cap m ds \<or> ds = [] \<and> \<not> config_block_is_valid crc m base"

definition save_spec :: "nat \<Rightarrow> u8 list list \<Rightarrow> u8 list \<Rightarrow> u8 list list" where
  "save_spec cap ds e =
     (if used ds + 12 < cap \<and> used ds + 12 + length e \<le> cap then ds @ [e] else [e])"

locale config_store = flash_store api idle ready
  for api :: "'h flash_api" and idle :: "'h \<Rightarrow> bool" and ready :: "'h \<Rightarrow> bool" +
  fixes crc :: crc_fun and wcmp :: "('ns, 'h) serializer" and chunks :: "'ns \<Rightarrow> u8 list list"
    and s :: nat and base :: u32 and cap :: nat
  assumes region: "k < cap \<Longrightarrow> in_sector s (base + of_nat k)"
    and cap_bounds: "20 < cap" "cap \<le> 0x20000"
    and crc_erased: "crc CRC_INITIAL_VALUE [0xFF, 0xFF, 0xFF, 0xFF] \<noteq> 0xFFFFFFFF"
    and serializer: "serializes wcmp chunks"
begin

abbreviation same_outside :: "memory \<Rightarrow> memory \<Rightarrow> bool" where
  "same_outside \<equiv> same_outside_sector s"

abbreviation log_inv :: "memory \<Rightarrow> u8 list list \<Rightarrow> bool" where
  "log_inv \<equiv> config_log crc base cap"

abbreviation store_inv :: "memory \<Rightarrow> u8 list list \<Rightarrow> bool" where
  "store_inv \<equiv> config_log_ended crc base cap"

abbreviation save_pre :: "memory \<Rightarrow> u8 list list \<Rightarrow> bool" where
  "save_pre \<equiv> config_start crc base cap"

lemma same_outside_trans: "same_outside a b \<Longrightarrow> same_outside b c \<Longrightarrow> same_outside a c"
  by (simp add: same_outside_sector_def)

lemma same_outside_refl [simp]: "same_outside a a"
  by (simp add: same_outside_sector_def)

lemma write_at:
  assumes "ready h" "c + length bs \<le> cap"
  shows "\<exists>h'. api_write api (base + of_nat c) bs h = Some h' \<and> ready h'
    \<and> (\<forall>k < cap. mview (api_mem api h') base k =
        (if c \<le> k \<and> k < c + length bs then mview (api_mem api h) base k AND bs ! (k - c)
         else mview (api_mem api h) base k))
    \<and> same_outside (api_mem api h) (api_mem api h')"
proof -
  have fl: "in_flash (base + of_nat c + of_nat i)" if "i < length bs" for i
    using region[of "c + i"] that assms(2) by (simp add: in_sector_in_flash add.assoc)
  obtain h' where h': "api_write api (base + of_nat c) bs h = Some h'" "ready h'"
      "api_mem api h' = program (api_mem api h) (base + of_nat c) bs"
    using write_program[OF assms(1) fl] by blast
  have "same_outside (api_mem api h) (api_mem api h')"
    unfolding same_outside_sector_def h'(3)
  proof (intro allI impI program_other)
    fix x i assume "\<not> in_sector s x" "i < length bs"
    then show "base + of_nat c + of_nat i \<noteq> x"
      using region[of "c + i"] assms(2) by (auto simp: add.assoc)
  qed
  moreover have "\<forall>k < cap. mview (api_mem api h') base k =
        (if c \<le> k \<and> k < c + length bs then mview (api_mem api h) base k AND bs ! (k - c)
         else mview (api_mem api h) base k)"
    unfolding h'(3) using assms(2) cap_bounds by (auto simp: mview_program)
  ultimately show ?thesis using h' by blast
qed

text \<open>A log that leaves eight erased bytes ends where the loops stop.\<close>

lemma log_inv_room:
  assumes "log_inv m ds" "used ds + 8 \<le> cap"
  shows "store_inv m ds"
proof -
  have "\<not> config_block_is_valid crc m (base + of_nat (used ds))"
    using assms by (intro erased_invalid[where crc=crc, OF crc_erased])
      (auto simp: config_log_def mview_def add.assoc simp flip: of_nat_add)
  then show ?thesis using assms(1) by (simp add: config_log_ended_def)
qed

lemma erase_at:
  assumes "ready h"
  shows "\<exists>h'. api_erase api base h = Some h' \<and> ready h' \<and> store_inv (api_mem api h') []
    \<and> same_outside (api_mem api h) (api_mem api h')"
proof -
  have "in_sector s base" using region[of 0] cap_bounds by simp
  from erase_sector[OF assms this] obtain h' where h': "api_erase api base h = Some h'" "ready h'"
      "api_mem api h' = erase_mem s (api_mem api h)" by blast
  then have "log_inv (api_mem api h') []" "same_outside (api_mem api h) (api_mem api h')"
    using region by (auto simp: config_log_def same_outside_sector_def mview_def erase_mem_def)
  with h' log_inv_room[of "api_mem api h'" "[]"] cap_bounds show ?thesis by auto
qed

lemma find_first_free_inv:
  "store_inv m ds \<Longrightarrow> config_block_find_first_free crc m base = Some (base + of_nat (used ds))"
  by (rule find_first_free_log) (auto simp: config_log_ended_def config_log_def)

lemma find_last_used_inv:
  "store_inv m ds \<Longrightarrow> config_block_find_last_used crc m base =
    Some (if ds = [] then None else Some (base + of_nat (used (butlast ds))))"
  unfolding config_block_find_last_used_def
  by (rule find_last_used_log) (auto simp: config_log_ended_def config_log_def)

lemma find_last_used_invalid:
  "\<not> config_block_is_valid crc m p \<Longrightarrow> config_block_find_last_used crc m p = Some None"
  unfolding config_block_find_last_used_def by (subst find_last_used_loop.simps) simp

subsubsection \<open>The writer inside the free area\<close>

text \<open>\<open>writing c i m0 st\<close>: \<open>i\<close> bytes have been written after the header of the block at offset
  \<open>c\<close>, and nothing else has changed since \<open>m0\<close>.\<close>

definition writing :: "nat \<Rightarrow> nat \<Rightarrow> memory \<Rightarrow> 'h writer_state \<Rightarrow> bool" where
  "writing c i m0 st \<longleftrightarrow> (case st of (mem, h) \<Rightarrow> ready h \<and> c + 12 + i \<le> cap
     \<and> ma_buf mem = base + of_nat (c + 12) \<and> ma_size mem = of_nat (cap - (c + 12))
     \<and> ma_index mem = of_nat i \<and> same_outside m0 (api_mem api h)
     \<and> (\<forall>k < cap. \<not> (c + 12 \<le> k \<and> k < c + 12 + i) \<longrightarrow> mview (api_mem api h) base k = mview m0 base k))"

definition written :: "nat \<Rightarrow> u8 list \<Rightarrow> 'h writer_state \<Rightarrow> bool" where
  "written c d st \<longleftrightarrow> map (mview (api_mem api (snd st)) base) [c + 12..<c + 12 + length d] = d"

lemma writer_fits_iff:
  assumes "c + 12 + i \<le> cap" "length bs < 2 ^ 31"
  shows "(of_nat i + of_nat (length bs) \<le> (of_nat (cap - (c + 12)) :: u32)) \<longleftrightarrow> c + 12 + i + length bs \<le> cap"
proof -
  have "unat (of_nat i + of_nat (length bs) :: u32) = i + length bs"
    using assms cap_bounds by (simp flip: of_nat_add add: of_nat_inverse)
  moreover have "unat (of_nat (cap - (c + 12)) :: u32) = cap - (c + 12)"
    using cap_bounds by (simp add: of_nat_inverse)
  ultimately show ?thesis using assms by (auto simp: word_le_nat_alt)
qed

lemma writer_step_fits:
  assumes "writing c i m0 st" "length bs < 2 ^ 31" "c + 12 + i + length bs \<le> cap"
  shows "\<exists>st'. cmp_flash_writer api st bs = Some (of_nat (length bs), st')
    \<and> writing c (i + length bs) m0 st'
    \<and> (written c d st \<and> length d = i \<and> (\<forall>k. c + 12 + i \<le> k \<and> k < cap \<longrightarrow> mview m0 base k = 0xFF)
       \<longrightarrow> written c (d @ bs) st')"
proof -
  obtain mem h where st: "st = (mem, h)" by force
  have w: "ready h" "ma_buf mem = base + of_nat (c + 12)" "ma_size mem = of_nat (cap - (c + 12))"
      "ma_index mem = of_nat i" "same_outside m0 (api_mem api h)"
      "\<forall>k < cap. \<not> (c + 12 \<le> k \<and> k < c + 12 + i) \<longrightarrow> mview (api_mem api h) base k = mview m0 base k"
    using assms(1) by (auto simp: writing_def st)
  have "ma_buf mem + ma_index mem = base + of_nat (c + 12 + i)" by (simp add: w add.assoc)
  then obtain h' where h': "api_write api (ma_buf mem + ma_index mem) bs h = Some h'" "ready h'"
      "\<And>k. k < cap \<Longrightarrow> mview (api_mem api h') base k =
        (if c + 12 + i \<le> k \<and> k < c + 12 + i + length bs then mview (api_mem api h) base k AND bs ! (k - (c + 12 + i))
         else mview (api_mem api h) base k)" "same_outside (api_mem api h) (api_mem api h')"
    using write_at[OF w(1) assms(3)] by auto
  let ?st = "(mem\<lparr>ma_index := of_nat i + of_nat (length bs)\<rparr>, h')"
  have "cmp_flash_writer api st bs = Some (of_nat (length bs), ?st)"
    using writer_fits_iff[of c i bs] assms h'(1) w unfolding st
    by (simp add: cmp_flash_writer_def writing_def st Let_def)
  moreover have "writing c (i + length bs) m0 ?st"
    using h'(2,3) same_outside_trans[OF w(5) h'(4)] assms(3) w by (auto simp: writing_def)
  moreover have "written c (d @ bs) ?st"
    if "written c d st" "length d = i" "\<forall>k. c + 12 + i \<le> k \<and> k < cap \<longrightarrow> mview m0 base k = 0xFF"
  proof -
    have "map (mview (api_mem api h') base) [c + 12..<c + 12 + i] = map (mview (api_mem api h) base) [c + 12..<c + 12 + i]"
      using h'(3) assms(3) by simp
    moreover have "map (mview (api_mem api h') base) [c + 12 + i..<c + 12 + i + length bs] = bs"
      using h'(3) assms(3) w(6) that(3) by (intro nth_equalityI) auto
    moreover have "[c + 12..<c + 12 + (i + length bs)] = [c + 12..<c + 12 + i] @ [c + 12 + i..<c + 12 + i + length bs]"
      using upt_add_eq_append[of "c + 12" "c + 12 + i" "length bs"] by (simp add: add.assoc)
    ultimately show ?thesis
      using that(1,2) by (simp only: written_def st length_append map_append snd_conv)
  qed
  ultimately show ?thesis by blast
qed

lemma writer_step_full:
  assumes "writing c i m0 st" "length bs < 2 ^ 31" "\<not> c + 12 + i + length bs \<le> cap"
  shows "cmp_flash_writer api st bs = Some (0, st)"
proof -
  obtain mem h where st: "st = (mem, h)" by force
  then show ?thesis
    using assms writer_fits_iff[of c i bs] by (auto simp: writing_def cmp_flash_writer_def)
qed

lemma writer_reach_writing:
  assumes "writer_reach (cmp_flash_writer api) st st'" "writing c i m0 st"
  shows "\<exists>j. writing c j m0 st'"
  using assms
proof (induction rule: writer_reach.induct)
  case (writer_step st st' bs n st'')
  then obtain j where j: "writing c j m0 st'" by blast
  show ?case
    using writer_step_fits[OF j writer_step.hyps(2)] writer_step_full[OF j writer_step.hyps(2)] j writer_step.hyps(3)
    by (cases "c + 12 + j + length bs \<le> cap") fastforce+
qed blast

lemma run_writer_writing:
  assumes "writing c i m0 st" "\<forall>b \<in> set cs. length b < 2 ^ 31"
    and "written c d st" "length d = i" "\<forall>k. c + 12 \<le> k \<and> k < cap \<longrightarrow> mview m0 base k = 0xFF"
  shows "if c + 12 + i + length (concat cs) \<le> cap
    then \<exists>st'. run_writer (cmp_flash_writer api) st cs = Some (True, st')
      \<and> writing c (i + length (concat cs)) m0 st' \<and> written c (d @ concat cs) st'
    else \<exists>st'. run_writer (cmp_flash_writer api) st cs = Some (False, st')"
  using assms
proof (induction cs arbitrary: i d st)
  case (Cons b cs)
  have b: "length b < 2 ^ 31" using Cons.prems(2) by simp
  show ?case
  proof (cases "c + 12 + i + length b \<le> cap")
    case True
    obtain st' where st': "cmp_flash_writer api st b = Some (of_nat (length b), st')"
        "writing c (i + length b) m0 st'" "written c (d @ b) st'"
      using writer_step_fits[OF Cons.prems(1) b True, of d] Cons.prems(3-5) by auto
    show ?thesis
      using Cons.IH[OF st'(2) _ st'(3)] Cons.prems(2,4,5) st'(1)
      by (simp add: add.assoc del: split_paired_Ex split: if_splits)
  next
    case False
    then have "length b \<noteq> 0" using Cons.prems(1) by (auto simp: writing_def)
    moreover have "unat (of_nat (length b) :: u32) = length b" using b by (simp add: of_nat_inverse)
    ultimately have "(0 :: u32) \<noteq> of_nat (length b)" by (metis unsigned_0)
    then show ?thesis
      using False writer_step_full[OF Cons.prems(1) b False] by simp
  qed
qed (auto simp: writing_def)

lemma write_erased:
  assumes "ready h" "c + length bs \<le> cap"
    and "\<And>k. c \<le> k \<Longrightarrow> k < c + length bs \<Longrightarrow> mview (api_mem api h) base k = 0xFF"
  shows "\<exists>h'. api_write api (base + of_nat c) bs h = Some h' \<and> ready h'
    \<and> map (mview (api_mem api h') base) [c..<c + length bs] = bs
    \<and> (\<forall>k < cap. \<not> (c \<le> k \<and> k < c + length bs) \<longrightarrow> mview (api_mem api h') base k = mview (api_mem api h) base k)
    \<and> same_outside (api_mem api h) (api_mem api h')"
proof -
  obtain h' where h': "api_write api (base + of_nat c) bs h = Some h'" "ready h'"
      "\<forall>k < cap. mview (api_mem api h') base k =
        (if c \<le> k \<and> k < c + length bs then mview (api_mem api h) base k AND bs ! (k - c)
         else mview (api_mem api h) base k)"
      "same_outside (api_mem api h) (api_mem api h')"
    using write_at[OF assms(1,2)] by blast
  have "map (mview (api_mem api h') base) [c..<c + length bs] = bs"
    using h'(3) assms(2,3) by (intro nth_equalityI) (auto simp: erased_and)
  with h' show ?thesis by auto
qed

lemma write_header:
  assumes "ready h" "c + 12 + length d \<le> cap"
    and "\<And>k. c \<le> k \<Longrightarrow> k < c + 12 \<Longrightarrow> mview (api_mem api h) base k = 0xFF"
    and data: "map (mview (api_mem api h) base) [c + 12..<c + 12 + length d] = d"
  shows "\<exists>h'. config_write_block_header api crc (base + of_nat c) (of_nat (length d)) h = Some h' \<and> ready h'
    \<and> block_at crc (api_mem api h') (base + of_nat c) d
    \<and> (\<forall>k < cap. \<not> (c \<le> k \<and> k < c + 12) \<longrightarrow> mview (api_mem api h') base k = mview (api_mem api h) base k)
    \<and> same_outside (api_mem api h) (api_mem api h')"
proof -
  define w1 where "w1 = le_bytes32 (crc CRC_INITIAL_VALUE (le_bytes32 (of_nat (length d))))"
  define w2 where "w2 = le_bytes32 (of_nat (length d))"
  define w3 where "w3 = le_bytes32 (crc CRC_INITIAL_VALUE d)"
  note ws = w1_def w2_def w3_def
  have [simp]: "length w1 = 4" "length w2 = 4" "length w3 = 4" by (simp_all add: ws)
  obtain h1 where h1: "api_write api (base + of_nat c) w1 h = Some h1" "ready h1"
      "map (mview (api_mem api h1) base) [c..<c + 4] = w1"
      "\<forall>k < cap. \<not> (c \<le> k \<and> k < c + 4) \<longrightarrow> mview (api_mem api h1) base k = mview (api_mem api h) base k"
      "same_outside (api_mem api h) (api_mem api h1)"
    using write_erased[of h c w1] assms by auto
  obtain h2 where h2: "api_write api (base + of_nat (c + 4)) w2 h1 = Some h2" "ready h2"
      "map (mview (api_mem api h2) base) [c + 4..<c + 8] = w2"
      "\<forall>k < cap. \<not> (c + 4 \<le> k \<and> k < c + 8) \<longrightarrow> mview (api_mem api h2) base k = mview (api_mem api h1) base k"
      "same_outside (api_mem api h1) (api_mem api h2)"
    using write_erased[of h1 "c + 4" w2] assms h1 by (auto simp: add.assoc)
  obtain h3 where h3: "api_write api (base + of_nat (c + 8)) w3 h2 = Some h3" "ready h3"
      "map (mview (api_mem api h3) base) [c + 8..<c + 12] = w3"
      "\<forall>k < cap. \<not> (c + 8 \<le> k \<and> k < c + 12) \<longrightarrow> mview (api_mem api h3) base k = mview (api_mem api h2) base k"
      "same_outside (api_mem api h2) (api_mem api h3)"
    using write_erased[of h2 "c + 8" w3] assms h1 h2 by (auto simp: add.assoc)
  have unch: "mview (api_mem api h3) base k = mview (api_mem api h) base k"
    if "k < cap" "\<not> (c \<le> k \<and> k < c + 12)" for k
    using h1(4) h2(4) h3(4) that by auto
  have len: "unat (of_nat (length d) :: u32) = length d" "length d < 2 ^ 32"
    using assms(2) cap_bounds by (simp_all add: of_nat_inverse)
  have "map (mview (api_mem api h2) base) [c + 12..<c + 12 + length d]
      = map (mview (api_mem api h) base) [c + 12..<c + 12 + length d]"
    using h1(4) h2(4) assms(2) by (intro map_cong) auto
  then have d2: "map (mview (api_mem api h2) base) [c + 12..<c + 12 + length d] = d" by (simp add: data)
  have "map (mview (api_mem api h3) base) [c + 12..<c + 12 + length d]
      = map (mview (api_mem api h) base) [c + 12..<c + 12 + length d]"
    using unch assms(2) by (intro map_cong) auto
  then have d3: "map (mview (api_mem api h3) base) [c + 12..<c + 12 + length d] = d" by (simp add: data)
  have "map (mview (api_mem api h3) base) [c..<c + 4] = w1"
    by (subst h1(3)[symmetric]) (use h2(4) h3(4) assms(2) in auto)
  moreover have "map (mview (api_mem api h3) base) [c + 4..<c + 8] = w2"
    by (subst h2(3)[symmetric]) (use h3(4) assms(2) in auto)
  moreover have "[c..<c + 12] = [c..<c + 4] @ [c + 4..<c + 8] @ [c + 8..<c + 12]"
    using upt_add_eq_append[of c "c + 4" 8] upt_add_eq_append[of "c + 4" "c + 8" 4] by (simp add: add.assoc)
  ultimately have hd: "map (mview (api_mem api h3) base) [c..<c + 12] = w1 @ w2 @ w3"
    using h3(3) by simp
  have blk: "block_at crc (api_mem api h3) (base + of_nat c) d"
    unfolding block_at_def block_header_def
    using hd d3 len mem_bytes_mview[of "api_mem api h3" base c 12]
      mem_bytes_mview[of "api_mem api h3" base "c + 12" "length d"]
    by (simp add: ws add.assoc)
  have "mem_bytes (api_mem api h2) (base + of_nat c + CONFIG_HEADER_SIZE) (length d) = d"
    using d2 mem_bytes_mview[of "api_mem api h2" base "c + 12" "length d"] by (simp add: CONFIG_HEADER_SIZE_def add.assoc)
  then have "config_write_block_header api crc (base + of_nat c) (of_nat (length d)) h = Some h3"
    using h1(1) h2(1) h3(1) by (simp add: config_write_block_header_def len ws add.assoc)
  with blk h3(2) unch same_outside_trans[OF same_outside_trans[OF h1(5) h2(5)] h3(5)] show ?thesis by blast
qed

lemma save_start:
  assumes "ready h" "save_pre (api_mem api h) ds"
  shows "\<exists>h1. Option.bind (config_block_find_last_used crc (api_mem api h) base)
      (\<lambda>l. if l = None then api_erase api base h else Some h) = Some h1
    \<and> config_block_find_last_used crc (api_mem api h) base \<noteq> None
    \<and> ready h1 \<and> store_inv (api_mem api h1) ds \<and> same_outside (api_mem api h) (api_mem api h1)"
proof (cases "ds = []")
  case True
  then have "\<not> config_block_is_valid crc (api_mem api h) base"
    using assms(2) by (auto simp: config_start_def config_log_ended_def)
  with erase_at[OF assms(1)] True show ?thesis by (auto simp: find_last_used_invalid)
next
  case False
  then have "store_inv (api_mem api h) ds" using assms(2) by (simp add: config_start_def)
  with False assms(1) show ?thesis by (simp add: find_last_used_inv)
qed

lemma save_position:
  assumes "ready h" "save_pre (api_mem api h) ds"
  defines "ds' \<equiv> if used ds + 12 < cap then ds else []"
  shows "\<exists>h2. ready h2 \<and> store_inv (api_mem api h2) ds' \<and> used ds' + 12 < cap
    \<and> same_outside (api_mem api h) (api_mem api h2)
    \<and> config_save_pass api crc wcmp base (of_nat cap) ns h =
        Option.bind (wcmp ns (cmp_flash_writer api)
            (\<lparr>ma_buf = base + of_nat (used ds' + 12), ma_size = of_nat (cap - (used ds' + 12)), ma_index = 0\<rparr>, h2))
          (\<lambda>(success, mem, h3). Some (success, base + of_nat (used ds'), mem, h3))"
proof -
  obtain l h1 where l: "config_block_find_last_used crc (api_mem api h) base = Some l"
      "(if l = None then api_erase api base h else Some h) = Some h1"
    and h1: "ready h1" "store_inv (api_mem api h1) ds" "same_outside (api_mem api h) (api_mem api h1)"
    using save_start[OF assms(1,2)] by auto
  have u: "used ds \<le> cap" using h1(2) by (simp add: config_log_ended_def config_log_def)
  have "unat (of_nat cap - of_nat (used ds) :: u32) = cap - used ds"
    using u cap_bounds by (simp flip: of_nat_diff add: of_nat_inverse)
  then have le: "(of_nat cap - of_nat (used ds) :: u32) \<le> 12 \<longleftrightarrow> \<not> used ds + 12 < cap"
    using u by (auto simp: word_le_nat_alt)
  show ?thesis
  proof (cases "used ds + 12 < cap")
    case True
    then show ?thesis
      using l h1 find_first_free_inv[OF h1(2)]
      by (intro exI[of _ h1]) (simp add: config_save_pass_def ds'_def le Let_def CONFIG_HEADER_SIZE_def add.assoc diff_diff_eq)
  next
    case False
    obtain h2 where h2: "api_erase api base h1 = Some h2" "ready h2" "store_inv (api_mem api h2) []"
        "same_outside (api_mem api h1) (api_mem api h2)"
      using erase_at[OF h1(1)] by blast
    then show ?thesis
      using l h1 False find_first_free_inv[OF h1(2)] cap_bounds same_outside_trans[OF h1(3) h2(4)]
      by (intro exI[of _ h2]) (simp add: config_save_pass_def ds'_def le Let_def CONFIG_HEADER_SIZE_def)
  qed
qed

lemma pass_fits:
  fixes ns :: 'ns
  assumes "ready h" "save_pre (api_mem api h) ds"
  defines "ds' \<equiv> if used ds + 12 < cap then ds else []"
  defines "e \<equiv> concat (chunks ns)"
  assumes fits: "used ds' + 12 + length e \<le> cap"
  shows "\<exists>mem h3 h4. config_save_pass api crc wcmp base (of_nat cap) ns h =
        Some (True, base + of_nat (used ds'), mem, h3)
    \<and> config_write_block_header api crc (base + of_nat (used ds')) (ma_index mem) h3 = Some h4
    \<and> ready h4 \<and> log_inv (api_mem api h4) (ds' @ [e]) \<and> same_outside (api_mem api h) (api_mem api h4)"
proof -
  let ?c = "used ds'"
  let ?mem = "\<lparr>ma_buf = base + of_nat (?c + 12), ma_size = of_nat (cap - (?c + 12)), ma_index = 0\<rparr>"
  obtain h2 where h2: "ready h2" "store_inv (api_mem api h2) ds'" "?c + 12 < cap"
      "same_outside (api_mem api h) (api_mem api h2)"
      "config_save_pass api crc wcmp base (of_nat cap) ns h =
        Option.bind (wcmp ns (cmp_flash_writer api) (?mem, h2))
          (\<lambda>(success, mem, h3). Some (success, base + of_nat ?c, mem, h3))"
    using save_position[OF assms(1,2)] unfolding ds'_def by blast
  have er: "\<forall>k. ?c \<le> k \<and> k < cap \<longrightarrow> mview (api_mem api h2) base k = 0xFF" and lg: "log_at crc (api_mem api h2) base ds'"
    using h2(2) by (auto simp: config_log_ended_def config_log_def)
  have ch: "\<forall>b \<in> set (chunks ns). length b < 2 ^ 31" using serializer by (simp add: serializes_def)
  have "writing ?c 0 (api_mem api h2) (?mem, h2)" "written ?c [] (?mem, h2)"
    using h2 by (auto simp: writing_def written_def)
  from run_writer_writing[OF this(1) ch this(2)] er fits
  obtain st where st: "run_writer (cmp_flash_writer api) (?mem, h2) (chunks ns) = Some (True, st)"
      "writing ?c (length e) (api_mem api h2) st" "written ?c e st"
    by (auto simp: e_def)
  obtain mem h3 where [simp]: "st = (mem, h3)" by force
  have wc: "wcmp ns (cmp_flash_writer api) (?mem, h2) = Some (True, mem, h3)"
    using serializes_ok[OF serializer st(1)] by simp
  have w: "ready h3" "ma_index mem = of_nat (length e)" "same_outside (api_mem api h2) (api_mem api h3)"
      "\<And>k. k < cap \<Longrightarrow> \<not> (?c + 12 \<le> k \<and> k < ?c + 12 + length e) \<Longrightarrow> mview (api_mem api h3) base k = mview (api_mem api h2) base k"
    using st(2) by (auto simp: writing_def)
  have "map (mview (api_mem api h3) base) [?c + 12..<?c + 12 + length e] = e"
    using st(3) by (simp add: written_def)
  from write_header[OF w(1) fits _ this] w(4) er fits
  obtain h4 where h4: "config_write_block_header api crc (base + of_nat ?c) (of_nat (length e)) h3 = Some h4" "ready h4"
      "block_at crc (api_mem api h4) (base + of_nat ?c) e"
      "\<forall>k < cap. \<not> (?c \<le> k \<and> k < ?c + 12) \<longrightarrow> mview (api_mem api h4) base k = mview (api_mem api h3) base k"
      "same_outside (api_mem api h3) (api_mem api h4)"
    by auto
  have "log_at crc (api_mem api h4) base ds'"
    using lg log_at_cong[of ds' "api_mem api h4" base "api_mem api h2"] h4(4) w(4) fits by auto
  then have "log_inv (api_mem api h4) (ds' @ [e])"
    using h4(3,4) w(4) er fits by (auto simp: config_log_def log_at_append block_size_def)
  then show ?thesis
    using wc h2(5) h4(1,2) w(2) same_outside_trans[OF same_outside_trans[OF h2(4) w(3)] h4(5)] by auto
qed

lemma pass_full:
  assumes "ready h" "save_pre (api_mem api h) ds"
  defines "ds' \<equiv> if used ds + 12 < cap then ds else []"
  assumes full: "\<not> used ds' + 12 + length (concat (chunks ns)) \<le> cap"
  shows "\<exists>dst mem h3 h4. config_save_pass api crc wcmp base (of_nat cap) ns h = Some (False, dst, mem, h3)
    \<and> api_erase api base h3 = Some h4 \<and> idle (api_lock api h4) \<and> save_pre (api_mem api (api_lock api h4)) []
    \<and> same_outside (api_mem api h) (api_mem api (api_lock api h4))"
proof -
  let ?c = "used ds'"
  let ?mem = "\<lparr>ma_buf = base + of_nat (?c + 12), ma_size = of_nat (cap - (?c + 12)), ma_index = 0\<rparr>"
  obtain h2 where h2: "ready h2" "store_inv (api_mem api h2) ds'" "?c + 12 < cap"
      "same_outside (api_mem api h) (api_mem api h2)"
      "config_save_pass api crc wcmp base (of_nat cap) ns h =
        Option.bind (wcmp ns (cmp_flash_writer api) (?mem, h2))
          (\<lambda>(success, mem, h3). Some (success, base + of_nat ?c, mem, h3))"
    using save_position[OF assms(1,2)] unfolding ds'_def by blast
  have er: "\<forall>k. ?c \<le> k \<and> k < cap \<longrightarrow> mview (api_mem api h2) base k = 0xFF"
    using h2(2) by (auto simp: config_log_ended_def config_log_def)
  have ch: "\<forall>b \<in> set (chunks ns). length b < 2 ^ 31" using serializer by (simp add: serializes_def)
  have w0: "writing ?c 0 (api_mem api h2) (?mem, h2)" "written ?c [] (?mem, h2)"
    using h2 by (auto simp: writing_def written_def)
  from run_writer_writing[OF this(1) ch this(2)] er full
  obtain st where "run_writer (cmp_flash_writer api) (?mem, h2) (chunks ns) = Some (False, st)"
    by auto
  then obtain mem h3 where wc: "wcmp ns (cmp_flash_writer api) (?mem, h2) = Some (False, mem, h3)"
      "writer_reach (cmp_flash_writer api) (?mem, h2) (mem, h3)"
    using serializes_fail[OF serializer] by blast
  obtain j where "writing ?c j (api_mem api h2) (mem, h3)"
    using writer_reach_writing[OF wc(2) w0(1)] by blast
  then have w: "ready h3" "same_outside (api_mem api h2) (api_mem api h3)" by (auto simp: writing_def)
  obtain h4 where h4: "api_erase api base h3 = Some h4" "ready h4" "store_inv (api_mem api h4) []"
      "same_outside (api_mem api h3) (api_mem api h4)"
    using erase_at[OF w(1)] by blast
  then show ?thesis
    using wc h2(5) lock_idle[OF h4(2)] same_outside_trans[OF same_outside_trans[OF h2(4) w(2)] h4(4)]
    by (auto simp: config_start_def)
qed

lemma unlock_save_pre:
  "idle h \<Longrightarrow> save_pre (api_mem api h) ds \<Longrightarrow> ready (api_unlock api h) \<and> save_pre (api_mem api (api_unlock api h)) ds"
  using unlock_ready by simp

lemma save_fits:
  assumes "idle h" "save_pre (api_mem api h) ds"
    and fits: "used (if used ds + 12 < cap then ds else []) + 12 + length (concat (chunks ns)) \<le> cap"
  shows "\<exists>h'. config_save api crc wcmp base (of_nat cap) ns h = Some h' \<and> idle h'
    \<and> log_inv (api_mem api h') ((if used ds + 12 < cap then ds else []) @ [concat (chunks ns)])
    \<and> same_outside (api_mem api h) (api_mem api h')"
  using pass_fits[OF conjunct1 conjunct2, OF unlock_save_pre unlock_save_pre, OF assms(1,2,1,2) fits]
    unlock_ready[OF assms(1)] lock_idle
  by (subst config_save.simps) fastforce

theorem save_refines:
  assumes "idle h" "save_pre (api_mem api h) ds" "12 + length (concat (chunks ns)) \<le> cap"
  shows "\<exists>h'. config_save api crc wcmp base (of_nat cap) ns h = Some h' \<and> idle h'
    \<and> log_inv (api_mem api h') (save_spec cap ds (concat (chunks ns)))
    \<and> same_outside (api_mem api h) (api_mem api h')"
proof (cases "used (if used ds + 12 < cap then ds else []) + 12 + length (concat (chunks ns)) \<le> cap")
  case True
  then have "save_spec cap ds (concat (chunks ns)) = (if used ds + 12 < cap then ds else []) @ [concat (chunks ns)]"
    by (auto simp: save_spec_def)
  with save_fits[OF assms(1,2) True] show ?thesis by simp
next
  case False
  obtain dst mem h3 h4 where h4: "config_save_pass api crc wcmp base (of_nat cap) ns (api_unlock api h) = Some (False, dst, mem, h3)"
      "api_erase api base h3 = Some h4" "idle (api_lock api h4)" "save_pre (api_mem api (api_lock api h4)) []"
      "same_outside (api_mem api h) (api_mem api (api_lock api h4))"
    using pass_full[OF conjunct1 conjunct2, OF unlock_save_pre unlock_save_pre, OF assms(1,2,1,2) False]
      unlock_ready[OF assms(1)] by auto
  have s: "save_spec cap ds (concat (chunks ns)) = [concat (chunks ns)]"
    using False by (auto simp: save_spec_def split: if_splits)
  have "config_save api crc wcmp base (of_nat cap) ns h = config_save api crc wcmp base (of_nat cap) ns (api_lock api h4)"
    using h4(1,2) by (subst config_save.simps) simp
  then show ?thesis
    using save_fits[OF h4(3,4), of ns] assms(3) same_outside_trans[OF h4(5)] cap_bounds unfolding s by auto
qed

text \<open>A tree that does not fit the erased sector: the routine never returns.\<close>

theorem save_diverges:
  assumes "idle h" "save_pre (api_mem api h) ds" "cap < 12 + length (concat (chunks ns))"
  shows "config_save api crc wcmp base (of_nat cap) ns h = None"
proof -
  have step: "\<exists>dst mem h3 h4. config_save_pass api crc wcmp base (of_nat cap) ns (api_unlock api h) = Some (False, dst, mem, h3)
      \<and> api_erase api base h3 = Some h4 \<and> idle (api_lock api h4) \<and> save_pre (api_mem api (api_lock api h4)) []"
    if "idle h" "save_pre (api_mem api h) ds" for h ds
    using pass_full[OF conjunct1 conjunct2, OF unlock_save_pre unlock_save_pre, OF that that, of ns] assms(3) by fastforce
  define P where "P = (\<lambda>api' crc' wcmp' b (n :: u32) ns' h (y :: 'h). api' = api \<and> crc' = crc \<and> wcmp' = wcmp \<and> b = base
      \<and> n = of_nat cap \<and> ns' = ns \<longrightarrow> (\<forall>ds. idle h \<longrightarrow> \<not> save_pre (api_mem api h) ds))"
  have "P api crc wcmp base (of_nat cap) ns h y"
    if "config_save api crc wcmp base (of_nat cap) ns h = Some y" for y
  proof (rule config_save.raw_induct[where P = P, OF _ that], unfold P_def, intro allI impI notI, elim conjE)
    fix cs api' crc' wcmp' b n ns' h ds and y :: 'h
    assume IH: "\<And>api' crc' wcmp' b n ns' h y. cs api' crc' wcmp' b n ns' h = Some y \<Longrightarrow>
        api' = api \<and> crc' = crc \<and> wcmp' = wcmp \<and> b = base \<and> n = of_nat cap \<and> ns' = ns \<longrightarrow>
        (\<forall>ds. idle h \<longrightarrow> \<not> save_pre (api_mem api h) ds)"
      and body: "Option.bind (config_save_pass api' crc' wcmp' b n ns' (api_unlock api' h))
        (\<lambda>(success, dst, mem, h1). if \<not> success then Option.bind (api_erase api' b h1)
            (\<lambda>h2. cs api' crc' wcmp' b n ns' (api_lock api' h2))
          else Option.bind (config_write_block_header api' crc' dst (ma_index mem) h1)
            (\<lambda>h2. Some (api_lock api' h2))) = Some y"
      and eq: "api' = api" "crc' = crc" "wcmp' = wcmp" "b = base" "n = of_nat cap" "ns' = ns"
      and h: "idle h" "save_pre (api_mem api h) ds"
    from step[OF h] obtain dst mem h3 h4 where
      s: "config_save_pass api crc wcmp base (of_nat cap) ns (api_unlock api h) = Some (False, dst, mem, h3)"
      "api_erase api base h3 = Some h4" and n: "idle (api_lock api h4)" "save_pre (api_mem api (api_lock api h4)) []"
      by blast
    have "cs api crc wcmp base (of_nat cap) ns (api_lock api h4) = Some y"
      using body s by (simp add: eq)
    then show False using IH n by blast
  qed
  then show ?thesis using assms(1,2) by (auto simp: P_def intro: ccontr)
qed

lemma load_last:
  assumes "store_inv m (ds @ [e])"
  shows "config_load crc mread m ns base = Some (fst (mread ns e) = 0, snd (mread ns e))"
proof -
  have "block_at crc m (base + of_nat (used ds)) e"
    using assms by (simp add: config_log_ended_def config_log_def log_at_append)
  moreover from this have "mem_bytes m (base + of_nat (used ds) + CONFIG_HEADER_SIZE) (length e) = e"
    by (simp add: block_at_def CONFIG_HEADER_SIZE_def)
  ultimately show ?thesis
    using find_last_used_inv[OF assms]
    by (simp add: config_load_def Let_def block_at_unat_length split: prod.splits)
qed

lemma save_spec_last: "\<exists>ds'. save_spec c ds e = ds' @ [e]"
  by (simp add: save_spec_def)

theorem save_load:
  assumes "idle h" "save_pre (api_mem api h) ds"
    and "used (save_spec cap ds (concat (chunks ns))) + 8 \<le> cap" "12 + length (concat (chunks ns)) \<le> cap"
  shows "\<exists>h'. config_save api crc wcmp base (of_nat cap) ns h = Some h' \<and> idle h'
    \<and> config_load crc mread (api_mem api h') ns' base =
        Some (fst (mread ns' (concat (chunks ns))) = 0, snd (mread ns' (concat (chunks ns))))"
  using save_refines[OF assms(1,2,4)] log_inv_room[OF _ assms(3)] load_last save_spec_last by metis

theorem erase_pristine:
  assumes "idle h"
  shows "\<exists>h'. config_erase api base h = Some h' \<and> idle h' \<and> store_inv (api_mem api h') []
    \<and> same_outside (api_mem api h) (api_mem api h')
    \<and> config_load crc mread (api_mem api h') ns base = Some (False, ns)"
proof -
  obtain h1 where h1: "api_erase api base (api_unlock api h) = Some h1" "ready h1" "store_inv (api_mem api h1) []"
      "same_outside (api_mem api (api_unlock api h)) (api_mem api h1)"
    using erase_at[of "api_unlock api h"] unlock_ready[OF assms] by blast
  then have "config_load crc mread (api_mem api h1) ns base = Some (False, ns)"
    by (simp add: config_load_def find_last_used_inv)
  then show ?thesis
    using h1 unlock_ready[OF assms] lock_idle[OF h1(2)] by (simp add: config_erase_def)
qed

end

subsection \<open>A serializer and a checksum that meet the contract\<close>

definition sum_crc :: crc_fun where
  "sum_crc init bs = fold (\<lambda>b c. c + ucast b) bs init"

definition byte_chunks :: "u8 list \<Rightarrow> u8 list list" where
  "byte_chunks d = map (\<lambda>b. [b]) d"

definition byte_serializer :: "(u8 list, 'h) serializer" where
  "byte_serializer d w s = run_writer w s (byte_chunks d)"

lemma run_writer_reach:
  assumes "run_writer w s cs = Some (b, s')" "\<forall>c \<in> set cs. length c < 2 ^ 31" "writer_reach w s0 s"
  shows "writer_reach w s0 s'"
  using assms
proof (induction w s cs rule: run_writer.induct)
  case (2 w s c cs)
  from "2.prems"(1) obtain n s1 where s1: "w s c = Some (n, s1)" by (cases "w s c") auto
  have "writer_reach w s0 s1"
    by (rule writer_step[OF "2.prems"(3) _ s1]) (use "2.prems"(2) in simp)
  with 2 s1 show ?case by (auto split: if_splits)
qed simp

lemma concat_byte_chunks [simp]: "concat (byte_chunks d) = d"
  by (induction d) (simp_all add: byte_chunks_def)

lemma byte_serializer_serializes: "serializes byte_serializer byte_chunks"
  unfolding serializes_def byte_serializer_def
proof (intro conjI allI impI ballI)
  fix d and w :: "'a writer" and s s'
  assume r: "run_writer w s (byte_chunks d) = Some (False, s')"
  have "writer_reach w s s'"
    by (rule run_writer_reach[OF r _ writer_refl]) (simp add: byte_chunks_def)
  then show "\<exists>mem h. run_writer w s (byte_chunks d) = Some (False, mem, h) \<and> writer_reach w s (mem, h)"
    using r by (cases s') blast
qed (auto simp: byte_chunks_def)

lemma sum_crc_erased: "sum_crc CRC_INITIAL_VALUE [0xFF, 0xFF, 0xFF, 0xFF] \<noteq> 0xFFFFFFFF"
  by (simp add: sum_crc_def CRC_INITIAL_VALUE_def)

text \<open>The region of the linker script: sector 11, 128 KB at \<open>0x080e0000\<close>.\<close>

definition config_base :: u32 where "config_base = 0x080e0000"

lemma config_base_region: "k < 0x20000 \<Longrightarrow> in_sector 11 (config_base + of_nat k)"
  using unat_addr_offset[of config_base k]
  by (simp add: in_sector_def sector_base_def sector_size_def config_base_def)

interpretation ref_config: config_store "flash_c ref_bus rf_mem" "ctl_idle ref_cr rf_busy"
    "ctl_ready ref_cr rf_busy" sum_crc byte_serializer byte_chunks 11 config_base "0x20000"
  by unfold_locales (simp_all add: config_base_region sum_crc_erased byte_serializer_serializes)

subsection \<open>Properties over every flash controller\<close>

text \<open>What the properties below assume: a documented controller, idle; a serializer that keeps its
  contract; a region of 32-bit size inside one sector; a checksum that rejects an erased header.\<close>

definition config_setting ::
  "'h flash_bus \<Rightarrow> ('h \<Rightarrow> u32) \<Rightarrow> ('h \<Rightarrow> bool) \<Rightarrow> ('h \<Rightarrow> nat) \<Rightarrow> ('h \<Rightarrow> memory) \<Rightarrow> crc_fun
    \<Rightarrow> ('ns, 'h) serializer \<Rightarrow> ('ns \<Rightarrow> u8 list list) \<Rightarrow> nat \<Rightarrow> u32 \<Rightarrow> nat \<Rightarrow> bool" where
  "config_setting bus cr keyed busy mem crc wcmp chunks s base cap \<longleftrightarrow>
     flash_controller bus cr keyed busy mem \<and> serializes wcmp chunks
     \<and> (\<forall>k < cap. in_sector s (base + of_nat k)) \<and> 20 < cap \<and> cap \<le> 0x20000
     \<and> crc CRC_INITIAL_VALUE [0xFF, 0xFF, 0xFF, 0xFF] \<noteq> 0xFFFFFFFF"

lemma config_setting_store:
  assumes "config_setting bus cr keyed busy mem crc wcmp chunks s base cap"
  shows "config_store (flash_c bus mem) (ctl_idle cr busy) (ctl_ready cr busy) crc wcmp chunks s base cap"
proof -
  have "flash_store (flash_c bus mem) (ctl_idle cr busy) (ctl_ready cr busy)"
    using assms unfolding config_setting_def by (blast intro: flash_controller.flash_store_flash_c)
  then show ?thesis
    using assms by (simp add: config_store_def config_store_axioms_def config_setting_def)
qed

lemma api_mem_flash_c [simp]: "api_mem (flash_c bus mem) = mem"
  by (simp add: flash_c_def)

lemma ref_config_setting:
  "config_setting ref_bus ref_cr rf_keyed rf_busy rf_mem sum_crc byte_serializer byte_chunks 11 config_base 0x20000"
  by (simp add: config_setting_def ref.flash_controller_axioms byte_serializer_serializes config_base_region sum_crc_erased)

lemma ref_init_start: "config_start sum_crc config_base c (rf_mem ref_init) []"
proof -
  have "mem_bytes (rf_mem ref_init) a 4 = [0, 0, 0, 0]" for a
    by (simp add: mem_bytes_def ref_init_def numeral_eq_Suc)
  then show ?thesis
    by (simp add: config_start_def config_block_is_valid_def le_bytes32_def sum_crc_def CRC_INITIAL_VALUE_def)
qed

text \<open>C2. \<open>config_save\<close> implements the abstract log. From an idle flash whose region holds a log (or no
  valid block), saving a tree whose serialization fits the empty region returns; the region then holds
  the log with the tree appended, or only the tree when it did not fit behind the others; the rest of
  the region is erased, and nothing outside its sector has changed.\<close>
theorem config_save_refines:
  assumes "config_setting bus cr keyed busy mem crc wcmp chunks s base cap"
    and "ctl_idle cr busy h" and "config_start crc base cap (mem h) ds"
    and "12 + length (concat (chunks ns)) \<le> cap"
  shows "\<exists>h'. config_save (flash_c bus mem) crc wcmp base (of_nat cap) ns h = Some h' \<and> ctl_idle cr busy h'
    \<and> config_log crc base cap (mem h') (save_spec cap ds (concat (chunks ns)))
    \<and> same_outside_sector s (mem h) (mem h')"
  using config_store.save_refines[OF config_setting_store[OF assms(1)], of h ds ns] assms(2-4) by simp

lemma config_save_refines_witness:
  "\<exists>h'. config_save (flash_c ref_bus rf_mem) sum_crc byte_serializer config_base (of_nat 0x20000) [1, 2, 3] ref_init = Some h'
    \<and> ctl_idle ref_cr rf_busy h'
    \<and> config_log sum_crc config_base 0x20000 (rf_mem h') (save_spec 0x20000 [] (concat (byte_chunks [1, 2, 3])))
    \<and> same_outside_sector 11 (rf_mem ref_init) (rf_mem h')"
  by (rule config_save_refines[OF ref_config_setting ref_init_idle ref_init_start]) simp

text \<open>C3. Round trip: after a save that leaves room for the next header, \<open>config_load\<close> finds the block
  just written, hands exactly the serialized tree to the parser and succeeds iff the parser does.\<close>
theorem config_save_then_load:
  assumes "config_setting bus cr keyed busy mem crc wcmp chunks s base cap"
    and "ctl_idle cr busy h" and "config_start crc base cap (mem h) ds"
    and "used (save_spec cap ds (concat (chunks ns))) + 8 \<le> cap" and "12 + length (concat (chunks ns)) \<le> cap"
  shows "\<exists>h'. config_save (flash_c bus mem) crc wcmp base (of_nat cap) ns h = Some h' \<and> ctl_idle cr busy h'
    \<and> config_load crc mread (mem h') ns' base =
        Some (fst (mread ns' (concat (chunks ns))) = 0, snd (mread ns' (concat (chunks ns))))"
  using config_store.save_load[OF config_setting_store[OF assms(1)], of h ds ns] assms(2-5) by simp

lemma config_save_then_load_witness:
  "\<exists>h'. config_save (flash_c ref_bus rf_mem) sum_crc byte_serializer config_base (of_nat 0x20000) [1, 2, 3] ref_init = Some h'
    \<and> ctl_idle ref_cr rf_busy h'
    \<and> config_load sum_crc (\<lambda>ns d. (0, d)) (rf_mem h') [] config_base =
        Some (fst ((0 :: int, concat (byte_chunks [1, 2, 3]))) = 0, snd (0 :: int, concat (byte_chunks [1, 2, 3])))"
  by (rule config_save_then_load[OF ref_config_setting ref_init_idle ref_init_start])
    (simp_all add: save_spec_def block_size_def)

text \<open>C4. A tree whose serialization and header do not fit the region makes \<open>config_save\<close> run for ever:
  every pass fails, erases the sector and starts again.\<close>
theorem config_save_diverges:
  assumes "config_setting bus cr keyed busy mem crc wcmp chunks s base cap"
    and "ctl_idle cr busy h" and "config_start crc base cap (mem h) ds"
    and "cap < 12 + length (concat (chunks ns))"
  shows "config_save (flash_c bus mem) crc wcmp base (of_nat cap) ns h = None"
  using config_store.save_diverges[OF config_setting_store[OF assms(1)], of h ds ns] assms(2-4) by simp

lemma config_save_diverges_witness:
  "config_save (flash_c ref_bus rf_mem) sum_crc byte_serializer config_base (of_nat 0x20000)
     (replicate 0x20000 0) ref_init = None"
  by (rule config_save_diverges[OF ref_config_setting ref_init_idle ref_init_start]) simp

text \<open>\<open>config_erase\<close> leaves an empty log: the load that follows reports that there is no block and
  keeps the parameters as they are; nothing outside the sector changes.\<close>
lemma config_erase_pristine:
  assumes "config_setting bus cr keyed busy mem crc wcmp chunks s base cap" and "ctl_idle cr busy h"
  shows "\<exists>h'. config_erase (flash_c bus mem) base h = Some h' \<and> ctl_idle cr busy h'
    \<and> config_log_ended crc base cap (mem h') [] \<and> same_outside_sector s (mem h) (mem h')
    \<and> config_load crc mread (mem h') ns base = Some (False, ns)"
  using config_store.erase_pristine[OF config_setting_store[OF assms(1)], of h mread ns] assms(2) by simp

lemma config_erase_pristine_witness:
  "\<exists>h'. config_erase (flash_c ref_bus rf_mem) config_base ref_init = Some h' \<and> ctl_idle ref_cr rf_busy h'
    \<and> config_log_ended sum_crc config_base 0x20000 (rf_mem h') [] \<and> same_outside_sector 11 (rf_mem ref_init) (rf_mem h')
    \<and> config_load sum_crc (\<lambda>ns d. (0, d)) (rf_mem h') [7] config_base = Some (False, [7])"
  by (rule config_erase_pristine[OF ref_config_setting ref_init_idle])

end
