(* ===== verification/Msgbus.thy ===== *)
theory Msgbus
  imports IEEE_Float "HOL-Library.AList"
begin

section \<open>The message bus and the messages of the robot\<close>

text \<open>
  Every sensor and actuator thread talks through the message bus, a library outside the repository:
  topics have a name, a value of a fixed type and a flag that says whether they were ever published.
  The bus is a parameter \<open>msgbus\<close> of the threads, with an opaque state \<open>'b\<close> and opaque topic
  handles \<open>'t\<close>; the locale \<open>message_bus\<close> states its documented behaviour, and \<open>ref_msgbus\<close> is an
  executable bus that has it. The message types are the structs of the headers; a C array of a message
  is a list.
\<close>

datatype audio_play_status = AUDIO_OK | AUDIO_FILE_NOT_FOUND | AUDIO_WAV_DECODE

datatype message =
    Encoders_msg u32 u32                       \<comment> \<open>\<open>encoders_msg_t\<close>, two \<open>int32_t\<close>\<close>
  | Wheel_pos_msg fp fp                        \<comment> \<open>\<open>wheel_pos_msg_t\<close>\<close>
  | Wheel_velocities_msg fp fp                 \<comment> \<open>\<open>wheel_velocities_msg_t\<close>\<close>
  | Battery_msg fp                             \<comment> \<open>\<open>battery_msg_t\<close>\<close>
  | Motor_current_msg fp fp                    \<comment> \<open>\<open>motor_current_msg_t\<close>\<close>
  | Motor_voltage_msg fp fp                    \<comment> \<open>\<open>motor_voltage_msg_t\<close>\<close>
  | Wheels_setpoint_msg u32 fp fp              \<comment> \<open>\<open>wheels_setpoint_t\<close>: mode, left, right\<close>
  | Proximity_msg "u32 list" "u32 list" "u32 list" \<comment> \<open>\<open>proximity_msg_t\<close>: ambient, reflected, delta\<close>
  | Imu_msg "fp list" "fp list"                \<comment> \<open>\<open>imu_msg_t\<close>: acceleration, roll rate\<close>
  | Range_msg u8 fp                            \<comment> \<open>\<open>range_msg_t\<close>\<close>
  | Body_led_msg fp                            \<comment> \<open>\<open>body_led_msg_t\<close>\<close>
  | Audio_play_request_msg string              \<comment> \<open>\<open>audio_play_request_t\<close>\<close>
  | Audio_play_result_msg audio_play_status    \<comment> \<open>\<open>audio_play_result_t\<close>\<close>

record ('t, 'b) msgbus =
  mb_advertise :: "string \<Rightarrow> 'b \<Rightarrow> 't \<times> 'b"
  mb_find :: "'b \<Rightarrow> string \<Rightarrow> 't option"
  mb_read :: "'b \<Rightarrow> 't \<Rightarrow> message option"
  mb_publish :: "'t \<Rightarrow> message \<Rightarrow> 'b \<Rightarrow> 'b"

locale message_bus =
  fixes mb :: "('t, 'b) msgbus"
  assumes read_publish: "mb_read mb (mb_publish mb t m b) t = Some m"
    and read_publish_other: "t' \<noteq> t \<Longrightarrow> mb_read mb (mb_publish mb t m b) t' = mb_read mb b t'"
    and find_publish: "mb_find mb (mb_publish mb t m b) n = mb_find mb b n"
    and find_inject: "mb_find mb b n = Some t \<Longrightarrow> mb_find mb b n' = Some t \<Longrightarrow> n = n'"
begin

lemma read_publish_if: "mb_read mb (mb_publish mb t m b) t' = (if t' = t then Some m else mb_read mb b t')"
  by (simp add: read_publish read_publish_other)

end

text \<open>A start-up also needs that an advertised topic is found under its name, and has no value when it is new.\<close>

locale topic_directory = message_bus mb for mb :: "('t, 'b) msgbus" +
  assumes advertise_find: "mb_advertise mb n b = (t, b') \<Longrightarrow> mb_find mb b' n' = (if n' = n then Some t else mb_find mb b n')"
    and advertise_read: "mb_advertise mb n b = (t, b') \<Longrightarrow> mb_find mb b n = None \<Longrightarrow>
      mb_read mb b' t' = (if t' = t then None else mb_read mb b t')"

text \<open>A bus whose topics are their names; it forgets the value of a topic that is advertised.\<close>

record ref_bus_state =
  rb_topics :: "string list"
  rb_values :: "(string \<times> message) list"

definition ref_msgbus :: "(string, ref_bus_state) msgbus" where
  "ref_msgbus = \<lparr>
     mb_advertise = (\<lambda>n b. (n, b\<lparr>rb_topics := n # rb_topics b, rb_values := AList.delete n (rb_values b)\<rparr>)),
     mb_find = (\<lambda>b n. if n \<in> set (rb_topics b) then Some n else None),
     mb_read = (\<lambda>b t. map_of (rb_values b) t),
     mb_publish = (\<lambda>t m b. b\<lparr>rb_values := AList.update t m (rb_values b)\<rparr>)\<rparr>"

interpretation ref_mb: message_bus ref_msgbus
  by unfold_locales (auto simp: ref_msgbus_def update_conv' split: if_splits)

interpretation ref_directory: topic_directory ref_msgbus
  by unfold_locales (auto simp: ref_msgbus_def delete_conv')

end
