(* ===== verification/Encoder.thy ===== *)
theory Encoder
  imports Msgbus
begin

section \<open>Wheel encoders (\<open>src/sensors/encoder.c\<close>)\<close>

text \<open>
  The two quadrature counters are 16 bits wide and wrap. A thread samples them at 200 Hz, adds the
  shortest signed difference to a 32-bit position, derives wheel angles and filtered velocities, and
  publishes the three. \<open>int\<close> values are words read by \<open>sint\<close>. The invariant of the thread is that the
  accumulated position follows the wheels as long as no wheel moves by more than half a turn of the
  counter between two samples (\<open>encoders_track_motion\<close>).
\<close>

definition MAX_16BIT :: u32 where "MAX_16BIT = push_bit 16 1 - 1"
definition MAX_16BIT_DIV2 :: u32 where "MAX_16BIT_DIV2 = 32767"

definition M_PI :: fp where
  "M_PI = f_const f64 (314159265358979323846 / 10 ^ 20)"

definition TICKS_PER_RADIAN :: fp where
  "TICKS_PER_RADIAN = fdiv f64 (f_of_int f64 (12 * 100)) (fmul f64 (f_of_int f64 2) M_PI)"

definition LOOP_FREQUENCY :: fp where "LOOP_FREQUENCY = f_const f64 200"
definition VELOCITY_SMOOTHING_FACTOR :: fp where "VELOCITY_SMOOTHING_FACTOR = f_const f64 (1 / 2)"

text \<open>The subtractions are those of \<open>uint32_t\<close>; the result is the same word read as an \<open>int\<close>.\<close>

definition encoder_tick_diff :: "u32 \<Rightarrow> u32 \<Rightarrow> u32" where
  "encoder_tick_diff enc_old enc_new =
     (if enc_old < enc_new then
        if enc_new - enc_old \<le> MAX_16BIT_DIV2 then enc_new - enc_old
        else - (MAX_16BIT + 1 - (enc_new - enc_old))
      else if enc_old > enc_new then
        if enc_old - enc_new \<le> MAX_16BIT_DIV2 then - (enc_old - enc_new)
        else MAX_16BIT + 1 - (enc_old - enc_new)
      else 0)"

definition iir_filter :: "fp \<Rightarrow> fp \<Rightarrow> fp \<Rightarrow> fp" where
  "iir_filter input previous_output smoothing_factor =
     fadd f32 (fmul f32 smoothing_factor input)
       (fmul f32 (fsub f32 (f_of_int f32 1) smoothing_factor) previous_output)"

record encoders_state =
  left_encoder_old :: u32
  right_encoder_old :: u32
  enc_left :: u32
  enc_right :: u32
  vel_left :: fp
  vel_right :: fp

definition encoders_init :: "u32 \<Rightarrow> u32 \<Rightarrow> encoders_state" where
  "encoders_init cnt_left cnt_right = \<lparr>left_encoder_old = cnt_left, right_encoder_old = cnt_right,
     enc_left = 0, enc_right = 0, vel_left = fzero, vel_right = fzero\<rparr>"

definition wheel_position :: "u32 \<Rightarrow> fp" where
  "wheel_position ticks =
     f_conv f32 (fdiv f64 (f_conv f64 (f_of_int f32 (sint ticks))) TICKS_PER_RADIAN)"

definition wheel_velocity :: "u32 \<Rightarrow> fp" where
  "wheel_velocity delta =
     f_conv f32 (fmul f64 (fdiv f64 (f_conv f64 (f_of_int f32 (sint delta))) TICKS_PER_RADIAN)
       LOOP_FREQUENCY)"

text \<open>One round of \<open>encoders_thd\<close>: \<open>inv_left\<close> and \<open>inv_right\<close> are what the two \<open>is_inverted\<close>
  parameters read, \<open>cnt_left\<close> and \<open>cnt_right\<close> the counters; the topics are the handles advertised by
  the thread.\<close>

record 't encoder_topics =
  encoders_topic :: 't
  wheel_pos_topic :: 't
  wheel_velocities_topic :: 't

definition encoders_update :: "bool \<Rightarrow> bool \<Rightarrow> u32 \<Rightarrow> u32 \<Rightarrow> encoders_state \<Rightarrow> encoders_state" where
  "encoders_update inv_left inv_right cnt_left cnt_right st =
     (let delta_left = encoder_tick_diff (left_encoder_old st) cnt_left;
          delta_right = encoder_tick_diff (right_encoder_old st) cnt_right;
          delta_left = (if inv_left then - delta_left else delta_left);
          delta_right = (if inv_right then - delta_right else delta_right);
          s = f_conv f32 VELOCITY_SMOOTHING_FACTOR
      in \<lparr>left_encoder_old = cnt_left, right_encoder_old = cnt_right,
          enc_left = enc_left st + delta_left, enc_right = enc_right st + delta_right,
          vel_left = iir_filter (wheel_velocity delta_left) (vel_left st) s,
          vel_right = iir_filter (wheel_velocity delta_right) (vel_right st) s\<rparr>)"

definition encoders_thd_step ::
  "('t, 'b) msgbus \<Rightarrow> 't encoder_topics \<Rightarrow> bool \<Rightarrow> bool \<Rightarrow> u32 \<Rightarrow> u32
    \<Rightarrow> encoders_state \<times> 'b \<Rightarrow> encoders_state \<times> 'b" where
  "encoders_thd_step mb tp inv_left inv_right cnt_left cnt_right = (\<lambda>(st, b).
     let st = encoders_update inv_left inv_right cnt_left cnt_right st;
         b = mb_publish mb (encoders_topic tp) (Encoders_msg (enc_left st) (enc_right st)) b;
         b = mb_publish mb (wheel_pos_topic tp)
               (Wheel_pos_msg (wheel_position (enc_left st)) (wheel_position (enc_right st))) b;
         b = mb_publish mb (wheel_velocities_topic tp)
               (Wheel_velocities_msg (vel_left st) (vel_right st)) b
     in (st, b))"

text \<open>The thread over a sequence of counter samples.\<close>

fun encoders_run ::
  "('t, 'b) msgbus \<Rightarrow> 't encoder_topics \<Rightarrow> bool \<Rightarrow> bool \<Rightarrow> (u32 \<times> u32) list
    \<Rightarrow> encoders_state \<times> 'b \<Rightarrow> encoders_state \<times> 'b" where
  "encoders_run mb tp il ir [] s = s"
| "encoders_run mb tp il ir ((l, r) # cs) s = encoders_run mb tp il ir cs (encoders_thd_step mb tp il ir l r s)"

subsection \<open>The tick difference\<close>

text \<open>As an integer: the difference brought into the range of a signed 16-bit number.\<close>

definition tick_diff_int :: "int \<Rightarrow> int \<Rightarrow> int" where
  "tick_diff_int a b =
     (if a < b then if b - a \<le> 32767 then b - a else b - a - 65536
      else if b < a then if a - b \<le> 32767 then b - a else b - a + 65536 else 0)"

lemma encoder_tick_diff_int:
  assumes "uint a < 65536" "uint b < 65536"
  shows "encoder_tick_diff a b = word_of_int (tick_diff_int (uint a) (uint b))"
proof -
  have le: "c - d \<le> (32767 :: u32) \<longleftrightarrow> uint c - uint d \<le> 32767" if "d < c" for c d :: u32
    using that uint_sub_lem[of d c] by (simp add: word_le_def word_less_def)
  show ?thesis
    unfolding encoder_tick_diff_def tick_diff_int_def MAX_16BIT_def MAX_16BIT_DIV2_def
    by (auto simp: le word_less_def algebra_simps)
qed

lemma tick_diff_int_bounds:
  assumes "0 \<le> a" "a < 65536" "0 \<le> b" "b < 65536"
  shows "- 32768 \<le> tick_diff_int a b \<and> tick_diff_int a b \<le> 32768"
    and "(tick_diff_int a b - (b - a)) mod 65536 = 0"
  using assms by (auto simp: tick_diff_int_def)

lemma tick_diff_int_motion:
  assumes "\<bar>y - x\<bar> \<le> 32767"
  shows "tick_diff_int (x mod 65536) (y mod 65536) = y - x"
proof -
  define d where "d = y - x"
  have y: "y = x + d" by (simp add: d_def)
  have "(x + d) mod 65536 = (if x mod 65536 + d < 0 then x mod 65536 + d + 65536
      else if x mod 65536 + d < 65536 then x mod 65536 + d else x mod 65536 + d - 65536)"
    using assms unfolding y by (smt (verit) mod_add_left_eq mod_pos_pos_trivial mod_add_self2
        minus_mod_self2 pos_mod_bound pos_mod_sign)
  then show ?thesis
    using assms pos_mod_bound[of 65536 x] pos_mod_sign[of 65536 x] unfolding y tick_diff_int_def by auto
qed

subsection \<open>Following the wheels\<close>

definition counter_of :: "int \<Rightarrow> u32" where
  "counter_of x = word_of_int (x mod 65536)"

definition signed_by :: "bool \<Rightarrow> int \<Rightarrow> u32" where
  "signed_by inverted x = (if inverted then - word_of_int x else word_of_int x)"

fun slow :: "int \<Rightarrow> int list \<Rightarrow> bool" where
  "slow x [] = True"
| "slow x (y # ys) = (\<bar>y - x\<bar> \<le> 32767 \<and> slow y ys)"

lemma uint_counter_of [simp]: "uint (counter_of x) = x mod 65536"
proof -
  have "x mod 65536 < 65536" by simp
  then show ?thesis unfolding counter_of_def by (intro uint_of_int32) auto
qed

lemma encoder_tick_diff_motion:
  "\<bar>y - x\<bar> \<le> 32767 \<Longrightarrow> encoder_tick_diff (counter_of x) (counter_of y) = word_of_int (y - x)"
  by (simp add: encoder_tick_diff_int tick_diff_int_motion)

lemma signed_by_step: "(if i then - word_of_int d else word_of_int d) = signed_by i d"
  by (simp add: signed_by_def)

lemma signed_by_add: "signed_by i a + signed_by i b = signed_by i (a + b)"
  by (simp add: signed_by_def)

lemma encoders_run_positions:
  assumes "length ls = length rs" "slow x ls" "slow y rs"
    and "left_encoder_old st = counter_of x" "right_encoder_old st = counter_of y"
  shows "\<exists>st' b'. encoders_run mb tp il ir (map (\<lambda>(l, r). (counter_of l, counter_of r)) (zip ls rs)) (st, b) = (st', b')
    \<and> enc_left st' = enc_left st + signed_by il (last (x # ls) - x)
    \<and> enc_right st' = enc_right st + signed_by ir (last (y # rs) - y)"
  using assms
proof (induction ls rs arbitrary: x y st b rule: list_induct2)
  case Nil
  then show ?case by (simp add: signed_by_def)
next
  case (Cons l ls r rs)
  obtain st1 b1 where s1: "encoders_thd_step mb tp il ir (counter_of l) (counter_of r) (st, b) = (st1, b1)"
    by (cases "encoders_thd_step mb tp il ir (counter_of l) (counter_of r) (st, b)")
  then have st1: "st1 = encoders_update il ir (counter_of l) (counter_of r) st"
    by (simp add: encoders_thd_step_def Let_def)
  have "left_encoder_old st1 = counter_of l" "right_encoder_old st1 = counter_of r"
    "enc_left st1 = enc_left st + signed_by il (l - x)" "enc_right st1 = enc_right st + signed_by ir (r - y)"
    using Cons.prems unfolding st1
    by (simp_all add: encoders_update_def Let_def encoder_tick_diff_motion signed_by_def)
  with Cons.IH[of l r st1 b1] Cons.prems s1 show ?case
    by (auto simp: add.assoc signed_by_add)
qed

lemma encoders_run_snoc:
  "encoders_run mb tp il ir (cs @ [(l, r)]) s = encoders_thd_step mb tp il ir l r (encoders_run mb tp il ir cs s)"
  by (induction mb tp il ir cs s rule: encoders_run.induct) auto

context message_bus
begin

lemma encoders_step_published:
  assumes "encoders_thd_step mb tp il ir l r s = (st', b')"
    and "distinct [encoders_topic tp, wheel_pos_topic tp, wheel_velocities_topic tp]"
  shows "mb_read mb b' (encoders_topic tp) = Some (Encoders_msg (enc_left st') (enc_right st'))
    \<and> mb_read mb b' (wheel_pos_topic tp) =
        Some (Wheel_pos_msg (wheel_position (enc_left st')) (wheel_position (enc_right st')))
    \<and> mb_read mb b' (wheel_velocities_topic tp) = Some (Wheel_velocities_msg (vel_left st') (vel_right st'))"
  using assms by (cases s) (auto simp: encoders_thd_step_def Let_def read_publish_if)

end

subsection \<open>Properties\<close>

text \<open>C5. Over 16-bit counters the difference is the change of the counter, brought into the range of a
  signed 16-bit number: congruent to it modulo the counter's period, at most half a period in size, and
  it changes sign when the two readings are exchanged (so exactly half a period has both signs).\<close>
theorem encoder_tick_diff_spec:
  assumes "uint a < 65536" "uint b < 65536"
  shows "(sint (encoder_tick_diff a b) - (uint b - uint a)) mod 65536 = 0
    \<and> \<bar>sint (encoder_tick_diff a b)\<bar> \<le> 32768 \<and> encoder_tick_diff b a = - encoder_tick_diff a b"
proof -
  let ?d = "tick_diff_int (uint a) (uint b)"
  have b: "- 32768 \<le> ?d" "?d \<le> 32768" "(?d - (uint b - uint a)) mod 65536 = 0"
    using tick_diff_int_bounds[of "uint a" "uint b"] assms by auto
  have "sint (word_of_int ?d :: u32) = ?d"
    using b(1,2) by (intro sint_of_int32) auto
  moreover have "tick_diff_int (uint b) (uint a) = - ?d" by (auto simp: tick_diff_int_def)
  ultimately show ?thesis using b assms by (simp add: encoder_tick_diff_int)
qed

lemma encoder_tick_diff_spec_witness:
  "(sint (encoder_tick_diff 65530 4) - (uint (4 :: u32) - uint (65530 :: u32))) mod 65536 = 0
    \<and> \<bar>sint (encoder_tick_diff 65530 4)\<bar> \<le> 32768 \<and> encoder_tick_diff 4 65530 = - encoder_tick_diff 65530 4"
  by (rule encoder_tick_diff_spec) simp_all

text \<open>The encoder thread follows the wheels: when no wheel moves by more than 32767 ticks between two
  samples, the accumulated position after any number of samples is the displacement of the wheel since
  the start (modulo the width of an \<open>int\<close>), negated when the wheel is declared inverted, however often
  the 16-bit counters wrapped; and it is the position the bus carries.\<close>
lemma encoders_track_motion:
  assumes "message_bus mb" and "distinct [encoders_topic tp, wheel_pos_topic tp, wheel_velocities_topic tp]"
    and "length ls = length rs" "slow x ls" "slow y rs" "ls \<noteq> []"
  shows "\<exists>st b'. encoders_run mb tp il ir (map (\<lambda>(l, r). (counter_of l, counter_of r)) (zip ls rs))
      (encoders_init (counter_of x) (counter_of y), b) = (st, b')
    \<and> enc_left st = signed_by il (last ls - x) \<and> enc_right st = signed_by ir (last rs - y)
    \<and> mb_read mb b' (encoders_topic tp) = Some (Encoders_msg (enc_left st) (enc_right st))"
proof -
  let ?f = "\<lambda>(l, r). (counter_of l, counter_of r)"
  let ?s = "encoders_init (counter_of x) (counter_of y)"
  obtain st b' where r: "encoders_run mb tp il ir (map ?f (zip ls rs)) (?s, b) = (st, b')"
      "enc_left st = signed_by il (last ls - x)" "enc_right st = signed_by ir (last rs - y)"
    using encoders_run_positions[OF assms(3-5), of ?s mb tp il ir b] assms(3,6)
    by (auto simp: encoders_init_def split: if_splits)
  have "zip ls rs = butlast (zip ls rs) @ [last (zip ls rs)]" using assms(3,6) by (cases ls; cases rs) auto
  then obtain l rr where "map ?f (zip ls rs) = map ?f (butlast (zip ls rs)) @ [(counter_of l, counter_of rr)]"
    by (metis (no_types, lifting) case_prod_conv list.simps(8,9) map_append old.prod.exhaust)
  then have "encoders_thd_step mb tp il ir (counter_of l) (counter_of rr)
      (encoders_run mb tp il ir (map ?f (butlast (zip ls rs))) (?s, b)) = (st, b')"
    using r(1) by (simp add: encoders_run_snoc)
  from message_bus.encoders_step_published[OF assms(1) this assms(2)] r show ?thesis by auto
qed

lemma encoders_track_motion_witness:
  "\<exists>st b'. encoders_run ref_msgbus \<lparr>encoders_topic = ''e'', wheel_pos_topic = ''p'', wheel_velocities_topic = ''v''\<rparr>
      False True (map (\<lambda>(l, r). (counter_of l, counter_of r)) (zip [30000, 60000, 90000] [- 5, 0, 5]))
      (encoders_init (counter_of 0) (counter_of 0), \<lparr>rb_topics = [], rb_values = []\<rparr>) = (st, b')
    \<and> enc_left st = signed_by False (last [30000, 60000, 90000] - 0)
    \<and> enc_right st = signed_by True (last [- 5, 0, 5] - 0)
    \<and> mb_read ref_msgbus b' ''e'' = Some (Encoders_msg (enc_left st) (enc_right st))"
  using encoders_track_motion[OF ref_mb.message_bus_axioms, of
      "\<lparr>encoders_topic = ''e'', wheel_pos_topic = ''p'', wheel_velocities_topic = ''v''\<rparr>"
      "[30000, 60000, 90000]" "[- 5, 0, 5]" 0 0 False True "\<lparr>rb_topics = [], rb_values = []\<rparr>"]
  by simp

end
