(* ===== verification/Motor_Pwm.thy ===== *)
theory Motor_Pwm
  imports IEEE_Float
begin

section \<open>Motor PWM (\<open>src/motor_pwm.c\<close>)\<close>

text \<open>
  Each motor is an H-bridge driven by two PWM channels, phase A and phase B. A setter clamps the duty
  cycle, applies the direction parameter and programs the two channels. The state is the pulse width
  last programmed in each channel of each timer; the PWM driver of the operating system writes it.
  Converting a NaN to a counter value is undefined in C: the setter is then \<open>None\<close>.
\<close>

datatype pwm_driver = PWMD3 | PWMD4 | PWMD8

type_synonym pwm_state = "pwm_driver \<times> nat \<Rightarrow> u32 option"

definition pwmEnableChannel :: "pwm_driver \<Rightarrow> nat \<Rightarrow> u32 \<Rightarrow> pwm_state \<Rightarrow> pwm_state" where
  "pwmEnableChannel drv ch width s = s((drv, ch) \<mapsto> width)"

definition PWM_CLK_FREQ :: int where "PWM_CLK_FREQ = 42000000"
definition PWM_FREQUENCY :: int where "PWM_FREQUENCY = 21000"
definition PWM_CYCLE :: int where "PWM_CYCLE = PWM_CLK_FREQ div PWM_FREQUENCY"
definition PWM_LIMIT :: fp where "PWM_LIMIT = f_const f32 (99 / 100)"
definition ADC_MEASUREMENT_POS :: fp where "ADC_MEASUREMENT_POS = f_const f64 (1 / 100)"
definition MOT0_PHASE_A :: nat where "MOT0_PHASE_A = 2"
definition MOT0_PHASE_B :: nat where "MOT0_PHASE_B = 3"
definition MOT1_PHASE_A :: nat where "MOT1_PHASE_A = 0"
definition MOT1_PHASE_B :: nat where "MOT1_PHASE_B = 1"
definition PWM4_ADC_TRIGGER :: nat where "PWM4_ADC_TRIGGER = 3"

lemmas pwm_consts = PWM_CLK_FREQ_def PWM_FREQUENCY_def PWM_CYCLE_def MOT0_PHASE_A_def MOT0_PHASE_B_def
  MOT1_PHASE_A_def MOT1_PHASE_B_def PWM4_ADC_TRIGGER_def

definition pwm_count :: "fp \<Rightarrow> u32 option" where
  "pwm_count x = map_option word_of_int (f_to_range 0 (2 ^ 32 - 1) x)"

text \<open>The last call of \<open>motor_pwm_start\<close>, which places the current measurement in the pulse.\<close>

definition motor_pwm_start :: "pwm_state \<Rightarrow> pwm_state option" where
  "motor_pwm_start s = Option.bind (pwm_count (fmul f64 (f_of_int f64 PWM_CYCLE) ADC_MEASUREMENT_POS))
     (\<lambda>w. Some (pwmEnableChannel PWMD4 PWM4_ADC_TRIGGER w s))"

definition pwm_clamp :: "fp \<Rightarrow> fp" where
  "pwm_clamp duty_cycle =
     (if flt PWM_LIMIT duty_cycle then PWM_LIMIT
      else if flt duty_cycle (fneg PWM_LIMIT) then fneg PWM_LIMIT else duty_cycle)"

definition motor_phases_set ::
  "pwm_driver \<Rightarrow> nat \<Rightarrow> nat \<Rightarrow> bool \<Rightarrow> fp \<Rightarrow> pwm_state \<Rightarrow> pwm_state option" where
  "motor_phases_set drv phase_a phase_b is_inverted duty_cycle s =
     (let d = pwm_clamp duty_cycle;
          d = (if is_inverted then fneg d else d)
      in if fle d fzero
         then Option.bind (pwm_count (fmul f32 (f_of_int f32 PWM_CYCLE) (fneg d))) (\<lambda>w.
           Some (pwmEnableChannel drv phase_b w (pwmEnableChannel drv phase_a 0 s)))
         else Option.bind (pwm_count (fmul f32 (f_of_int f32 PWM_CYCLE) d)) (\<lambda>w.
           Some (pwmEnableChannel drv phase_b 0 (pwmEnableChannel drv phase_a w s))))"

text \<open>The two setters of the source have the same body over their own timer, channels and parameter;
  \<open>is_inverted\<close> is what the parameter reads.\<close>

definition motor_right_pwm_set :: "bool \<Rightarrow> fp \<Rightarrow> pwm_state \<Rightarrow> pwm_state option" where
  "motor_right_pwm_set = motor_phases_set PWMD4 MOT1_PHASE_A MOT1_PHASE_B"

definition motor_left_pwm_set :: "bool \<Rightarrow> fp \<Rightarrow> pwm_state \<Rightarrow> pwm_state option" where
  "motor_left_pwm_set = motor_phases_set PWMD3 MOT0_PHASE_A MOT0_PHASE_B"

subsection \<open>The clamp and the width of a pulse\<close>

lemma PWM_CYCLE_float: "f_of_int f32 PWM_CYCLE = FFin False 2000"
  by code_simp

lemma PWM_LIMIT_float: "PWM_LIMIT = FFin False (4152361 / 4194304)"
  by code_simp

lemma longest_pulse: "round_mag f32 (519045125 / 262144) = 1980" "(1980 :: rat) \<le> fmax f32"
  by code_simp+

lemma pwm_clamp_finite:
  assumes "\<not> is_nan d" "in_fmt f32 d"
  shows "\<exists>s m. pwm_clamp d = FFin s m \<and> 0 \<le> m \<and> m \<le> 4152361 / 4194304"
proof -
  have "pwm_clamp d = FFin (signbit d) (4152361 / 4194304) \<or>
      (\<exists>s m. d = FFin s m \<and> pwm_clamp d = d \<and> 0 \<le> m \<and> m \<le> 4152361 / 4194304)"
    using assms by (cases d) (auto simp: pwm_clamp_def PWM_LIMIT_float)
  then show ?thesis
  proof
    assume c: "pwm_clamp d = FFin (signbit d) (4152361 / 4194304)"
    show ?thesis by (intro exI conjI, rule c) simp_all
  qed auto
qed

definition pulse :: "rat \<Rightarrow> int" where
  "pulse m = \<lfloor>round_mag f32 (2000 * m)\<rfloor>"

lemma pulse_float_bound:
  assumes "0 \<le> m" "m \<le> 4152361 / 4194304"
  shows "round_mag f32 (2000 * m) \<le> 1980"
  using assms round_mag_mono[of f32 "2000 * m" "519045125 / 262144"] by (simp add: longest_pulse)

lemma pulse_bounds:
  assumes "0 \<le> m" "m \<le> 4152361 / 4194304"
  shows "0 \<le> pulse m \<and> pulse m \<le> 1980"
proof -
  have "0 \<le> round_mag f32 (2000 * m)" using assms by (simp add: round_mag_nonneg)
  then show ?thesis
    using pulse_float_bound[OF assms] unfolding pulse_def by (simp add: floor_le_iff)
qed

lemma pwm_count_pulse:
  assumes "0 \<le> m" "m \<le> 4152361 / 4194304"
  shows "pwm_count (fmul f32 (f_of_int f32 PWM_CYCLE) (FFin False m)) = Some (word_of_int (pulse m))"
proof -
  have "fround f32 False (2000 * m) = FFin False (round_mag f32 (2000 * m))"
    using order_trans[OF pulse_float_bound[OF assms] longest_pulse(2)] by (simp add: fround_def)
  then show ?thesis
    using pulse_bounds[OF assms] by (simp add: PWM_CYCLE_float pwm_count_def f_to_range_def pulse_def)
qed

lemma pwm_count_negative_zero:
  "pwm_count (fmul f32 (f_of_int f32 PWM_CYCLE) (FFin True 0)) = Some (word_of_int (pulse 0))"
  by (simp add: PWM_CYCLE_float fround_def pwm_count_def f_to_range_def pulse_def)
    (simp add: fmax_def f32_def pow2_def)

text \<open>What a setter programs: the magnitude of the clamped duty cycle in one phase, zero in the other.\<close>

lemma motor_phases_set_eq:
  assumes "\<not> is_nan d" "in_fmt f32 d"
  shows "\<exists>s m. pwm_clamp d = FFin s m \<and> 0 \<le> m \<and> m \<le> 4152361 / 4194304 \<and>
    motor_phases_set drv a b inverted d st = Some
      (if (s \<noteq> inverted) \<or> m = 0
       then pwmEnableChannel drv b (word_of_int (pulse m)) (pwmEnableChannel drv a 0 st)
       else pwmEnableChannel drv b 0 (pwmEnableChannel drv a (word_of_int (pulse m)) st))"
proof -
  obtain s m where c: "pwm_clamp d = FFin s m" "0 \<le> m" "m \<le> 4152361 / 4194304"
    using pwm_clamp_finite[OF assms] by blast
  have "fle (FFin t m) fzero \<longleftrightarrow> t \<or> m = 0" for t using c(2) by auto
  with c pwm_count_pulse[OF c(2,3)] pwm_count_negative_zero show ?thesis
    by (intro exI[of _ s] exI[of _ m]) (cases s; cases inverted; simp add: motor_phases_set_def Let_def)
qed

subsection \<open>Properties\<close>

text \<open>C7. For every duty cycle that is a number, finite or not, the left and the right setter program a
  pulse of at most 1980 of the 2000 counts in one phase of their own bridge and zero in the other phase,
  so the two phases are never driven together, and touch no other channel. A NaN is undefined behaviour.\<close>
theorem motor_pwm_set_safe:
  assumes "in_fmt f32 d"
  shows "(if is_nan d then motor_left_pwm_set inverted d s = None \<and> motor_right_pwm_set inverted d s = None
    else (\<exists>wa wb. motor_left_pwm_set inverted d s = Some (s((PWMD3, 2) \<mapsto> wa, (PWMD3, 3) \<mapsto> wb))
        \<and> (wa = 0 \<or> wb = 0) \<and> unat wa \<le> 1980 \<and> unat wb \<le> 1980)
      \<and> (\<exists>wa wb. motor_right_pwm_set inverted d s = Some (s((PWMD4, 0) \<mapsto> wa, (PWMD4, 1) \<mapsto> wb))
        \<and> (wa = 0 \<or> wb = 0) \<and> unat wa \<le> 1980 \<and> unat wb \<le> 1980))"
proof (cases "is_nan d")
  case True
  then have "motor_phases_set drv a b inverted d s = None" for drv a b
    by (cases d; cases inverted) (auto simp: motor_phases_set_def Let_def pwm_clamp_def pwm_count_def f_to_range_def PWM_CYCLE_float PWM_LIMIT_float)
  with True show ?thesis by (simp add: motor_left_pwm_set_def motor_right_pwm_set_def)
next
  case False
  have set: "\<exists>wa wb. motor_phases_set drv a b inverted d s = Some (s((drv, a) \<mapsto> wa, (drv, b) \<mapsto> wb))
      \<and> (wa = 0 \<or> wb = 0) \<and> unat wa \<le> 1980 \<and> unat wb \<le> 1980" if "a \<noteq> b" for drv a b
  proof -
    obtain t m where m: "0 \<le> m" "m \<le> 4152361 / 4194304" and e: "motor_phases_set drv a b inverted d s = Some
      (if (t \<noteq> inverted) \<or> m = 0
       then pwmEnableChannel drv b (word_of_int (pulse m)) (pwmEnableChannel drv a 0 s)
       else pwmEnableChannel drv b 0 (pwmEnableChannel drv a (word_of_int (pulse m)) s))"
      using motor_phases_set_eq[OF False assms] by blast
    have "unat (word_of_int (pulse m) :: u32) \<le> 1980"
      using pulse_bounds[OF m] by (simp add: unsigned_of_int take_bit_int_eq_self nat_le_iff)
    then have w: "unat (word_of_int (pulse m) :: u32) \<le> 1980 \<and> unat (0 :: u32) \<le> 1980" by simp
    show ?thesis
    proof (cases "(t \<noteq> inverted) \<or> m = 0")
      case True
      then show ?thesis unfolding e pwmEnableChannel_def
        by (intro exI[of _ 0] exI[of _ "word_of_int (pulse m)"]) (use w in simp)
    next
      case False
      then show ?thesis unfolding e pwmEnableChannel_def
        by (intro exI[of _ "word_of_int (pulse m)"] exI[of _ 0]) (use w in simp)
    qed
  qed
  show ?thesis using False set[of 2 3 PWMD3] set[of 0 1 PWMD4]
    by (simp add: motor_left_pwm_set_def motor_right_pwm_set_def pwm_consts)
qed

lemma motor_pwm_set_safe_witness:
  "\<exists>wa wb. motor_left_pwm_set True (FInf False) (\<lambda>_. None) = Some ((\<lambda>_. None)((PWMD3, 2) \<mapsto> wa, (PWMD3, 3) \<mapsto> wb))
        \<and> (wa = 0 \<or> wb = 0) \<and> unat wa \<le> 1980 \<and> unat wb \<le> 1980"
  using motor_pwm_set_safe[of "FInf False" True "\<lambda>_. None"] by simp

end
