(* ===== verification/Motor_Controller.thy ===== *)
theory Motor_Controller
  imports IEEE_Float
begin

section \<open>The cascade motor controller (\<open>src/motor_controller.c\<close>)\<close>

text \<open>
  Three nested loops: the position loop sets the velocity setpoint, the velocity loop the current
  setpoint, the current loop the voltage. The outer loops run once every \<open>divider\<close> calls. The PID
  filter and the parameter tree are libraries outside the repository; the record \<open>ctl_lib\<close> holds their
  functions, \<open>'p\<close> is a PID filter and \<open>'q\<close> a parameter. The getters of the loops read an environment
  \<open>'e\<close> (the message bus); a null getter is \<open>None\<close>. Signed overflow of a counter is undefined in C and
  is \<open>None\<close>, as is the call of a null getter.

  The compiler may fuse a multiplication and an addition; the model rounds both, as the source is
  written.
\<close>

subsection \<open>Data\<close>

datatype motor_controller_mode =
  MOTOR_CONTROLLER_CURRENT | MOTOR_CONTROLLER_VELOCITY | MOTOR_CONTROLLER_POSITION

fun mode_num :: "motor_controller_mode \<Rightarrow> nat" where
  "mode_num MOTOR_CONTROLLER_CURRENT = 0"
| "mode_num MOTOR_CONTROLLER_VELOCITY = 1"
| "mode_num MOTOR_CONTROLLER_POSITION = 2"

lemma mode_num_inject: "mode_num a = mode_num b \<longleftrightarrow> a = b"
  by (cases a; cases b) simp_all

instantiation motor_controller_mode :: linorder
begin

definition less_eq_motor_controller_mode :: "motor_controller_mode \<Rightarrow> motor_controller_mode \<Rightarrow> bool" where
  "a \<le> b \<longleftrightarrow> mode_num a \<le> mode_num b"

definition less_motor_controller_mode :: "motor_controller_mode \<Rightarrow> motor_controller_mode \<Rightarrow> bool" where
  "a < b \<longleftrightarrow> mode_num a < mode_num b"

instance
  by standard (auto simp: less_eq_motor_controller_mode_def less_motor_controller_mode_def mode_num_inject)

end

lemmas mode_order = less_eq_motor_controller_mode_def less_motor_controller_mode_def

text \<open>A message carries the mode as an integer, which may be none of the enumeration.\<close>

definition mode_of_word :: "u32 \<Rightarrow> motor_controller_mode option" where
  "mode_of_word w =
     (if w = 0 then Some MOTOR_CONTROLLER_CURRENT else if w = 1 then Some MOTOR_CONTROLLER_VELOCITY
      else if w = 2 then Some MOTOR_CONTROLLER_POSITION else None)"

record ('q, 'p) ctl_lib =
  parameter_changed :: "'q \<Rightarrow> bool"
  parameter_scalar_get :: "'q \<Rightarrow> fp \<times> 'q"
  parameter_scalar_default :: "fp \<Rightarrow> 'q"
  pid_init :: 'p
  pid_set_gains :: "fp \<Rightarrow> fp \<Rightarrow> fp \<Rightarrow> 'p \<Rightarrow> 'p"
  pid_reset_integral :: "'p \<Rightarrow> 'p"
  pid_set_integral_limit :: "fp \<Rightarrow> 'p \<Rightarrow> 'p"
  pid_set_frequency :: "fp \<Rightarrow> 'p \<Rightarrow> 'p"
  pid_process :: "'p \<Rightarrow> fp \<Rightarrow> fp \<times> 'p"
  pid_frequency :: "'p \<Rightarrow> fp"

record 'q pid_param_s =
  kp :: 'q
  ki :: 'q
  kd :: 'q
  i_limit :: 'q

record ('q, 'p, 'e) ctl_loop =
  params :: "'q pid_param_s"
  pid :: 'p
  target_setpoint :: fp
  setpoint :: fp
  loop_error :: fp
  getter :: "(nat \<Rightarrow> 'e \<Rightarrow> fp) option"
  get_arg :: nat
  divider :: int
  divider_counter :: int

record ('q, 'p, 'e) motor_controller =
  limits_velocity :: 'q
  limits_current :: 'q
  limits_acceleration :: 'q
  ctl_mode :: motor_controller_mode
  position :: "('q, 'p, 'e) ctl_loop"
  velocity :: "('q, 'p, 'e) ctl_loop"
  current :: "('q, 'p, 'e) ctl_loop"

definition f2 :: fp where "f2 = f_of_int f32 2"

text \<open>\<open>++\<close> on an \<open>int\<close>.\<close>

definition int_incr :: "int \<Rightarrow> int option" where
  "int_incr i = (if i < 2 ^ 31 - 1 then Some (i + 1) else None)"

subsection \<open>Set-up\<close>

definition pid_param_declare :: "('q, 'p) ctl_lib \<Rightarrow> 'q pid_param_s" where
  "pid_param_declare L = \<lparr>kp = parameter_scalar_default L fzero, ki = parameter_scalar_default L fzero,
     kd = parameter_scalar_default L fzero, i_limit = parameter_scalar_default L (FInf False)\<rparr>"

text \<open>A loop after \<open>memset\<close>, the declaration of its parameters and \<open>pid_init\<close>.\<close>

definition loop_init :: "('q, 'p) ctl_lib \<Rightarrow> ('q, 'p, 'e) ctl_loop" where
  "loop_init L = \<lparr>params = pid_param_declare L, pid = pid_init L, target_setpoint = fzero,
     setpoint = fzero, loop_error = fzero, getter = None, get_arg = 0, divider = 0, divider_counter = 0\<rparr>"

definition motor_controller_init :: "('q, 'p) ctl_lib \<Rightarrow> ('q, 'p, 'e) motor_controller" where
  "motor_controller_init L = \<lparr>limits_velocity = parameter_scalar_default L (FInf False),
     limits_current = parameter_scalar_default L (FInf False),
     limits_acceleration = parameter_scalar_default L (FInf False),
     ctl_mode = MOTOR_CONTROLLER_CURRENT,
     position = (loop_init L)\<lparr>divider := 1\<rparr>, velocity = (loop_init L)\<lparr>divider := 1\<rparr>,
     current = loop_init L\<rparr>"

definition motor_controller_set_frequency ::
  "('q, 'p) ctl_lib \<Rightarrow> fp \<Rightarrow> ('q, 'p, 'e) motor_controller \<Rightarrow> ('q, 'p, 'e) motor_controller" where
  "motor_controller_set_frequency L frequency c =
     (let p = position c; v = velocity c; i = current c in
      c\<lparr>position := p\<lparr>pid := pid_set_frequency L (fdiv f32 frequency (f_of_int f32 (divider p))) (pid p)\<rparr>,
        velocity := v\<lparr>pid := pid_set_frequency L (fdiv f32 frequency (f_of_int f32 (divider v))) (pid v)\<rparr>,
        current := i\<lparr>pid := pid_set_frequency L frequency (pid i)\<rparr>\<rparr>)"

definition motor_controller_set_prescaler ::
  "int \<Rightarrow> int \<Rightarrow> ('q, 'p, 'e) motor_controller \<Rightarrow> ('q, 'p, 'e) motor_controller" where
  "motor_controller_set_prescaler velocity_divider position_divider c =
     c\<lparr>position := (position c)\<lparr>divider := position_divider\<rparr>,
       velocity := (velocity c)\<lparr>divider := velocity_divider\<rparr>\<rparr>"

subsection \<open>Gains\<close>

definition pid_param_update ::
  "('q, 'p) ctl_lib \<Rightarrow> 'q pid_param_s \<times> 'p \<Rightarrow> 'q pid_param_s \<times> 'p" where
  "pid_param_update L = (\<lambda>(p, ctrl).
     let (p, ctrl) =
       (if parameter_changed L (kp p) \<or> parameter_changed L (ki p) \<or> parameter_changed L (kd p)
        then let (a, kp') = parameter_scalar_get L (kp p);
                 (b, ki') = parameter_scalar_get L (ki p);
                 (c, kd') = parameter_scalar_get L (kd p)
             in (p\<lparr>kp := kp', ki := ki', kd := kd'\<rparr>, pid_reset_integral L (pid_set_gains L a b c ctrl))
        else (p, ctrl))
     in if parameter_changed L (i_limit p)
        then let (l, il) = parameter_scalar_get L (i_limit p)
             in (p\<lparr>i_limit := il\<rparr>, pid_set_integral_limit L l ctrl)
        else (p, ctrl))"

definition loop_param_update ::
  "('q, 'p) ctl_lib \<Rightarrow> ('q, 'p, 'e) ctl_loop \<Rightarrow> ('q, 'p, 'e) ctl_loop" where
  "loop_param_update L l = (let (p, ctrl) = pid_param_update L (params l, pid l) in l\<lparr>params := p, pid := ctrl\<rparr>)"

subsection \<open>Getters, limits and ramps\<close>

definition safe_get :: "'e \<Rightarrow> ('q, 'p, 'e) ctl_loop \<Rightarrow> fp" where
  "safe_get e l = (case getter l of None \<Rightarrow> fzero | Some g \<Rightarrow> g (get_arg l) e)"

definition motor_controller_limit_symmetric :: "fp \<Rightarrow> fp \<Rightarrow> fp" where
  "motor_controller_limit_symmetric v limit =
     (if flt limit v then limit else if flt v (fneg limit) then fneg limit else v)"

definition motor_controller_pos_setpt_interpolation :: "fp \<Rightarrow> fp \<Rightarrow> fp \<Rightarrow> fp \<Rightarrow> fp" where
  "motor_controller_pos_setpt_interpolation pos vel acc delta_t =
     fadd f32 (fadd f32 pos (fmul f32 vel delta_t))
       (fmul f32 (fmul f32 (fdiv f32 acc f2) delta_t) delta_t)"

definition motor_controller_vel_setpt_interpolation :: "fp \<Rightarrow> fp \<Rightarrow> fp \<Rightarrow> fp" where
  "motor_controller_vel_setpt_interpolation vel acc delta_t = fadd f32 vel (fmul f32 acc delta_t)"

definition motor_controller_vel_ramp :: "fp \<Rightarrow> fp \<Rightarrow> fp \<Rightarrow> fp \<Rightarrow> fp \<Rightarrow> fp \<Rightarrow> fp" where
  "motor_controller_vel_ramp pos vel target_pos delta_t max_vel max_acc =
     (let breaking_dist = fdiv f32 (fdiv f32 (fmul f32 vel vel) f2) max_acc;
          err = fsub f32 pos target_pos;
          error_sign = copysign fone err;
          close = fdiv f32 (fmul f32 (fmul f32 max_acc delta_t) delta_t) f2;
          stop = fneg (motor_controller_limit_symmetric (fdiv f32 vel delta_t) max_acc)
      in if \<not> feq error_sign (copysign fone vel)
         then if fle (fabs err) breaking_dist \<or> fle (fabs err) close then stop
              else if fle max_vel (fabs vel) then fzero
              else fmul f32 (fneg error_sign) max_acc
         else if fle (fabs err) close then stop
              else fmul f32 (fneg error_sign) max_acc)"

subsection \<open>One control cycle\<close>

definition time_step :: "('q, 'p) ctl_lib \<Rightarrow> 'p \<Rightarrow> fp" where
  "time_step L p = f_conv f32 (fdiv f64 (f_of_int f64 1) (f_conv f64 (pid_frequency L p)))"

definition position_control ::
  "('q, 'p) ctl_lib \<Rightarrow> 'e \<Rightarrow> fp \<Rightarrow> fp \<Rightarrow> ('q, 'p, 'e) motor_controller \<Rightarrow> ('q, 'p, 'e) motor_controller option" where
  "position_control L e max_velocity max_acceleration c =
     map_option (\<lambda>counter.
       let p = (position c)\<lparr>divider_counter := counter\<rparr>; v = velocity c in
       if MOTOR_CONTROLLER_POSITION \<le> ctl_mode c \<and> divider p \<le> counter
       then let delta_t = time_step L (pid p);
                acc = motor_controller_vel_ramp (setpoint p) (target_setpoint v) (target_setpoint p)
                        delta_t max_velocity max_acceleration;
                pos_setpoint = motor_controller_pos_setpt_interpolation (setpoint p) (target_setpoint v) acc delta_t;
                vel_target = motor_controller_vel_setpt_interpolation (target_setpoint v) acc delta_t;
                err = fsub f32 (safe_get e p) pos_setpoint;
                (out, ctrl) = pid_process L (pid p) err
            in c\<lparr>position := p\<lparr>divider_counter := 0, setpoint := pos_setpoint, loop_error := err, pid := ctrl\<rparr>,
                 velocity := v\<lparr>target_setpoint := vel_target, setpoint := fadd f32 vel_target out\<rparr>\<rparr>
       else c\<lparr>position := p\<rparr>)
     (int_incr (divider_counter (position c)))"

definition velocity_ramp ::
  "('q, 'p) ctl_lib \<Rightarrow> fp \<Rightarrow> fp \<Rightarrow> ('q, 'p, 'e) motor_controller \<Rightarrow> ('q, 'p, 'e) motor_controller" where
  "velocity_ramp L max_velocity max_acceleration c =
     (if ctl_mode c = MOTOR_CONTROLLER_VELOCITY
      then let v = velocity c;
               delta_t = time_step L (pid v);
               target = motor_controller_limit_symmetric (target_setpoint v) max_velocity;
               delta = motor_controller_limit_symmetric (fsub f32 target (setpoint v))
                         (fmul f32 delta_t max_acceleration)
           in c\<lparr>velocity := v\<lparr>target_setpoint := target, setpoint := fadd f32 (setpoint v) delta\<rparr>\<rparr>
      else c)"

definition velocity_control ::
  "('q, 'p) ctl_lib \<Rightarrow> 'e \<Rightarrow> ('q, 'p, 'e) motor_controller \<Rightarrow> ('q, 'p, 'e) motor_controller option" where
  "velocity_control L e c =
     map_option (\<lambda>counter.
       let v = (velocity c)\<lparr>divider_counter := counter\<rparr> in
       if MOTOR_CONTROLLER_VELOCITY \<le> ctl_mode c \<and> divider v \<le> counter
       then let err = fsub f32 (safe_get e v) (setpoint v);
                (out, ctrl) = pid_process L (pid v) err
            in c\<lparr>velocity := v\<lparr>divider_counter := 0, loop_error := err, pid := ctrl\<rparr>,
                 current := (current c)\<lparr>setpoint := out\<rparr>\<rparr>
       else c\<lparr>velocity := v\<rparr>)
     (int_incr (divider_counter (velocity c)))"

definition current_control ::
  "('q, 'p) ctl_lib \<Rightarrow> 'e \<Rightarrow> ('q, 'p, 'e) motor_controller \<Rightarrow> fp \<times> ('q, 'p, 'e) motor_controller" where
  "current_control L e c =
     (let (max_current, lc) = parameter_scalar_get L (limits_current c);
          i = current c;
          sp = (if ctl_mode c = MOTOR_CONTROLLER_CURRENT then target_setpoint i else setpoint i);
          sp = motor_controller_limit_symmetric sp max_current;
          err = fsub f32 (safe_get e i) sp;
          (out, ctrl) = pid_process L (pid i) err
      in (out, c\<lparr>limits_current := lc, current := i\<lparr>setpoint := sp, loop_error := err, pid := ctrl\<rparr>\<rparr>))"

definition motor_controller_process ::
  "('q, 'p) ctl_lib \<Rightarrow> 'e \<Rightarrow> ('q, 'p, 'e) motor_controller \<Rightarrow> (fp \<times> ('q, 'p, 'e) motor_controller) option" where
  "motor_controller_process L e c =
     (let c = c\<lparr>position := loop_param_update L (position c), velocity := loop_param_update L (velocity c),
               current := loop_param_update L (current c)\<rparr>;
          (max_velocity, lv) = parameter_scalar_get L (limits_velocity c);
          (max_acceleration, la) = parameter_scalar_get L (limits_acceleration c);
          c = c\<lparr>limits_velocity := lv, limits_acceleration := la\<rparr>
      in Option.bind (position_control L e max_velocity max_acceleration c) (\<lambda>c.
         Option.bind (velocity_control L e (velocity_ramp L max_velocity max_acceleration c)) (\<lambda>c.
         Some (current_control L e c))))"

fun motor_controller_run ::
  "('q, 'p) ctl_lib \<Rightarrow> 'e list \<Rightarrow> ('q, 'p, 'e) motor_controller \<Rightarrow> ('q, 'p, 'e) motor_controller option" where
  "motor_controller_run L [] c = Some c"
| "motor_controller_run L (e # es) c =
     Option.bind (motor_controller_process L e c) (\<lambda>(out, c). motor_controller_run L es c)"

text \<open>Switching the mode calls the getters without a test for null.\<close>

definition call_get :: "'e \<Rightarrow> ('q, 'p, 'e) ctl_loop \<Rightarrow> fp option" where
  "call_get e l = map_option (\<lambda>g. g (get_arg l) e) (getter l)"

definition motor_controller_set_mode ::
  "'e \<Rightarrow> u32 \<Rightarrow> ('q, 'p, 'e) motor_controller \<Rightarrow> ('q, 'p, 'e) motor_controller option" where
  "motor_controller_set_mode e mode c = (case mode_of_word mode of
     Some MOTOR_CONTROLLER_POSITION \<Rightarrow>
       (if ctl_mode c < MOTOR_CONTROLLER_POSITION
        then Option.bind (call_get e (position c)) (\<lambda>p. Option.bind (call_get e (velocity c)) (\<lambda>v.
          Some (c\<lparr>position := (position c)\<lparr>setpoint := p\<rparr>,
                  velocity := (velocity c)\<lparr>target_setpoint := v\<rparr>, ctl_mode := MOTOR_CONTROLLER_POSITION\<rparr>)))
        else Some (c\<lparr>ctl_mode := MOTOR_CONTROLLER_POSITION\<rparr>))
   | Some MOTOR_CONTROLLER_VELOCITY \<Rightarrow>
       (if ctl_mode c < MOTOR_CONTROLLER_VELOCITY
        then Option.bind (call_get e (velocity c)) (\<lambda>v.
          Some (c\<lparr>velocity := (velocity c)\<lparr>setpoint := v\<rparr>, ctl_mode := MOTOR_CONTROLLER_VELOCITY\<rparr>))
        else Some (c\<lparr>ctl_mode := MOTOR_CONTROLLER_VELOCITY\<rparr>))
   | Some MOTOR_CONTROLLER_CURRENT \<Rightarrow> Some (c\<lparr>ctl_mode := MOTOR_CONTROLLER_CURRENT\<rparr>)
   | None \<Rightarrow> Some c)"

subsection \<open>Limits and ramps\<close>

lemma limit_symmetric_bound:
  assumes "fle fzero l"
  shows "\<not> flt l (fabs (motor_controller_limit_symmetric v l))"
  using assms by (cases l; cases v) (auto simp: motor_controller_limit_symmetric_def split: if_splits)

lemma limit_symmetric_id:
  "in_fmt F v \<Longrightarrow> \<not> flt l (fabs v) \<Longrightarrow> motor_controller_limit_symmetric v l = v"
  by (cases l; cases v) (auto simp: motor_controller_limit_symmetric_def split: if_splits)

lemma fabs_fneg [simp]: "fabs (fneg x) = fabs x"
  by (cases x) auto

lemma copysign_fone: "copysign fone x = FFin (signbit x) 1"
  by (simp add: copysign_def)

lemma vel_ramp_bound:
  assumes "fle fzero max_acc" "in_fmt f32 max_acc"
  shows "\<not> flt max_acc (fabs (motor_controller_vel_ramp pos vel target dt max_vel max_acc))"
proof -
  have s: "fmul f32 (FFin s 1) max_acc = (if s then fneg max_acc else max_acc)" for s
    using assms fle_not_nan[OF assms(1)] by (intro fmul_sign) auto
  have m: "\<not> flt max_acc (fabs max_acc)" using assms(1) by (cases max_acc) auto
  have z: "\<not> flt max_acc fzero" using assms(1) by (cases max_acc) auto
  show ?thesis
    using limit_symmetric_bound[OF assms(1), of "fdiv f32 vel dt"] m z s
    unfolding motor_controller_vel_ramp_def Let_def copysign_fone
    by (auto simp del: fmul.simps fle.simps flt.simps)
qed

subsection \<open>The stages\<close>

lemma loop_param_update_simps [simp]:
  "target_setpoint (loop_param_update L l) = target_setpoint l" "setpoint (loop_param_update L l) = setpoint l"
  "getter (loop_param_update L l) = getter l" "get_arg (loop_param_update L l) = get_arg l"
  "divider (loop_param_update L l) = divider l" "divider_counter (loop_param_update L l) = divider_counter l"
  by (simp_all add: loop_param_update_def split: prod.splits)

definition next_counter :: "motor_controller_mode \<Rightarrow> motor_controller_mode \<Rightarrow> ('q, 'p, 'e) ctl_loop \<Rightarrow> int" where
  "next_counter level m l = (if level \<le> m \<and> divider l \<le> divider_counter l + 1 then 0 else divider_counter l + 1)"

lemma position_control_SomeD:
  assumes "position_control L e mv ma c = Some c'"
  shows "ctl_mode c' = ctl_mode c \<and> divider (position c') = divider (position c)
    \<and> divider_counter (position c') = next_counter MOTOR_CONTROLLER_POSITION (ctl_mode c) (position c)
    \<and> divider_counter (position c) < 2 ^ 31 - 1
    \<and> divider (velocity c') = divider (velocity c) \<and> divider_counter (velocity c') = divider_counter (velocity c)
    \<and> pid (velocity c') = pid (velocity c)
    \<and> limits_current c' = limits_current c \<and> current c' = current c
    \<and> (ctl_mode c \<noteq> MOTOR_CONTROLLER_POSITION \<longrightarrow> velocity c' = velocity c)"
  using assms
  by (auto simp: position_control_def int_incr_def next_counter_def Let_def mode_order split: if_splits prod.splits)
    (cases "ctl_mode c"; simp)+

lemma velocity_ramp_simps [simp]:
  "ctl_mode (velocity_ramp L mv ma c) = ctl_mode c" "position (velocity_ramp L mv ma c) = position c"
  "current (velocity_ramp L mv ma c) = current c" "limits_current (velocity_ramp L mv ma c) = limits_current c"
  "divider (velocity (velocity_ramp L mv ma c)) = divider (velocity c)"
  "divider_counter (velocity (velocity_ramp L mv ma c)) = divider_counter (velocity c)"
  by (simp_all add: velocity_ramp_def Let_def)

lemma velocity_control_SomeD:
  assumes "velocity_control L e c = Some c'"
  shows "ctl_mode c' = ctl_mode c \<and> position c' = position c \<and> divider (velocity c') = divider (velocity c)
    \<and> divider_counter (velocity c') = next_counter MOTOR_CONTROLLER_VELOCITY (ctl_mode c) (velocity c)
    \<and> divider_counter (velocity c) < 2 ^ 31 - 1 \<and> limits_current c' = limits_current c
    \<and> setpoint (velocity c') = setpoint (velocity c) \<and> target_setpoint (velocity c') = target_setpoint (velocity c)"
  using assms
  by (auto simp: velocity_control_def int_incr_def next_counter_def Let_def split: if_splits prod.splits)

lemma current_control_simps:
  assumes "current_control L e c = (out, c')"
  shows "ctl_mode c' = ctl_mode c \<and> position c' = position c \<and> velocity c' = velocity c
    \<and> setpoint (current c') = motor_controller_limit_symmetric
        (if ctl_mode c = MOTOR_CONTROLLER_CURRENT then target_setpoint (current c) else setpoint (current c))
        (fst (parameter_scalar_get L (limits_current c)))"
  using assms by (auto simp: current_control_def Let_def split: prod.splits)

text \<open>The controller after the updates that open a cycle, and the two limits read there.\<close>

definition process_open ::
  "('q, 'p) ctl_lib \<Rightarrow> ('q, 'p, 'e) motor_controller \<Rightarrow> fp \<times> fp \<times> ('q, 'p, 'e) motor_controller" where
  "process_open L c =
     (let (mv, lv) = parameter_scalar_get L (limits_velocity c); (ma, la) = parameter_scalar_get L (limits_acceleration c)
      in (mv, ma, c\<lparr>position := loop_param_update L (position c), velocity := loop_param_update L (velocity c),
          current := loop_param_update L (current c), limits_velocity := lv, limits_acceleration := la\<rparr>))"

lemma process_open_simps:
  assumes "process_open L c = (mv, ma, c0)"
  shows "ctl_mode c0 = ctl_mode c" "limits_current c0 = limits_current c"
    "position c0 = loop_param_update L (position c)" "velocity c0 = loop_param_update L (velocity c)"
    "current c0 = loop_param_update L (current c)"
    "mv = fst (parameter_scalar_get L (limits_velocity c))" "ma = fst (parameter_scalar_get L (limits_acceleration c))"
  using assms by (auto simp: process_open_def split: prod.splits)

lemma process_eq:
  "motor_controller_process L e c = (let (mv, ma, c0) = process_open L c in
     Option.bind (position_control L e mv ma c0) (\<lambda>c1.
     Option.bind (velocity_control L e (velocity_ramp L mv ma c1)) (\<lambda>c2. Some (current_control L e c2))))"
  by (simp add: motor_controller_process_def process_open_def Let_def split: prod.splits)

lemma process_stages:
  assumes "motor_controller_process L e c = Some (out, c')"
  obtains mv ma c0 c1 c2 where "process_open L c = (mv, ma, c0)" "position_control L e mv ma c0 = Some c1"
    "velocity_control L e (velocity_ramp L mv ma c1) = Some c2" "current_control L e c2 = (out, c')"
proof -
  obtain mv ma c0 where o: "process_open L c = (mv, ma, c0)" by (cases "process_open L c")
  then show ?thesis using assms that by (auto simp: process_eq option_bind_simps)
qed

lemma process_SomeD:
  assumes "motor_controller_process L e c = Some (out, c')"
  shows "ctl_mode c' = ctl_mode c"
    and "divider (position c') = divider (position c)" "divider (velocity c') = divider (velocity c)"
    and "divider_counter (position c') = next_counter MOTOR_CONTROLLER_POSITION (ctl_mode c) (position c)"
    and "divider_counter (velocity c') = next_counter MOTOR_CONTROLLER_VELOCITY (ctl_mode c) (velocity c)"
    and "divider_counter (position c) < 2 ^ 31 - 1" "divider_counter (velocity c) < 2 ^ 31 - 1"
    and "\<exists>x. setpoint (current c') = motor_controller_limit_symmetric x (fst (parameter_scalar_get L (limits_current c)))"
proof -
  obtain mv ma c0 c1 c2 where st: "process_open L c = (mv, ma, c0)" "position_control L e mv ma c0 = Some c1"
      "velocity_control L e (velocity_ramp L mv ma c1) = Some c2" "current_control L e c2 = (out, c')"
    by (rule process_stages[OF assms])
  note facts = process_open_simps[OF st(1)] position_control_SomeD[OF st(2)] velocity_control_SomeD[OF st(3)]
    current_control_simps[OF st(4)]
  show "ctl_mode c' = ctl_mode c" using facts by simp
  show "divider (position c') = divider (position c)" "divider (velocity c') = divider (velocity c)"
    using facts by simp_all
  show "divider_counter (position c') = next_counter MOTOR_CONTROLLER_POSITION (ctl_mode c) (position c)"
    "divider_counter (velocity c') = next_counter MOTOR_CONTROLLER_VELOCITY (ctl_mode c) (velocity c)"
    "divider_counter (position c) < 2 ^ 31 - 1" "divider_counter (velocity c) < 2 ^ 31 - 1"
    using facts by (simp_all add: next_counter_def)
  show "\<exists>x. setpoint (current c') = motor_controller_limit_symmetric x (fst (parameter_scalar_get L (limits_current c)))"
    using facts by auto
qed

lemma process_Some:
  assumes "divider_counter (position c) < 2 ^ 31 - 1" "divider_counter (velocity c) < 2 ^ 31 - 1"
  shows "\<exists>out c'. motor_controller_process L e c = Some (out, c')"
proof -
  obtain mv ma c0 where o: "process_open L c = (mv, ma, c0)" by (cases "process_open L c")
  note c0 = process_open_simps[OF o]
  obtain c1 where c1: "position_control L e mv ma c0 = Some c1"
    using assms c0 by (simp add: position_control_def int_incr_def)
  then obtain c2 where "velocity_control L e (velocity_ramp L mv ma c1) = Some c2"
    using assms c0 position_control_SomeD[OF c1] by (simp add: velocity_control_def int_incr_def)
  with o c1 show ?thesis by (simp add: process_eq)
qed

subsection \<open>The divider counters\<close>

lemma next_counter_mod:
  assumes "level \<le> m" "1 \<le> divider l" "divider_counter l = n mod divider l"
  shows "next_counter level m l = (n + 1) mod divider l"
proof -
  let ?d = "divider l"
  have e: "(n + 1) mod ?d = (n mod ?d + 1) mod ?d" by (simp add: mod_add_left_eq)
  have b: "0 \<le> n mod ?d" "n mod ?d < ?d" using assms(2) by auto
  show ?thesis
  proof (cases "n mod ?d + 1 = ?d")
    case True
    then show ?thesis using e assms b by (simp add: next_counter_def)
  next
    case False
    then have "(n mod ?d + 1) mod ?d = n mod ?d + 1" using b by (intro mod_pos_pos_trivial) auto
    then show ?thesis using e assms b False by (simp add: next_counter_def)
  qed
qed

lemma run_velocity_counter:
  assumes "motor_controller_run L es c = Some c'" "MOTOR_CONTROLLER_VELOCITY \<le> ctl_mode c"
    and "1 \<le> divider (velocity c)" "divider_counter (velocity c) = n mod divider (velocity c)"
  shows "divider_counter (velocity c') = (n + int (length es)) mod divider (velocity c)"
  using assms
proof (induction es arbitrary: c n)
  case (Cons e es)
  obtain out c1 where c1: "motor_controller_process L e c = Some (out, c1)" "motor_controller_run L es c1 = Some c'"
    using Cons.prems(1) by (auto simp: option_bind_simps)
  note s = process_SomeD[OF c1(1)]
  have "divider_counter (velocity c1) = (n + 1) mod divider (velocity c1)"
    unfolding s by (rule next_counter_mod[OF Cons.prems(2-4)])
  from Cons.IH[OF c1(2) _ _ this] Cons.prems(2,3) show ?case by (simp add: s(1-5) add.assoc)
qed simp

lemma run_position_counter:
  assumes "motor_controller_run L es c = Some c'" "MOTOR_CONTROLLER_POSITION \<le> ctl_mode c"
    and "1 \<le> divider (position c)" "divider_counter (position c) = n mod divider (position c)"
  shows "divider_counter (position c') = (n + int (length es)) mod divider (position c)"
  using assms
proof (induction es arbitrary: c n)
  case (Cons e es)
  obtain out c1 where c1: "motor_controller_process L e c = Some (out, c1)" "motor_controller_run L es c1 = Some c'"
    using Cons.prems(1) by (auto simp: option_bind_simps)
  note s = process_SomeD[OF c1(1)]
  have "divider_counter (position c1) = (n + 1) mod divider (position c1)"
    unfolding s by (rule next_counter_mod[OF Cons.prems(2-4)])
  from Cons.IH[OF c1(2) _ _ this] Cons.prems(2,3) show ?case by (simp add: s(1-5) add.assoc)
qed simp

lemma run_position_total:
  assumes "ctl_mode c = MOTOR_CONTROLLER_POSITION" "divider (position c) < 2 ^ 31" "divider (velocity c) < 2 ^ 31"
    and "divider_counter (position c) < 2 ^ 31 - 1" "divider_counter (velocity c) < 2 ^ 31 - 1"
  shows "\<exists>c'. motor_controller_run L es c = Some c'"
  using assms
proof (induction es arbitrary: c)
  case (Cons e es)
  obtain out c1 where c1: "motor_controller_process L e c = Some (out, c1)"
    using process_Some[OF Cons.prems(4,5), of L e] by auto
  note s = process_SomeD[OF c1]
  have "\<exists>c'. motor_controller_run L es c1 = Some c'"
    by (rule Cons.IH) (use s(1-5) Cons.prems in \<open>simp_all add: next_counter_def mode_order\<close>)
  with c1 show ?case by simp
qed simp

lemma run_counter_overflow:
  assumes "ctl_mode c \<noteq> MOTOR_CONTROLLER_POSITION" "0 \<le> divider_counter (position c)"
    and "2 ^ 31 \<le> divider_counter (position c) + int (length es)" "divider_counter (position c) < 2 ^ 31"
  shows "motor_controller_run L es c = None"
proof (rule ccontr)
  have "divider_counter (position c) + int (length es) < 2 ^ 31"
    if "motor_controller_run L es c = Some c'" "ctl_mode c \<noteq> MOTOR_CONTROLLER_POSITION" "divider_counter (position c) < 2 ^ 31" for c c'
    using that
  proof (induction es arbitrary: c)
    case (Cons e es)
    then obtain out c1 where c1: "motor_controller_process L e c = Some (out, c1)" "motor_controller_run L es c1 = Some c'"
      by (auto simp: option_bind_simps)
    note s = process_SomeD[OF c1(1)]
    have "divider_counter (position c1) = divider_counter (position c) + 1"
      using s(4) Cons.prems(2) by (cases "ctl_mode c") (auto simp: next_counter_def mode_order)
    with Cons.IH[OF c1(2)] s Cons.prems(2) show ?case by simp
  qed simp
  moreover assume "motor_controller_run L es c \<noteq> None"
  ultimately show False using assms by fastforce
qed

subsection \<open>The velocity setpoint\<close>

lemma process_velocity_mode:
  assumes "motor_controller_process L e c = Some (out, c')" "ctl_mode c = MOTOR_CONTROLLER_VELOCITY"
  defines "v \<equiv> velocity c"
    and "target \<equiv> motor_controller_limit_symmetric (target_setpoint (velocity c)) (fst (parameter_scalar_get L (limits_velocity c)))"
  shows "target_setpoint (velocity c') = target"
    and "setpoint (velocity c') = fadd f32 (setpoint v) (motor_controller_limit_symmetric (fsub f32 target (setpoint v))
      (fmul f32 (time_step L (pid (loop_param_update L v))) (fst (parameter_scalar_get L (limits_acceleration c)))))"
proof -
  obtain mv ma c0 c1 c2 where st: "process_open L c = (mv, ma, c0)" "position_control L e mv ma c0 = Some c1"
      "velocity_control L e (velocity_ramp L mv ma c1) = Some c2" "current_control L e c2 = (out, c')"
    by (rule process_stages[OF assms(1)])
  note facts = process_open_simps[OF st(1)] position_control_SomeD[OF st(2)] velocity_control_SomeD[OF st(3)]
    current_control_simps[OF st(4)]
  have "ctl_mode c1 = MOTOR_CONTROLLER_VELOCITY" "velocity c1 = loop_param_update L (velocity c)"
    using facts assms(2) by simp_all
  then show "target_setpoint (velocity c') = target"
    and "setpoint (velocity c') = fadd f32 (setpoint v) (motor_controller_limit_symmetric (fsub f32 target (setpoint v))
      (fmul f32 (time_step L (pid (loop_param_update L v))) (fst (parameter_scalar_get L (limits_acceleration c)))))"
    using facts by (simp_all add: velocity_ramp_def Let_def target_def v_def)
qed

subsection \<open>The position setpoint without an acceleration limit\<close>

lemma f2_finite: "f2 = FFin False 2"
  by code_simp

lemma vel_ramp_unlimited:
  assumes "0 < dt"
  shows "\<exists>a. motor_controller_vel_ramp (FFin s m) (FFin z 0) (FFin t n) (FFin False dt) max_vel (FInf False) = FFin a 0"
proof -
  have "\<not> is_nan (fsub f32 (FFin s m) (FFin t n))"
    by (simp add: fround_signed_def Let_def)
  then have c: "fle (fabs (fsub f32 (FFin s m) (FFin t n))) (FInf False)"
    by (cases "fsub f32 (FFin s m) (FFin t n)") simp_all
  have d: "fdiv f32 (fmul f32 (fmul f32 (FInf False) (FFin False dt)) (FFin False dt)) f2 = FInf False"
    using assms by (simp add: f2_finite)
  have "fdiv f32 (FFin z 0) (FFin False dt) = FFin z 0"
    using assms by simp
  then have l: "motor_controller_limit_symmetric (fdiv f32 (FFin z 0) (FFin False dt)) (FInf False) = FFin z 0"
    by (simp only:) (simp add: motor_controller_limit_symmetric_def)
  show ?thesis
    unfolding motor_controller_vel_ramp_def Let_def d l by (simp add: c del: fsub.simps fle.simps fdiv.simps fmul.simps)
qed

lemma fadd_zero:
  assumes "in_fmt f32 (FFin s m)"
  shows "\<exists>s'. fadd f32 (FFin s m) (FFin z 0) = FFin s' m \<and> sval s' m = sval s m"
proof (cases "m = 0")
  case False
  then have "0 < m" using assms by simp
  then show ?thesis
    using assms by (intro exI[of _ s], cases s) (simp_all add: fround_signed_def fround_in_fmt del: in_fmt.simps)
next
  case True
  then show ?thesis by (intro exI[of _ "s \<and> z"]) simp
qed

lemma process_position_unlimited:
  assumes "motor_controller_process L e c = Some (out, c')" "ctl_mode c = MOTOR_CONTROLLER_POSITION"
    and "fst (parameter_scalar_get L (limits_acceleration c)) = FInf False"
    and "time_step L (pid (loop_param_update L (position c))) = FFin False dt" "0 < dt"
    and sp: "setpoint (position c) = FFin s m" "in_fmt f32 (FFin s m)"
    and "target_setpoint (position c) = FFin t n" "target_setpoint (velocity c) = FFin z 0"
  shows "feq (setpoint (position c')) (setpoint (position c)) \<and> (\<exists>z. target_setpoint (velocity c') = FFin z 0)"
proof -
  obtain mv ma c0 c1 c2 where st: "process_open L c = (mv, ma, c0)" "position_control L e mv ma c0 = Some c1"
      "velocity_control L e (velocity_ramp L mv ma c1) = Some c2" "current_control L e c2 = (out, c')"
    by (rule process_stages[OF assms(1)])
  note facts = process_open_simps[OF st(1)] position_control_SomeD[OF st(2)] velocity_control_SomeD[OF st(3)]
    current_control_simps[OF st(4)]
  have late: "position c' = position c1" "target_setpoint (velocity c') = target_setpoint (velocity c1)"
    using facts assms(2) by (simp_all add: velocity_ramp_def)
  obtain a where a: "motor_controller_vel_ramp (FFin s m) (FFin z 0) (FFin t n) (FFin False dt) mv (FInf False) = FFin a 0"
    using vel_ramp_unlimited[OF assms(5)] by blast
  have ma: "ma = FInf False" using facts assms(3) by simp
  obtain u where u: "fadd f32 (FFin s m) (FFin z 0) = FFin u m" "sval u m = sval s m" using fadd_zero[OF sp(2)] by blast
  have "in_fmt f32 (FFin u m)" using sp(2) by simp
  from fadd_zero[OF this] obtain w where w: "fadd f32 (FFin u m) (FFin a 0) = FFin w m" "sval w m = sval u m" by blast
  have p: "motor_controller_pos_setpt_interpolation (FFin s m) (FFin z 0) (FFin a 0) (FFin False dt) = FFin w m"
    using u(1) w(1) by (simp add: motor_controller_pos_setpt_interpolation_def f2_finite del: fadd.simps)
  have v: "\<exists>z'. motor_controller_vel_setpt_interpolation (FFin z 0) (FFin a 0) (FFin False dt) = FFin z' 0"
    by (rule exI[of _ "z \<and> a"]) (simp add: motor_controller_vel_setpt_interpolation_def)
  have "feq (setpoint (position c1)) (setpoint (position c)) \<and> (\<exists>z. target_setpoint (velocity c1) = FFin z 0)"
    using st(2) facts(1-5) assms(2,4,8,9) sp a ma p v u(2) w(2)
    by (auto simp: position_control_def Let_def int_incr_def split: if_splits prod.splits)
  then show ?thesis by (simp add: late)
qed

subsection \<open>A concrete library\<close>

text \<open>Parameters with a value and a changed flag, and a proportional controller with its frequency.\<close>

definition ref_ctl_lib :: "(fp \<times> bool, fp \<times> fp) ctl_lib" where
  "ref_ctl_lib = \<lparr>parameter_changed = snd, parameter_scalar_get = (\<lambda>q. (fst q, (fst q, False))),
     parameter_scalar_default = (\<lambda>v. (v, True)), pid_init = (fzero, fone),
     pid_set_gains = (\<lambda>k _ _ p. (k, snd p)), pid_reset_integral = (\<lambda>p. p),
     pid_set_integral_limit = (\<lambda>_ p. p), pid_set_frequency = (\<lambda>f p. (fst p, f)),
     pid_process = (\<lambda>p e. (fmul f32 (fst p) e, p)), pid_frequency = snd\<rparr>"

definition ref_controller :: "motor_controller_mode \<Rightarrow> (fp \<times> bool, fp \<times> fp, fp) motor_controller" where
  "ref_controller m = (let c = motor_controller_set_frequency ref_ctl_lib (FFin False 1000)
       (motor_controller_set_prescaler 10 10 (motor_controller_init ref_ctl_lib))
     in c\<lparr>ctl_mode := m,
       position := (position c)\<lparr>target_setpoint := FFin False 3, getter := Some (\<lambda>_ e. e)\<rparr>,
       velocity := (velocity c)\<lparr>getter := Some (\<lambda>_ e. e)\<rparr>\<rparr>)"

lemma ref_controller_fields [simp]:
  "ctl_mode (ref_controller m) = m" "divider (position (ref_controller m)) = 10"
  "divider (velocity (ref_controller m)) = 10" "divider_counter (position (ref_controller m)) = 0"
  "divider_counter (velocity (ref_controller m)) = 0"
  "limits_current (ref_controller m) = (FInf False, True)"
  "limits_acceleration (ref_controller m) = (FInf False, True)"
  "setpoint (position (ref_controller m)) = fzero" "target_setpoint (position (ref_controller m)) = FFin False 3"
  "target_setpoint (velocity (ref_controller m)) = fzero"
  "getter (position (ref_controller m)) = Some (\<lambda>_ e. e)" "getter (velocity (ref_controller m)) = Some (\<lambda>_ e. e)"
  by (simp_all add: ref_controller_def motor_controller_set_prescaler_def motor_controller_init_def loop_init_def
      motor_controller_set_frequency_def ref_ctl_lib_def Let_def)

subsection \<open>Properties\<close>

text \<open>C8. Whatever the mode, the measurements and the PID filters do, a control cycle leaves a current
  setpoint whose magnitude does not exceed the current limit (a limit that is not a NaN and not negative).\<close>
theorem current_setpoint_limited:
  assumes "motor_controller_process L e c = Some (out, c')"
    and "fle fzero (fst (parameter_scalar_get L (limits_current c)))"
  shows "\<not> flt (fst (parameter_scalar_get L (limits_current c))) (fabs (setpoint (current c')))"
  using process_SomeD(8)[OF assms(1)] limit_symmetric_bound[OF assms(2)] by auto

lemma current_setpoint_limited_witness:
  "\<exists>out c'. motor_controller_process ref_ctl_lib fzero (ref_controller MOTOR_CONTROLLER_VELOCITY) = Some (out, c')
    \<and> \<not> flt (FInf False) (fabs (setpoint (current c')))"
proof -
  obtain out c' where p: "motor_controller_process ref_ctl_lib fzero (ref_controller MOTOR_CONTROLLER_VELOCITY) = Some (out, c')"
    using process_Some[of "ref_controller MOTOR_CONTROLLER_VELOCITY" ref_ctl_lib fzero] by auto
  from current_setpoint_limited[OF p] p show ?thesis by (simp add: ref_ctl_lib_def)
qed

text \<open>The acceleration chosen by the position ramp never exceeds the acceleration limit, on every
  branch and for every position, velocity, target and period, NaN and infinities included.\<close>
lemma vel_ramp_within_limit:
  assumes "fle fzero max_acc" "in_fmt f32 max_acc"
  shows "\<not> flt max_acc (fabs (motor_controller_vel_ramp pos vel target dt max_vel max_acc))"
  by (rule vel_ramp_bound[OF assms])

lemma vel_ramp_within_limit_witness:
  "\<not> flt (FFin False 10) (fabs (motor_controller_vel_ramp fzero fone (FFin False 3) (FFin False (1 / 100)) (FInf False) (FFin False 10)))"
proof (rule vel_ramp_within_limit)
  show "in_fmt f32 (FFin False 10)" by code_simp
qed simp



text \<open>In position mode the controller runs for ever: no counter overflows, whatever the measurements.
  In the two other modes the counter of the position loop is never reset, so after at most \<open>2 ^ 31\<close>
  cycles (25 days at 1 kHz) the increment overflows, which is undefined behaviour.\<close>
lemma prescaler_overflow:
  assumes "0 \<le> divider_counter (position c)" "divider_counter (position c) < 2 ^ 31 - 1"
    and "divider_counter (velocity c) < 2 ^ 31 - 1"
    and "divider (position c) < 2 ^ 31" "divider (velocity c) < 2 ^ 31"
  shows "(ctl_mode c = MOTOR_CONTROLLER_POSITION \<longrightarrow> (\<exists>c'. motor_controller_run L es c = Some c'))
    \<and> (ctl_mode c \<noteq> MOTOR_CONTROLLER_POSITION \<and> 2 ^ 31 \<le> length es \<longrightarrow> motor_controller_run L es c = None)"
proof (intro conjI impI)
  show "\<exists>c'. motor_controller_run L es c = Some c'" if "ctl_mode c = MOTOR_CONTROLLER_POSITION"
    by (rule run_position_total) (use assms that in simp_all)
  assume m: "ctl_mode c \<noteq> MOTOR_CONTROLLER_POSITION \<and> 2 ^ 31 \<le> length es"
  then have "(2 :: int) ^ 31 \<le> int (length es)" by simp
  then show "motor_controller_run L es c = None"
    using assms(1,2) m by (intro run_counter_overflow) simp_all
qed

lemma prescaler_overflow_witness:
  "(\<exists>c'. motor_controller_run ref_ctl_lib (replicate 100 fzero) (ref_controller MOTOR_CONTROLLER_POSITION) = Some c')
    \<and> motor_controller_run ref_ctl_lib (replicate (2 ^ 31) fzero) (ref_controller MOTOR_CONTROLLER_CURRENT) = None"
  using prescaler_overflow[of "ref_controller MOTOR_CONTROLLER_POSITION" ref_ctl_lib "replicate 100 fzero"]
    prescaler_overflow[of "ref_controller MOTOR_CONTROLLER_CURRENT" ref_ctl_lib "replicate (2 ^ 31) fzero"]
  by simp



text \<open>With the acceleration limit left at its declared default, infinity, position mode never moves:
  from rest, a cycle keeps the position setpoint and the velocity target where they are, whatever the
  position that was asked for.\<close>
lemma position_mode_stuck_without_limit:
  assumes "motor_controller_process L e c = Some (out, c')" "ctl_mode c = MOTOR_CONTROLLER_POSITION"
    and "fst (parameter_scalar_get L (limits_acceleration c)) = FInf False"
    and "time_step L (pid (loop_param_update L (position c))) = FFin False dt" "0 < dt"
    and "setpoint (position c) = FFin s m" "in_fmt f32 (FFin s m)"
    and "target_setpoint (position c) = FFin t n" "target_setpoint (velocity c) = FFin z 0"
  shows "feq (setpoint (position c')) (setpoint (position c)) \<and> (\<exists>z. target_setpoint (velocity c') = FFin z 0)"
  by (rule process_position_unlimited[OF assms])

lemma position_mode_stuck_without_limit_witness:
  "\<exists>out c'. motor_controller_process ref_ctl_lib fone (ref_controller MOTOR_CONTROLLER_POSITION) = Some (out, c')
    \<and> feq (setpoint (position c')) fzero \<and> (\<exists>z. target_setpoint (velocity c') = FFin z 0)"
proof -
  obtain out c' where p: "motor_controller_process ref_ctl_lib fone (ref_controller MOTOR_CONTROLLER_POSITION) = Some (out, c')"
    using process_Some[of "ref_controller MOTOR_CONTROLLER_POSITION" ref_ctl_lib fone] by auto
  have "snd (pid (loop_param_update ref_ctl_lib (position (ref_controller MOTOR_CONTROLLER_POSITION))))
      = fdiv f32 (FFin False 1000) (f_of_int f32 10)"
    by (simp add: ref_controller_def motor_controller_set_prescaler_def motor_controller_init_def loop_init_def
      motor_controller_set_frequency_def ref_ctl_lib_def Let_def loop_param_update_def pid_param_update_def pid_param_declare_def)
  moreover have "f_conv f32 (fdiv f64 (f_of_int f64 1) (f_conv f64 (fdiv f32 (FFin False 1000) (f_of_int f32 10))))
      = FFin False (5368709 / 536870912)"
    by code_simp
  ultimately have "time_step ref_ctl_lib (pid (loop_param_update ref_ctl_lib (position (ref_controller MOTOR_CONTROLLER_POSITION))))
      = FFin False (5368709 / 536870912)"
    by (simp add: time_step_def ref_ctl_lib_def)
  from position_mode_stuck_without_limit[OF p _ _ this, of False 0 False 3 False] p show ?thesis
    by (simp add: ref_ctl_lib_def del: feq.simps)
qed

text \<open>Changing the mode does not make the robot jump: entering position mode from a lower mode starts
  the ramp at the measured position and velocity, entering velocity mode from current mode starts at the
  measured velocity, an unknown mode changes nothing, and nothing but the mode changes otherwise. A getter
  that is needed and missing is a call through a null pointer.\<close>
lemma set_mode_bumpless:
  "motor_controller_set_mode e w c = (case mode_of_word w of None \<Rightarrow> Some c
    | Some m \<Rightarrow>
       if m \<le> ctl_mode c \<or> m = MOTOR_CONTROLLER_CURRENT then Some (c\<lparr>ctl_mode := m\<rparr>)
       else if m = MOTOR_CONTROLLER_VELOCITY then
         (case getter (velocity c) of None \<Rightarrow> None
          | Some v \<Rightarrow> Some (c\<lparr>ctl_mode := m, velocity := (velocity c)\<lparr>setpoint := v (get_arg (velocity c)) e\<rparr>\<rparr>))
       else (case (getter (position c), getter (velocity c)) of
           (Some p, Some v) \<Rightarrow> Some (c\<lparr>ctl_mode := m,
             position := (position c)\<lparr>setpoint := p (get_arg (position c)) e\<rparr>,
             velocity := (velocity c)\<lparr>target_setpoint := v (get_arg (velocity c)) e\<rparr>\<rparr>)
         | _ \<Rightarrow> None))"
  by (cases "ctl_mode c")
    (auto simp: motor_controller_set_mode_def call_get_def mode_order split: option.splits motor_controller_mode.splits)

end
