(* ===== verification/Motor_Pid_Thread.thy ===== *)
theory Motor_Pid_Thread
  imports Motor_Controller Motor_Pwm Msgbus
begin

section \<open>The motor control thread (\<open>src/motor_pid_thread.c\<close>)\<close>

text \<open>
  The thread reads a setpoint from the bus, runs the two cascade controllers, whose getters read the
  measurements on the bus, turns each output voltage into a duty cycle with the battery level, and
  publishes the voltages. A halted system and undefined behaviour are the two faults of a cycle.
  \<open>static\<close> variables of the C functions are the record \<open>voltage_statics\<close>, one per function.
\<close>

datatype fault = Sys_halt | Undefined_behaviour

fun defined :: "'a option \<Rightarrow> fault + 'a" where
  "defined None = Inl Undefined_behaviour"
| "defined (Some x) = Inr x"

fun fault_bind :: "fault + 'a \<Rightarrow> ('a \<Rightarrow> fault + 'b) \<Rightarrow> fault + 'b" where
  "fault_bind (Inl f) k = Inl f"
| "fault_bind (Inr x) k = k x"

datatype motor_enum = LEFT | RIGHT

fun motor_num :: "motor_enum \<Rightarrow> nat" where
  "motor_num LEFT = 0"
| "motor_num RIGHT = 1"

subsection \<open>Output: a voltage to a duty cycle\<close>

record 't voltage_statics =
  battery_voltage :: fp
  battery_topic :: "'t option"
  voltage_left :: fp
  voltage_right :: fp
  voltage_topic :: "'t option"

definition voltage_statics_init :: "'t voltage_statics" where
  "voltage_statics_init = \<lparr>battery_voltage = fzero, battery_topic = None, voltage_left = fzero,
     voltage_right = fzero, voltage_topic = None\<rparr>"

definition read_battery :: "('t, 'b) msgbus \<Rightarrow> 'b \<Rightarrow> 't \<Rightarrow> fp \<Rightarrow> fp" where
  "read_battery mb b t old = (case mb_read mb b t of Some (Battery_msg v) \<Rightarrow> v | _ \<Rightarrow> old)"

definition read_voltages :: "('t, 'b) msgbus \<Rightarrow> 'b \<Rightarrow> 't \<Rightarrow> fp \<times> fp \<Rightarrow> fp \<times> fp" where
  "read_voltages mb b t old = (case mb_read mb b t of Some (Motor_voltage_msg l r) \<Rightarrow> (l, r) | _ \<Rightarrow> old)"

text \<open>\<open>left_wheel_voltage_set\<close> and \<open>right_wheel_voltage_set\<close>, which differ in the setter and in the
  field of the message; reading through a null topic is undefined.\<close>

definition wheel_voltage_set ::
  "motor_enum \<Rightarrow> ('t, 'b) msgbus \<Rightarrow> bool \<Rightarrow> fp \<Rightarrow> 't voltage_statics \<times> pwm_state \<times> 'b
    \<Rightarrow> fault + ('t voltage_statics \<times> pwm_state \<times> 'b)" where
  "wheel_voltage_set mot mb is_inverted voltage = (\<lambda>(s, pwm, b).
     let bt = (case battery_topic s of None \<Rightarrow> mb_find mb b ''/battery_level'' | Some t \<Rightarrow> Some t);
         s = s\<lparr>battery_topic := bt\<rparr>
     in case bt of None \<Rightarrow> Inr (s, pwm, b)
        | Some t \<Rightarrow>
          let s = s\<lparr>battery_voltage := read_battery mb b t (battery_voltage s)\<rparr>;
              duty_cycle = fdiv f32 voltage (battery_voltage s);
              set = (case mot of LEFT \<Rightarrow> motor_left_pwm_set | RIGHT \<Rightarrow> motor_right_pwm_set)
          in fault_bind (defined (set is_inverted duty_cycle pwm)) (\<lambda>pwm.
             let vt = (case voltage_topic s of None \<Rightarrow> mb_find mb b ''/motors/voltage'' | Some t \<Rightarrow> Some t)
             in fault_bind (defined vt) (\<lambda>t.
               let (l, r) = read_voltages mb b t (voltage_left s, voltage_right s);
                   (l, r) = (case mot of LEFT \<Rightarrow> (voltage, r) | RIGHT \<Rightarrow> (l, voltage))
               in Inr (s\<lparr>voltage_topic := vt, voltage_left := l, voltage_right := r\<rparr>, pwm,
                       mb_publish mb t (Motor_voltage_msg l r) b))))"

definition left_wheel_voltage_set where "left_wheel_voltage_set = wheel_voltage_set LEFT"
definition right_wheel_voltage_set where "right_wheel_voltage_set = wheel_voltage_set RIGHT"

subsection \<open>Input: the getters\<close>

fun message_pair :: "message \<Rightarrow> fp \<times> fp" where
  "message_pair (Motor_current_msg l r) = (l, r)"
| "message_pair (Wheel_velocities_msg l r) = (l, r)"
| "message_pair (Wheel_pos_msg l r) = (l, r)"
| "message_pair _ = (fzero, fzero)"

definition bus_get :: "('t, 'b) msgbus \<Rightarrow> string \<Rightarrow> nat \<Rightarrow> 'b \<Rightarrow> fp" where
  "bus_get mb name arg b = (case mb_find mb b name of None \<Rightarrow> fzero
     | Some t \<Rightarrow> (case mb_read mb b t of None \<Rightarrow> fzero
        | Some m \<Rightarrow> if arg = motor_num LEFT then fst (message_pair m) else snd (message_pair m)))"

definition get_current :: "('t, 'b) msgbus \<Rightarrow> nat \<Rightarrow> 'b \<Rightarrow> fp" where
  "get_current mb = bus_get mb ''/motors/current''"

definition get_velocity :: "('t, 'b) msgbus \<Rightarrow> nat \<Rightarrow> 'b \<Rightarrow> fp" where
  "get_velocity mb = bus_get mb ''/wheel_velocities''"

definition get_position :: "('t, 'b) msgbus \<Rightarrow> nat \<Rightarrow> 'b \<Rightarrow> fp" where
  "get_position mb = bus_get mb ''/wheel_pos''"

definition set_input_functions ::
  "('t, 'b) msgbus \<Rightarrow> motor_enum \<Rightarrow> ('q, 'p, 'b) motor_controller \<Rightarrow> ('q, 'p, 'b) motor_controller" where
  "set_input_functions mb mot c =
     c\<lparr>current := (current c)\<lparr>getter := Some (get_current mb), get_arg := motor_num mot\<rparr>,
       velocity := (velocity c)\<lparr>getter := Some (get_velocity mb), get_arg := motor_num mot\<rparr>,
       position := (position c)\<lparr>getter := Some (get_position mb), get_arg := motor_num mot\<rparr>\<rparr>"

subsection \<open>The thread\<close>

definition CONTROL_FREQUENCY_HZ :: int where "CONTROL_FREQUENCY_HZ = 1000"

text \<open>The set-up of one wheel: default parameters, given by \<open>pset\<close> (\<open>parameter_scalar_set\<close>), getters,
  prescalers, frequency. The last two limits are products of \<open>double\<close> constants.\<close>

definition set_defaults ::
  "(fp \<Rightarrow> 'q \<Rightarrow> 'q) \<Rightarrow> ('q, 'p, 'b) motor_controller \<Rightarrow> ('q, 'p, 'b) motor_controller" where
  "set_defaults pset c =
     (let const = (\<lambda>x. f_conv f32 (f_const f64 x));
          i = params (current c); v = params (velocity c); p = params (position c)
      in c\<lparr>current := (current c)\<lparr>params := i\<lparr>kp := pset (const 2) (kp i), ki := pset (const 40) (ki i),
              i_limit := pset (const 50) (i_limit i)\<rparr>\<rparr>,
           velocity := (velocity c)\<lparr>params := v\<lparr>kp := pset (const (2 / 10)) (kp v)\<rparr>\<rparr>,
           position := (position c)\<lparr>params := p\<lparr>kp := pset (f_of_int f32 30) (kp p)\<rparr>\<rparr>,
           limits_current := pset (const 2) (limits_current c),
           limits_acceleration :=
             pset (f_conv f32 (fmul f64 (f_of_int f64 10) (f_const f64 (314 / 100)))) (limits_acceleration c),
           limits_velocity :=
             pset (f_conv f32 (fmul f64 (f_of_int f64 20) (f_const f64 (314 / 100)))) (limits_velocity c)\<rparr>)"

definition wheel_setup ::
  "('q, 'p) ctl_lib \<Rightarrow> (fp \<Rightarrow> 'q \<Rightarrow> 'q) \<Rightarrow> ('t, 'b) msgbus \<Rightarrow> motor_enum \<Rightarrow> ('q, 'p, 'b) motor_controller" where
  "wheel_setup L pset mb mot =
     motor_controller_set_frequency L (f_of_int f32 CONTROL_FREQUENCY_HZ)
       (motor_controller_set_prescaler 10 10
         (set_input_functions mb mot (set_defaults pset (motor_controller_init L))))"

record ('q, 'p, 't, 'b) pid_thd =
  left_controller :: "('q, 'p, 'b) motor_controller"
  right_controller :: "('q, 'p, 'b) motor_controller"
  left_statics :: "'t voltage_statics"
  right_statics :: "'t voltage_statics"
  thd_pwm :: pwm_state
  thd_bus :: 'b

definition set_target ::
  "motor_controller_mode \<Rightarrow> fp \<Rightarrow> ('q, 'p, 'b) motor_controller \<Rightarrow> ('q, 'p, 'b) motor_controller" where
  "set_target m x c = (case m of
     MOTOR_CONTROLLER_CURRENT \<Rightarrow> c\<lparr>current := (current c)\<lparr>target_setpoint := x\<rparr>\<rparr>
   | MOTOR_CONTROLLER_VELOCITY \<Rightarrow> c\<lparr>velocity := (velocity c)\<lparr>target_setpoint := x\<rparr>\<rparr>
   | MOTOR_CONTROLLER_POSITION \<Rightarrow> c\<lparr>position := (position c)\<lparr>target_setpoint := x\<rparr>\<rparr>)"

definition apply_setpoint ::
  "u32 \<Rightarrow> fp \<Rightarrow> fp \<Rightarrow> ('q, 'p, 't, 'b) pid_thd \<Rightarrow> fault + ('q, 'p, 't, 'b) pid_thd" where
  "apply_setpoint mode l r s =
     fault_bind (defined (motor_controller_set_mode (thd_bus s) mode (left_controller s))) (\<lambda>cl.
     fault_bind (defined (motor_controller_set_mode (thd_bus s) mode (right_controller s))) (\<lambda>cr.
     case mode_of_word mode of None \<Rightarrow> Inl Sys_halt
     | Some m \<Rightarrow> Inr (s\<lparr>left_controller := set_target m l cl, right_controller := set_target m r cr\<rparr>)))"

definition motor_pid_cycle ::
  "('q, 'p) ctl_lib \<Rightarrow> ('t, 'b) msgbus \<Rightarrow> 't \<Rightarrow> bool \<Rightarrow> bool
    \<Rightarrow> ('q, 'p, 't, 'b) pid_thd \<Rightarrow> fault + ('q, 'p, 't, 'b) pid_thd" where
  "motor_pid_cycle L mb setpoint_topic inv_left inv_right s =
     fault_bind (case mb_read mb (thd_bus s) setpoint_topic of
         Some (Wheels_setpoint_msg mode l r) \<Rightarrow> apply_setpoint mode l r s | _ \<Rightarrow> Inr s) (\<lambda>s.
     fault_bind (defined (motor_controller_process L (thd_bus s) (left_controller s))) (\<lambda>(vl, cl).
     fault_bind (defined (motor_controller_process L (thd_bus s) (right_controller s))) (\<lambda>(vr, cr).
     fault_bind (left_wheel_voltage_set mb inv_left vl (left_statics s, thd_pwm s, thd_bus s)) (\<lambda>(sl, pwm, b).
     fault_bind (right_wheel_voltage_set mb inv_right vr (right_statics s, pwm, b)) (\<lambda>(sr, pwm, b).
     Inr \<lparr>left_controller = cl, right_controller = cr, left_statics = sl, right_statics = sr,
          thd_pwm = pwm, thd_bus = b\<rparr>)))))"

subsection \<open>Lemmas\<close>

lemma fault_bind_Inr: "fault_bind x k = Inr y \<longleftrightarrow> (\<exists>z. x = Inr z \<and> k z = Inr y)"
  by (cases x) auto

lemma defined_Inr: "defined x = Inr y \<longleftrightarrow> x = Some y"
  by (cases x) auto

lemma fdiv_in_fmt:
  assumes "in_fmt f32 x" "in_fmt f32 y"
  shows "in_fmt f32 (fdiv f32 x y)"
  using assms by (cases x; cases y) (auto simp: fround_zero intro!: in_fmt_fround divide_nonneg_nonneg)

lemma fdiv_not_nan:
  assumes "\<not> is_nan x" "0 < m"
  shows "\<not> is_nan (fdiv f32 x (FFin s m))"
  using assms by (cases x) auto

lemma pwm_set_defined:
  assumes "in_fmt f32 d" "\<not> is_nan d"
  shows "\<exists>pwm'. motor_phases_set drv a b i d pwm = Some pwm'"
  using motor_phases_set_eq[OF assms(2,1), of drv a b i pwm] by auto

text \<open>The topic of the voltages, as a setter finds it.\<close>

definition voltage_handle :: "('t, 'b) msgbus \<Rightarrow> 't voltage_statics \<times> pwm_state \<times> 'b \<Rightarrow> 't option" where
  "voltage_handle mb = (\<lambda>(s, pwm, b).
     case voltage_topic s of None \<Rightarrow> mb_find mb b ''/motors/voltage'' | Some t \<Rightarrow> Some t)"

definition battery_handle :: "('t, 'b) msgbus \<Rightarrow> 't voltage_statics \<times> pwm_state \<times> 'b \<Rightarrow> 't option" where
  "battery_handle mb = (\<lambda>(s, pwm, b).
     case battery_topic s of None \<Rightarrow> mb_find mb b ''/battery_level'' | Some t \<Rightarrow> Some t)"

lemma wheel_voltage_set_ok:
  assumes "battery_handle mb (s, pwm, b) = Some bt" "voltage_handle mb (s, pwm, b) = Some vt"
    and "mb_read mb b bt = Some (Battery_msg (FFin False m))" "0 < m" "in_fmt f32 (FFin False m)"
    and "in_fmt f32 v" "\<not> is_nan v"
  shows "\<exists>s' pwm'. wheel_voltage_set mot mb inverted v (s, pwm, b) = Inr (s', pwm', mb_publish mb vt
      (let (l, r) = read_voltages mb b vt (voltage_left s, voltage_right s)
       in case mot of LEFT \<Rightarrow> Motor_voltage_msg v r | RIGHT \<Rightarrow> Motor_voltage_msg l v) b)"
proof -
  obtain p where "(case mot of LEFT \<Rightarrow> motor_left_pwm_set | RIGHT \<Rightarrow> motor_right_pwm_set) inverted
      (fdiv f32 v (FFin False m)) pwm = Some p"
    using pwm_set_defined[OF fdiv_in_fmt[OF assms(6,5)] fdiv_not_nan[OF assms(7,4)]]
    by (cases mot) (fastforce simp: motor_left_pwm_set_def motor_right_pwm_set_def)+
  then show ?thesis
    using assms(1-3) by (cases mot)
      (auto simp: wheel_voltage_set_def battery_handle_def voltage_handle_def read_battery_def Let_def split: prod.splits)
qed

context message_bus
begin

lemma voltages_published_lemma:
  assumes "bt \<noteq> vt" "battery_handle mb (sl, pwm, b) = Some bt" "voltage_handle mb (sl, pwm, b) = Some vt"
    and "battery_handle mb (sr, pwm, b) = Some bt" "voltage_handle mb (sr, pwm, b) = Some vt"
    and bat: "mb_read mb b bt = Some (Battery_msg (FFin False m))" "0 < m" "in_fmt f32 (FFin False m)"
    and vl: "in_fmt f32 vl" "\<not> is_nan vl" and vr: "in_fmt f32 vr" "\<not> is_nan vr"
  shows "\<exists>sl' pwm1 b1 sr' pwm2 b2.
      left_wheel_voltage_set mb il vl (sl, pwm, b) = Inr (sl', pwm1, b1)
    \<and> right_wheel_voltage_set mb ir vr (sr, pwm1, b1) = Inr (sr', pwm2, b2)
    \<and> mb_read mb b2 vt = Some (Motor_voltage_msg vl vr)
    \<and> (\<forall>t. t \<noteq> vt \<longrightarrow> mb_read mb b2 t = mb_read mb b t)"
proof -
  obtain x sl' pwm1 where l: "wheel_voltage_set LEFT mb il vl (sl, pwm, b) = Inr (sl', pwm1, mb_publish mb vt (Motor_voltage_msg vl x) b)"
    using wheel_voltage_set_ok[OF assms(2,3) bat vl, of LEFT il] by (auto split: prod.splits)
  define b1 where "b1 = mb_publish mb vt (Motor_voltage_msg vl x) b"
  have h: "battery_handle mb (sr, pwm1, b1) = Some bt" "voltage_handle mb (sr, pwm1, b1) = Some vt"
    "mb_read mb b1 bt = Some (Battery_msg (FFin False m))"
    using assms(1,4,5) bat(1) by (auto simp: b1_def battery_handle_def voltage_handle_def find_publish read_publish_if split: option.splits)
  have "read_voltages mb b1 vt q = (vl, x)" for q by (simp add: read_voltages_def b1_def read_publish)
  then obtain sr' pwm2 where r: "wheel_voltage_set RIGHT mb ir vr (sr, pwm1, b1) =
      Inr (sr', pwm2, mb_publish mb vt (Motor_voltage_msg vl vr) b1)"
    using wheel_voltage_set_ok[OF h(1,2,3) bat(2,3) vr, of RIGHT ir] by auto
  show ?thesis
    using l r by (auto simp: left_wheel_voltage_set_def right_wheel_voltage_set_def b1_def read_publish_if)
qed

end

lemma set_mode_getters:
  assumes "getter (position c) \<noteq> None" "getter (velocity c) \<noteq> None"
  shows "\<exists>c'. motor_controller_set_mode e w c = Some c' \<and>
    ctl_mode c' = (case mode_of_word w of None \<Rightarrow> ctl_mode c | Some m \<Rightarrow> m) \<and>
    getter (position c') = getter (position c) \<and> getter (velocity c') = getter (velocity c) \<and>
    divider_counter (position c') = divider_counter (position c) \<and>
    divider_counter (velocity c') = divider_counter (velocity c)"
  using assms
  by (auto simp: motor_controller_set_mode_def call_get_def mode_order split: option.splits motor_controller_mode.splits)

lemma set_target_simps [simp]:
  "ctl_mode (set_target m x c) = ctl_mode c"
  "divider_counter (position (set_target m x c)) = divider_counter (position c)"
  "divider_counter (velocity (set_target m x c)) = divider_counter (velocity c)"
  by (cases m; simp add: set_target_def)+

definition ctl_runnable :: "('q, 'p, 'e) motor_controller \<Rightarrow> bool" where
  "ctl_runnable c \<longleftrightarrow> getter (position c) \<noteq> None \<and> getter (velocity c) \<noteq> None
     \<and> divider_counter (position c) < 2 ^ 31 - 1 \<and> divider_counter (velocity c) < 2 ^ 31 - 1"

lemma wheel_setup_runnable: "ctl_runnable (wheel_setup L pset mb mot)"
  by (simp add: ctl_runnable_def wheel_setup_def motor_controller_set_frequency_def motor_controller_set_prescaler_def
      set_input_functions_def set_defaults_def motor_controller_init_def loop_init_def Let_def)

text \<open>A library whose PID filters give finite or infinite numbers.\<close>

definition pid_numeric :: "('q, 'p) ctl_lib \<Rightarrow> bool" where
  "pid_numeric L \<longleftrightarrow> (\<forall>p e. in_fmt f32 (fst (pid_process L p e)) \<and> \<not> is_nan (fst (pid_process L p e)))"

lemma process_numeric:
  assumes "pid_numeric L" "motor_controller_process L e c = Some (out, c')"
  shows "in_fmt f32 out \<and> \<not> is_nan out"
proof -
  obtain mv ma c0 c1 c2 where "current_control L e c2 = (out, c')" by (rule process_stages[OF assms(2)])
  then show ?thesis using assms(1) by (auto simp: current_control_def Let_def pid_numeric_def split: prod.splits)
    (metis fst_conv)+
qed

lemma apply_setpoint_ok:
  assumes "ctl_runnable (left_controller s)" "ctl_runnable (right_controller s)" "mode_of_word w = Some m"
  shows "\<exists>s'. apply_setpoint w l r s = Inr s' \<and> ctl_mode (left_controller s') = m \<and> ctl_mode (right_controller s') = m
    \<and> divider_counter (position (left_controller s')) = divider_counter (position (left_controller s))
    \<and> divider_counter (velocity (left_controller s')) = divider_counter (velocity (left_controller s))
    \<and> divider_counter (position (right_controller s')) = divider_counter (position (right_controller s))
    \<and> divider_counter (velocity (right_controller s')) = divider_counter (velocity (right_controller s))
    \<and> left_statics s' = left_statics s \<and> right_statics s' = right_statics s \<and> thd_pwm s' = thd_pwm s \<and> thd_bus s' = thd_bus s"
proof -
  obtain cl cr where "motor_controller_set_mode (thd_bus s) w (left_controller s) = Some cl" "ctl_mode cl = m"
      "motor_controller_set_mode (thd_bus s) w (right_controller s) = Some cr" "ctl_mode cr = m"
      "divider_counter (position cl) = divider_counter (position (left_controller s))"
      "divider_counter (velocity cl) = divider_counter (velocity (left_controller s))"
      "divider_counter (position cr) = divider_counter (position (right_controller s))"
      "divider_counter (velocity cr) = divider_counter (velocity (right_controller s))"
    using set_mode_getters[of "left_controller s" "thd_bus s" w] set_mode_getters[of "right_controller s" "thd_bus s" w] assms
    by (auto simp: ctl_runnable_def)
  then show ?thesis using assms(3) by (simp add: apply_setpoint_def)
qed

subsection \<open>Properties\<close>

text \<open>One control cycle publishes both voltages: when the battery topic carries a positive voltage, the
  left and then the right setter succeed for every pair of numbers, the voltage topic ends with the pair
  of them, although each setter only knows its own wheel, and no other topic changes.\<close>
lemma voltages_published:
  assumes "message_bus mb" and "bt \<noteq> vt"
    and "battery_handle mb (sl, pwm, b) = Some bt" "voltage_handle mb (sl, pwm, b) = Some vt"
    and "battery_handle mb (sr, pwm, b) = Some bt" "voltage_handle mb (sr, pwm, b) = Some vt"
    and "mb_read mb b bt = Some (Battery_msg (FFin False m))" "0 < m" "in_fmt f32 (FFin False m)"
    and "in_fmt f32 vl" "\<not> is_nan vl" "in_fmt f32 vr" "\<not> is_nan vr"
  shows "\<exists>sl' pwm1 b1 sr' pwm2 b2.
      left_wheel_voltage_set mb il vl (sl, pwm, b) = Inr (sl', pwm1, b1)
    \<and> right_wheel_voltage_set mb ir vr (sr, pwm1, b1) = Inr (sr', pwm2, b2)
    \<and> mb_read mb b2 vt = Some (Motor_voltage_msg vl vr)
    \<and> (\<forall>t. t \<noteq> vt \<longrightarrow> mb_read mb b2 t = mb_read mb b t)"
  by (rule message_bus.voltages_published_lemma[OF assms])

definition ref_power_bus :: ref_bus_state where
  "ref_power_bus = \<lparr>rb_topics = [''/battery_level'', ''/motors/voltage''],
     rb_values = [(''/battery_level'', Battery_msg (FFin False 8))]\<rparr>"

lemma ref_power_handles [simp]:
  "battery_handle ref_msgbus (voltage_statics_init, pwm, ref_power_bus) = Some ''/battery_level''"
  "voltage_handle ref_msgbus (voltage_statics_init, pwm, ref_power_bus) = Some ''/motors/voltage''"
  "mb_read ref_msgbus ref_power_bus ''/battery_level'' = Some (Battery_msg (FFin False 8))"
  by (simp_all add: battery_handle_def voltage_handle_def voltage_statics_init_def ref_power_bus_def ref_msgbus_def)

lemma ref_voltages_fmt: "in_fmt f32 (FFin False 8)" "in_fmt f32 (FFin True 2)"
  by code_simp+

lemma voltages_published_witness:
  "\<exists>sl' pwm1 b1 sr' pwm2 b2.
      left_wheel_voltage_set ref_msgbus False (FInf False) (voltage_statics_init, \<lambda>_. None, ref_power_bus) = Inr (sl', pwm1, b1)
    \<and> right_wheel_voltage_set ref_msgbus True (FFin True 2) (voltage_statics_init, pwm1, b1) = Inr (sr', pwm2, b2)
    \<and> mb_read ref_msgbus b2 ''/motors/voltage'' = Some (Motor_voltage_msg (FInf False) (FFin True 2))
    \<and> (\<forall>t. t \<noteq> ''/motors/voltage'' \<longrightarrow> mb_read ref_msgbus b2 t = mb_read ref_msgbus ref_power_bus t)"
  by (rule voltages_published[OF ref_mb.message_bus_axioms, where bt = "''/battery_level''" and m = 8])
    (use ref_voltages_fmt in simp_all)

text \<open>Before the battery level has been published once, the setters divide by the initial zero of
  their static message: an output of zero volts, which is what the controllers give at rest, becomes a NaN
  duty cycle, and its conversion to a counter value is undefined behaviour.\<close>
lemma unpublished_battery_undefined:
  assumes "battery_handle mb (s, pwm, b) = Some bt" "mb_read mb b bt = None" "battery_voltage s = FFin z 0"
  shows "left_wheel_voltage_set mb inverted (FFin z' 0) (s, pwm, b) = Inl Undefined_behaviour
    \<and> right_wheel_voltage_set mb inverted (FFin z' 0) (s, pwm, b) = Inl Undefined_behaviour"
proof -
  have "motor_phases_set drv x y inverted (FNaN False) pwm = None" for drv x y
    by (cases inverted) (simp_all add: motor_phases_set_def Let_def pwm_clamp_def pwm_count_def f_to_range_def
        PWM_CYCLE_float PWM_LIMIT_float)
  then have "motor_left_pwm_set inverted (FNaN False) pwm = None" "motor_right_pwm_set inverted (FNaN False) pwm = None"
    by (simp_all add: motor_left_pwm_set_def motor_right_pwm_set_def)
  then show ?thesis
    using assms by (simp add: left_wheel_voltage_set_def right_wheel_voltage_set_def wheel_voltage_set_def
        battery_handle_def read_battery_def Let_def)
qed

lemma unpublished_battery_undefined_witness:
  "left_wheel_voltage_set ref_msgbus False fzero (voltage_statics_init, \<lambda>_. None,
      \<lparr>rb_topics = [''/battery_level'', ''/motors/voltage''], rb_values = []\<rparr>) = Inl Undefined_behaviour"
  by (rule conjunct1[OF unpublished_battery_undefined[where bt = "''/battery_level''" and z = False]])
    (simp_all add: battery_handle_def voltage_statics_init_def ref_msgbus_def)

text \<open>A control cycle faults only on a message with an unknown mode, which halts the system: from
  controllers set up by the thread with counters that have not overflowed, a PID library that gives
  numbers and a published positive battery level, the cycle of a known or absent setpoint completes, and
  a known setpoint has put both controllers in its mode.\<close>
lemma motor_pid_cycle_faults:
  assumes "message_bus mb" "pid_numeric L"
    and "ctl_runnable (left_controller s)" "ctl_runnable (right_controller s)" and "bt \<noteq> vt"
    and "battery_handle mb (left_statics s, thd_pwm s, thd_bus s) = Some bt"
    and "voltage_handle mb (left_statics s, thd_pwm s, thd_bus s) = Some vt"
    and "battery_handle mb (right_statics s, thd_pwm s, thd_bus s) = Some bt"
    and "voltage_handle mb (right_statics s, thd_pwm s, thd_bus s) = Some vt"
    and "mb_read mb (thd_bus s) bt = Some (Battery_msg (FFin False m))" "0 < m" "in_fmt f32 (FFin False m)"
    and "mb_read mb (thd_bus s) tp = Some (Wheels_setpoint_msg w l r)"
  shows "case mode_of_word w of
      None \<Rightarrow> motor_pid_cycle L mb tp il ir s = Inl Sys_halt
    | Some md \<Rightarrow> (\<exists>s'. motor_pid_cycle L mb tp il ir s = Inr s'
        \<and> ctl_mode (left_controller s') = md \<and> ctl_mode (right_controller s') = md)"
proof (cases "mode_of_word w")
  case None
  then show ?thesis
    using assms(13) by (simp add: motor_pid_cycle_def apply_setpoint_def motor_controller_set_mode_def)
next
  case (Some md)
  obtain s1 where s1: "apply_setpoint w l r s = Inr s1" "ctl_mode (left_controller s1) = md" "ctl_mode (right_controller s1) = md"
      "divider_counter (position (left_controller s1)) = divider_counter (position (left_controller s))"
      "divider_counter (velocity (left_controller s1)) = divider_counter (velocity (left_controller s))"
      "divider_counter (position (right_controller s1)) = divider_counter (position (right_controller s))"
      "divider_counter (velocity (right_controller s1)) = divider_counter (velocity (right_controller s))"
      "left_statics s1 = left_statics s" "right_statics s1 = right_statics s" "thd_pwm s1 = thd_pwm s" "thd_bus s1 = thd_bus s"
    using apply_setpoint_ok[OF assms(3,4) Some] by blast
  obtain vl cl where cl: "motor_controller_process L (thd_bus s1) (left_controller s1) = Some (vl, cl)"
    using process_Some[of "left_controller s1" L "thd_bus s1"] s1 assms(3) by (auto simp: ctl_runnable_def)
  obtain vr cr where cr: "motor_controller_process L (thd_bus s1) (right_controller s1) = Some (vr, cr)"
    using process_Some[of "right_controller s1" L "thd_bus s1"] s1 assms(4) by (auto simp: ctl_runnable_def)
  note num = process_numeric[OF assms(2) cl] process_numeric[OF assms(2) cr]
  have "\<exists>sl' pwm1 b1 sr' pwm2 b2.
      left_wheel_voltage_set mb il vl (left_statics s, thd_pwm s, thd_bus s) = Inr (sl', pwm1, b1)
    \<and> right_wheel_voltage_set mb ir vr (right_statics s, pwm1, b1) = Inr (sr', pwm2, b2)"
    using message_bus.voltages_published_lemma[OF assms(1,5-12) _ _ _ _, of vl vr il ir] num by blast
  then show ?thesis
    using Some s1 cl cr assms(13) process_SomeD(1)[OF cl] process_SomeD(1)[OF cr]
    by (auto simp: motor_pid_cycle_def)
qed

definition ref_const_lib :: "(fp \<times> bool, fp \<times> fp) ctl_lib" where
  "ref_const_lib = ref_ctl_lib\<lparr>pid_process := (\<lambda>p e. (FFin True 2, p))\<rparr>"

definition ref_thread :: "u32 \<Rightarrow> (fp \<times> bool, fp \<times> fp, string, ref_bus_state) pid_thd" where
  "ref_thread w = \<lparr>left_controller = wheel_setup ref_const_lib (\<lambda>v q. (v, True)) ref_msgbus LEFT,
     right_controller = wheel_setup ref_const_lib (\<lambda>v q. (v, True)) ref_msgbus RIGHT,
     left_statics = voltage_statics_init, right_statics = voltage_statics_init, thd_pwm = (\<lambda>_. None),
     thd_bus = mb_publish ref_msgbus ''/motors/setpoint'' (Wheels_setpoint_msg w fone fone) ref_power_bus\<rparr>"

lemma motor_pid_cycle_faults_witness:
  "(\<exists>s'. motor_pid_cycle ref_const_lib ref_msgbus ''/motors/setpoint'' False True (ref_thread 2) = Inr s'
      \<and> ctl_mode (left_controller s') = MOTOR_CONTROLLER_POSITION \<and> ctl_mode (right_controller s') = MOTOR_CONTROLLER_POSITION)
    \<and> motor_pid_cycle ref_const_lib ref_msgbus ''/motors/setpoint'' False True (ref_thread 7) = Inl Sys_halt"
proof -
  have "pid_numeric ref_const_lib"
    using ref_voltages_fmt by (simp add: pid_numeric_def ref_const_lib_def)
  note faults = motor_pid_cycle_faults[OF ref_mb.message_bus_axioms this, of "ref_thread w" for w,
      where bt = "''/battery_level''" and vt = "''/motors/voltage''" and tp = "''/motors/setpoint''" and m = 8
        and l = fone and r = fone]
  have "case mode_of_word w of
      None \<Rightarrow> motor_pid_cycle ref_const_lib ref_msgbus ''/motors/setpoint'' il ir (ref_thread w) = Inl Sys_halt
    | Some md \<Rightarrow> (\<exists>s'. motor_pid_cycle ref_const_lib ref_msgbus ''/motors/setpoint'' il ir (ref_thread w) = Inr s'
        \<and> ctl_mode (left_controller s') = md \<and> ctl_mode (right_controller s') = md)" for w il ir
    by (rule faults)
      (use ref_voltages_fmt in \<open>simp_all add: ref_thread_def wheel_setup_runnable battery_handle_def voltage_handle_def
        voltage_statics_init_def ref_power_bus_def ref_msgbus_def\<close>)
  from this[where w = 2 and il = False and ir = True] this[where w = 7 and il = False and ir = True]
  show ?thesis by (simp add: mode_of_word_def)
qed

end
