(* ===== verification/Audio_Dac.thy ===== *)
theory Audio_Dac
  imports Prelude
begin

section \<open>The audio DAC driver (\<open>src/audio/audio_dac.c\<close>)\<close>

text \<open>
  The DAC peripheral converts a buffer round and round by DMA and interrupts at half and at the end of
  it. The end callback of the conversion group is swapped by the driver to go from continuous conversion
  to a last, shorter one and to the stop. The state \<open>dac\<close> holds the driver's static variables, the buffer,
  the running conversion (start, length, which half is being converted) and the samples converted so
  far. \<open>dac_irq\<close> is one interrupt: the half that ends has been converted, then the end callback runs.
  The thread is assumed to write a half before the other half ends, as the driver asks: interrupts
  happen while the thread waits for the semaphore. \<open>None\<close> is a wait that never ends or a division by
  zero. The theorem is that every sample the callback delivers is converted once and in order.
\<close>

type_synonym sample = u16

datatype dac_end_cb = No_cb | Continuous_cb | Last_cb | Single_cb | Stop_cb

record dac =
  dac_buffer :: "sample list"
  end_cb :: dac_end_cb
  conversion_len :: nat
  dac_write_pos :: nat
  dac_signal :: bool
  conv_start :: nat
  conv_len :: nat
  second_half :: bool
  dac_running :: bool
  timer_interval :: nat
  converted :: "sample list"

definition dac_continuous_conversion_cb :: "nat \<Rightarrow> nat \<Rightarrow> dac \<Rightarrow> dac" where
  "dac_continuous_conversion_cb prev n s =
     s\<lparr>dac_write_pos := (if prev = 0 then 0 else n), dac_signal := True\<rparr>"

definition dac_last_conversion_cb :: "nat \<Rightarrow> nat \<Rightarrow> dac \<Rightarrow> dac" where
  "dac_last_conversion_cb prev n s =
     s\<lparr>end_cb := Single_cb, conv_start := dac_write_pos s, conv_len := conversion_len s, second_half := False\<rparr>"

definition dac_single_conversion_cb :: "nat \<Rightarrow> nat \<Rightarrow> dac \<Rightarrow> dac" where
  "dac_single_conversion_cb prev n s = s\<lparr>end_cb := Stop_cb\<rparr>"

definition dac_stop_cb :: "nat \<Rightarrow> nat \<Rightarrow> dac \<Rightarrow> dac" where
  "dac_stop_cb prev n s = s\<lparr>dac_running := False, dac_signal := True\<rparr>"

definition dac_irq :: "dac \<Rightarrow> dac" where
  "dac_irq s =
     (if \<not> dac_running s then s
      else let n = conv_len s div 2;
               prev = conv_start s + (if second_half s then n else 0);
               s = s\<lparr>converted := converted s @ take n (drop prev (dac_buffer s)), second_half := \<not> second_half s\<rparr>
           in case end_cb s of No_cb \<Rightarrow> s
              | Continuous_cb \<Rightarrow> dac_continuous_conversion_cb prev n s
              | Last_cb \<Rightarrow> dac_last_conversion_cb prev n s
              | Single_cb \<Rightarrow> dac_single_conversion_cb prev n s
              | Stop_cb \<Rightarrow> dac_stop_cb prev n s)"

text \<open>\<open>chBSemWait(&dac_signal)\<close>.\<close>

partial_function (option) dac_wait :: "dac \<Rightarrow> dac option" where
  "dac_wait s = (if dac_signal s then Some (s\<lparr>dac_signal := False\<rparr>) else dac_wait (dac_irq s))"

definition dac_next_write_pos :: "dac \<Rightarrow> (nat \<times> dac) option" where
  "dac_next_write_pos s = Option.bind (dac_wait s) (\<lambda>s. Some (dac_write_pos s, s))"

definition dac_last_conversion :: "nat \<Rightarrow> nat \<Rightarrow> dac \<Rightarrow> dac option" where
  "dac_last_conversion buf len s =
     (let len = len - len mod 2 in
      dac_wait (if 0 < len then s\<lparr>dac_write_pos := buf, conversion_len := len, end_cb := Last_cb\<rparr>
                else s\<lparr>end_cb := Stop_cb\<rparr>))"

text \<open>\<open>timclk\<close> is \<open>STM32_TIMCLK1\<close> of the operating system's headers.\<close>

definition dac_start_conversion :: "nat \<Rightarrow> nat \<Rightarrow> nat \<Rightarrow> nat \<Rightarrow> dac \<Rightarrow> dac option" where
  "dac_start_conversion timclk sample_rate buf len s =
     (if sample_rate = 0 then None
      else Some (s\<lparr>dac_signal := False, conv_start := buf, conv_len := len, second_half := False,
             dac_running := True, timer_interval := timclk div sample_rate\<rparr>))"

definition dac_single_conversion :: "nat \<Rightarrow> nat \<Rightarrow> nat \<Rightarrow> nat \<Rightarrow> dac \<Rightarrow> dac option" where
  "dac_single_conversion timclk sample_rate buf len s =
     (let len = len - len mod 2 in
      if len = 0 then Some s
      else Option.bind (dac_start_conversion timclk sample_rate buf len (s\<lparr>end_cb := Single_cb\<rparr>)) dac_wait)"

definition dac_continuous_conversion :: "nat \<Rightarrow> nat \<Rightarrow> nat \<Rightarrow> nat \<Rightarrow> dac \<Rightarrow> dac option" where
  "dac_continuous_conversion timclk sample_rate buf len s =
     dac_start_conversion timclk sample_rate buf len (s\<lparr>end_cb := Continuous_cb\<rparr>)"

definition dac_start :: "dac \<Rightarrow> dac" where
  "dac_start s = s\<lparr>end_cb := No_cb\<rparr>"

text \<open>\<open>dacStop\<close> of the driver library stops the peripheral.\<close>

definition dac_stop :: "dac \<Rightarrow> dac" where
  "dac_stop s = s\<lparr>dac_running := False\<rparr>"

text \<open>A data callback: from its argument and the room in the buffer, whether this was the last data, the
  samples written and the argument afterwards.\<close>

type_synonym 'a audio_callback = "'a \<Rightarrow> nat \<Rightarrow> bool \<times> sample list \<times> 'a"

definition write_samples :: "nat \<Rightarrow> sample list \<Rightarrow> dac \<Rightarrow> dac" where
  "write_samples pos xs s =
     s\<lparr>dac_buffer := take pos (dac_buffer s) @ xs @ drop (pos + length xs) (dac_buffer s)\<rparr>"

partial_function (option) dac_copy_loop ::
  "'a audio_callback \<Rightarrow> nat \<Rightarrow> 'a \<Rightarrow> dac \<Rightarrow> ('a \<times> dac) option" where
  "dac_copy_loop data_cb len arg s =
     Option.bind (dac_next_write_pos s) (\<lambda>(buf, s).
       let (is_last, xs, arg) = data_cb arg (len div 2); s = write_samples buf xs s
       in if is_last then Option.bind (dac_last_conversion buf (length xs) s) (\<lambda>s. Some (arg, s))
          else dac_copy_loop data_cb len arg s)"

definition AUDIO_DAC_OK :: int where "AUDIO_DAC_OK = 0"
definition AUDIO_DAC_ERR :: int where "AUDIO_DAC_ERR = 1"

definition audio_dac_convert ::
  "nat \<Rightarrow> 'a audio_callback \<Rightarrow> 'a \<Rightarrow> nat \<Rightarrow> nat \<Rightarrow> dac \<Rightarrow> (int \<times> 'a \<times> dac) option" where
  "audio_dac_convert timclk data_cb arg sample_rate len s =
     (if len < 2 then Some (AUDIO_DAC_ERR, arg, s)
      else let len = len - len mod 2;
               (is_last, xs, arg) = data_cb arg len;
               s = write_samples 0 xs (dac_start s)
           in Option.bind
                (if is_last
                 then Option.bind (dac_single_conversion timclk sample_rate 0 (length xs) s) (\<lambda>s. Some (arg, s))
                 else Option.bind (dac_continuous_conversion timclk sample_rate 0 len s) (dac_copy_loop data_cb len arg))
                (\<lambda>(arg, s). Some (AUDIO_DAC_OK, arg, dac_stop s)))"

subsection \<open>Waiting\<close>

lemma dac_wait_signalled: "dac_signal s \<Longrightarrow> dac_wait s = Some (s\<lparr>dac_signal := False\<rparr>)"
  by (subst dac_wait.simps) simp

lemma dac_wait_irq: "\<not> dac_signal s \<Longrightarrow> dac_wait s = dac_wait (dac_irq s)"
  by (subst dac_wait.simps) simp

lemmas dac_cb_defs = dac_continuous_conversion_cb_def dac_last_conversion_cb_def
  dac_single_conversion_cb_def dac_stop_cb_def

definition even_prefix :: "'a list \<Rightarrow> 'a list" where
  "even_prefix xs = take (length xs - length xs mod 2) xs"

lemma take_half_twice: "take n xs @ take n (drop n xs) = take (2 * n) xs"
  by (simp add: mult_2 take_add)

text \<open>A single conversion of \<open>2 * n\<close> samples: two interrupts, then the signal.\<close>

lemma single_conversion_wait:
  assumes "end_cb s = Single_cb" "dac_running s" "\<not> dac_signal s" "conv_len s = 2 * n" "\<not> second_half s"
  shows "\<exists>s'. dac_wait s = Some s' \<and> converted s' = converted s @ take (2 * n) (drop (conv_start s) (dac_buffer s))
    \<and> \<not> dac_running s' \<and> \<not> dac_signal s' \<and> dac_buffer s' = dac_buffer s"
proof -
  define s1 where "s1 = dac_irq s"
  have s1: "end_cb s1 = Stop_cb" "dac_running s1" "\<not> dac_signal s1" "conv_len s1 = 2 * n" "second_half s1"
      "conv_start s1 = conv_start s" "dac_buffer s1 = dac_buffer s"
      "converted s1 = converted s @ take n (drop (conv_start s) (dac_buffer s))"
    using assms by (simp_all add: s1_def dac_irq_def dac_cb_defs Let_def)
  define s2 where "s2 = dac_irq s1"
  have s2: "dac_signal s2" "\<not> dac_running s2" "dac_buffer s2 = dac_buffer s"
      "converted s2 = converted s1 @ take n (drop (conv_start s + n) (dac_buffer s))"
    using s1 by (simp_all add: s2_def dac_irq_def dac_cb_defs Let_def)
  have "dac_wait s = Some (s2\<lparr>dac_signal := False\<rparr>)"
    using assms(3) s1(3) s2(1) by (simp add: dac_wait_irq dac_wait_signalled s1_def[symmetric] s2_def[symmetric])
  then show ?thesis
    using s1 s2 take_half_twice[of n "drop (conv_start s) (dac_buffer s)"] by (simp add: add.commute)
qed

subsection \<open>The double buffer\<close>

text \<open>\<open>playing n h out s\<close>: continuous conversion of a buffer of two halves of \<open>n\<close> samples, half \<open>h\<close> is being
  converted; with what it and then the other half still hold, the samples converted make up \<open>out\<close>.\<close>

definition half :: "nat \<Rightarrow> bool \<Rightarrow> dac \<Rightarrow> sample list" where
  "half n h s = take n (drop (if h then n else 0) (dac_buffer s))"

definition playing :: "nat \<Rightarrow> bool \<Rightarrow> sample list \<Rightarrow> dac \<Rightarrow> bool" where
  "playing n h out s \<longleftrightarrow> end_cb s = Continuous_cb \<and> dac_running s \<and> \<not> dac_signal s \<and> conv_start s = 0
     \<and> conv_len s = 2 * n \<and> second_half s = h \<and> 2 * n \<le> length (dac_buffer s)
     \<and> out = converted s @ half n h s @ half n (\<not> h) s"

lemma next_write_pos_playing:
  assumes "playing n h out s" "0 < n"
  shows "\<exists>s'. dac_next_write_pos s = Some (if h then n else 0, s')
    \<and> end_cb s' = Continuous_cb \<and> dac_running s' \<and> \<not> dac_signal s' \<and> conv_start s' = 0 \<and> conv_len s' = 2 * n
    \<and> second_half s' = (\<not> h) \<and> dac_buffer s' = dac_buffer s \<and> converted s' = converted s @ half n h s"
proof -
  define s1 where "s1 = dac_irq s"
  have s1: "dac_signal s1" "dac_write_pos s1 = (if h then n else 0)" "end_cb s1 = Continuous_cb" "dac_running s1"
      "conv_start s1 = 0" "conv_len s1 = 2 * n" "second_half s1 = (\<not> h)" "dac_buffer s1 = dac_buffer s"
      "converted s1 = converted s @ half n h s"
    using assms by (simp_all add: s1_def playing_def half_def dac_irq_def dac_cb_defs Let_def)
  have "dac_wait s = Some (s1\<lparr>dac_signal := False\<rparr>)"
    using assms(1) s1(1) by (simp add: playing_def dac_wait_irq dac_wait_signalled s1_def[symmetric])
  then show ?thesis using s1 by (simp add: dac_next_write_pos_def)
qed

lemma write_half:
  assumes "2 * n \<le> length (dac_buffer s)" "length xs \<le> n"
  shows "half n (\<not> h) (write_samples (if h then n else 0) xs s) = half n (\<not> h) s"
    and "take (length xs) (drop (if h then n else 0) (dac_buffer (write_samples (if h then n else 0) xs s))) = xs"
    and "length (dac_buffer (write_samples (if h then n else 0) xs s)) = length (dac_buffer s)"
  using assms by (cases "n = 0"; auto simp: half_def write_samples_def min_def take_drop)+

text \<open>What a callback delivers when it is asked for halves of \<open>n\<close> samples: full halves, then a last one.\<close>

inductive pulls :: "'a audio_callback \<Rightarrow> nat \<Rightarrow> 'a \<Rightarrow> sample list list \<Rightarrow> sample list \<Rightarrow> 'a \<Rightarrow> bool" for cb n where
  pulls_last: "cb a n = (True, xs, a') \<Longrightarrow> length xs \<le> n \<Longrightarrow> pulls cb n a [] xs a'"
| pulls_more: "cb a n = (False, xs, a') \<Longrightarrow> length xs = n \<Longrightarrow> pulls cb n a' css ys a'' \<Longrightarrow> pulls cb n a (xs # css) ys a''"

lemma copy_loop_end:
  assumes "playing n h out s" "0 < n" "length xs \<le> n"
    and "dac_next_write_pos s = Some (if h then n else 0, s')"
    and "end_cb s' = Continuous_cb \<and> dac_running s' \<and> \<not> dac_signal s' \<and> conv_start s' = 0 \<and> conv_len s' = 2 * n
      \<and> second_half s' = (\<not> h) \<and> dac_buffer s' = dac_buffer s \<and> converted s' = converted s @ half n h s"
  shows "\<exists>s''. dac_last_conversion (if h then n else 0) (length xs) (write_samples (if h then n else 0) xs s') = Some s''
    \<and> converted s'' = out @ even_prefix xs \<and> \<not> dac_running s''"
proof -
  let ?pos = "if h then n else 0"
  define m where "m = length xs - length xs mod 2"
  have m: "m = 2 * (m div 2)" "m \<le> length xs" unfolding m_def by presburger+
  define w where "w = write_samples ?pos xs s'"
  have L: "2 * n \<le> length (dac_buffer s')" using assms(1,5) by (simp add: playing_def)
  note wh = write_half[OF L assms(3), of h]
  have w: "end_cb w = Continuous_cb" "dac_running w" "\<not> dac_signal w" "conv_start w = 0" "conv_len w = 2 * n"
      "second_half w = (\<not> h)" "converted w = converted s @ half n h s" "half n (\<not> h) w = half n (\<not> h) s"
    using assms(5) wh(1) by (simp_all add: w_def write_samples_def half_def)
  have out: "converted w @ half n (\<not> h) w = out" using assms(1) w by (simp add: playing_def)
  show ?thesis
  proof (cases "0 < m")
    case True
    define w1 where "w1 = w\<lparr>dac_write_pos := ?pos, conversion_len := m, end_cb := Last_cb\<rparr>"
    define w2 where "w2 = dac_irq w1"
    have w2: "end_cb w2 = Single_cb" "dac_running w2" "\<not> dac_signal w2" "conv_len w2 = 2 * (m div 2)" "\<not> second_half w2"
        "conv_start w2 = ?pos" "converted w2 = out" "dac_buffer w2 = dac_buffer w"
      using w out m by (simp_all add: w2_def w1_def dac_irq_def dac_cb_defs Let_def half_def)
    obtain s'' where s'': "dac_wait w2 = Some s''" "converted s'' = out @ take m (drop ?pos (dac_buffer w))" "\<not> dac_running s''"
      using single_conversion_wait[OF w2(1-5)] w2(6-8) m(1) by auto
    have "take m (drop ?pos (dac_buffer w)) = take m xs"
      using wh(2) m(2) unfolding w_def by (metis min.absorb1 take_take)
    moreover have "dac_wait w1 = dac_wait w2" using w(3) by (simp add: w2_def dac_wait_irq w1_def)
    ultimately show ?thesis
      using s'' True by (simp add: dac_last_conversion_def m_def even_prefix_def w1_def w_def)
  next
    case False
    define w2 where "w2 = dac_irq (w\<lparr>end_cb := Stop_cb\<rparr>)"
    have w2: "dac_signal w2" "\<not> dac_running w2" "converted w2 = out"
      using w out by (simp_all add: w2_def dac_irq_def dac_cb_defs Let_def half_def)
    have "dac_wait (w\<lparr>end_cb := Stop_cb\<rparr>) = Some (w2\<lparr>dac_signal := False\<rparr>)"
      using w(3) w2(1) by (simp add: w2_def dac_wait_irq dac_wait_signalled)
    then show ?thesis
      using w2 False by (simp add: dac_last_conversion_def m_def even_prefix_def w_def)
  qed
qed

lemma copy_loop_converts:
  assumes "pulls cb n a css ys a'" "playing n h out s" "0 < n" "len div 2 = n"
  shows "\<exists>s'. dac_copy_loop cb len a s = Some (a', s') \<and> converted s' = out @ concat css @ even_prefix ys \<and> \<not> dac_running s'"
  using assms
proof (induction arbitrary: h out s rule: pulls.induct)
  case (pulls_last a xs a')
  obtain s1 where s1: "dac_next_write_pos s = Some (if h then n else 0, s1)"
      "end_cb s1 = Continuous_cb \<and> dac_running s1 \<and> \<not> dac_signal s1 \<and> conv_start s1 = 0 \<and> conv_len s1 = 2 * n
      \<and> second_half s1 = (\<not> h) \<and> dac_buffer s1 = dac_buffer s \<and> converted s1 = converted s @ half n h s"
    using next_write_pos_playing[OF pulls_last.prems(1,2)] by blast
  obtain s2 where "dac_last_conversion (if h then n else 0) (length xs) (write_samples (if h then n else 0) xs s1) = Some s2"
      "converted s2 = out @ even_prefix xs" "\<not> dac_running s2"
    using copy_loop_end[OF pulls_last.prems(1,2) pulls_last.hyps(2) s1] by blast
  then show ?case
    using s1(1) pulls_last.hyps(1) pulls_last.prems(3) by (subst dac_copy_loop.simps) simp
next
  case (pulls_more a xs a1 css ys a2)
  let ?pos = "if h then n else 0"
  obtain s1 where s1: "dac_next_write_pos s = Some (?pos, s1)"
      "end_cb s1 = Continuous_cb \<and> dac_running s1 \<and> \<not> dac_signal s1 \<and> conv_start s1 = 0 \<and> conv_len s1 = 2 * n
      \<and> second_half s1 = (\<not> h) \<and> dac_buffer s1 = dac_buffer s \<and> converted s1 = converted s @ half n h s"
    using next_write_pos_playing[OF pulls_more.prems(1,2)] by blast
  define w where "w = write_samples ?pos xs s1"
  have L: "2 * n \<le> length (dac_buffer s1)" using pulls_more.prems(1) s1(2) by (simp add: playing_def)
  note wh = write_half[OF L, of xs h]
  have "half n h w = xs" using wh(2) pulls_more.hyps(2) by (simp add: w_def half_def)
  moreover have "half n (\<not> h) w = half n (\<not> h) s"
    using wh(1) pulls_more.hyps(2) s1(2) by (simp add: w_def half_def)
  ultimately have "playing n (\<not> h) (out @ xs) w"
    using pulls_more.prems(1) s1(2) wh(3) pulls_more.hyps(2) by (simp add: playing_def w_def write_samples_def)
  from pulls_more.IH[OF this pulls_more.prems(2,3)] obtain s' where
    "dac_copy_loop cb len a1 w = Some (a2, s')" "converted s' = (out @ xs) @ concat css @ even_prefix ys" "\<not> dac_running s'"
    by blast
  then show ?case
    using s1(1) pulls_more.hyps(1) pulls_more.prems(3) by (subst dac_copy_loop.simps) (simp add: w_def)
qed

text \<open>The sample rate divides the timer clock unchecked.\<close>

lemma dac_zero_rate_undefined:
  assumes "2 \<le> len" "cb a (len - len mod 2) = (False, xs, a')"
  shows "audio_dac_convert timclk cb a 0 len s = None"
  using assms by (simp add: audio_dac_convert_def dac_continuous_conversion_def dac_start_conversion_def Let_def)

subsection \<open>A whole conversion\<close>

text \<open>\<open>delivers cb k a out a'\<close>: asked for \<open>k\<close> samples and then for halves, the callback delivers \<open>out\<close>,
  the last delivery cut to an even number of samples.\<close>

definition delivers :: "'a audio_callback \<Rightarrow> nat \<Rightarrow> 'a \<Rightarrow> sample list \<Rightarrow> 'a \<Rightarrow> bool" where
  "delivers cb k a out a' \<longleftrightarrow>
     (\<exists>xs. cb a k = (True, xs, a') \<and> length xs \<le> k \<and> out = even_prefix xs)
     \<or> (\<exists>xs a1 css ys. cb a k = (False, xs, a1) \<and> length xs = k \<and> pulls cb (k div 2) a1 css ys a'
          \<and> out = xs @ concat css @ even_prefix ys)"

lemma dac_convert_delivers:
  assumes "2 \<le> len" "len \<le> length (dac_buffer s)" "sample_rate \<noteq> 0"
    and "delivers cb (len - len mod 2) a out a'"
  shows "\<exists>s'. audio_dac_convert timclk cb a sample_rate len s = Some (AUDIO_DAC_OK, a', s')
    \<and> converted s' = converted s @ out \<and> \<not> dac_running s'"
proof -
  define k where "k = len - len mod 2"
  have k: "k = 2 * (k div 2)" "0 < k div 2" "k \<le> length (dac_buffer s)" using assms(1,2) unfolding k_def by presburger+
  from assms(4)[folded k_def, unfolded delivers_def] show ?thesis
  proof (elim disjE exE conjE)
    fix xs assume c: "cb a k = (True, xs, a')" "length xs \<le> k" "out = even_prefix xs"
    define w where "w = write_samples 0 xs (dac_start s)"
    define m where "m = length xs - length xs mod 2"
    have m: "m = 2 * (m div 2)" "m \<le> length xs" unfolding m_def by presburger+
    have w: "take (length xs) (dac_buffer w) = xs" "converted w = converted s"
      by (simp_all add: w_def write_samples_def dac_start_def)
    have "\<exists>s'. dac_single_conversion timclk sample_rate 0 (length xs) w = Some s' \<and> converted s' = converted s @ out"
    proof (cases "m = 0")
      case True
      then show ?thesis using w(2) c(3) by (simp add: dac_single_conversion_def even_prefix_def m_def)
    next
      case False
      let ?w1 = "w\<lparr>end_cb := Single_cb, dac_signal := False, conv_start := 0, conv_len := m, second_half := False,
        dac_running := True, timer_interval := timclk div sample_rate\<rparr>"
      obtain s' where "dac_wait ?w1 = Some s'" "converted s' = converted ?w1 @ take (2 * (m div 2)) (drop (conv_start ?w1) (dac_buffer ?w1))"
        using single_conversion_wait[of ?w1 "m div 2"] m(1) by auto
      moreover have "take (2 * (m div 2)) (dac_buffer w) = take m xs"
        using w(1) m by (metis min.absorb1 take_take)
      ultimately show ?thesis
        using False w(2) c(3) assms(3)
        by (simp add: dac_single_conversion_def dac_start_conversion_def even_prefix_def m_def Let_def)
    qed
    then show ?thesis
      using c(1) assms(1) unfolding k_def
      by (auto simp: audio_dac_convert_def Let_def w_def dac_stop_def k_def)
  next
    fix xs a1 css ys
    assume c: "cb a k = (False, xs, a1)" "length xs = k" "pulls cb (k div 2) a1 css ys a'"
      "out = xs @ concat css @ even_prefix ys"
    define w where "w = write_samples 0 xs (dac_start s)"
    define w1 where "w1 = w\<lparr>end_cb := Continuous_cb, dac_signal := False, conv_start := 0, conv_len := k,
      second_half := False, dac_running := True, timer_interval := timclk div sample_rate\<rparr>"
    have start: "dac_continuous_conversion timclk sample_rate 0 k w = Some w1"
      using assms(3) by (simp add: dac_continuous_conversion_def dac_start_conversion_def w1_def)
    have "take k (dac_buffer w) = xs" "length (dac_buffer w) = length (dac_buffer s)" "converted w = converted s"
      using c(2) k(3) by (simp_all add: w_def write_samples_def dac_start_def)
    moreover have "half (k div 2) False w1 @ half (k div 2) True w1 = take k (dac_buffer w)"
      using take_half_twice[of "k div 2" "dac_buffer w"] k(1) by (simp add: half_def w1_def)
    ultimately have "playing (k div 2) False (converted s @ xs) w1"
      using k by (simp add: playing_def w1_def)
    from copy_loop_converts[OF c(3) this k(2) refl]
    obtain s' where "dac_copy_loop cb k a1 w1 = Some (a', s')" "converted s' = (converted s @ xs) @ concat css @ even_prefix ys"
      by blast
    then show ?thesis
      using c(1,4) assms(1) start unfolding k_def
      by (simp add: audio_dac_convert_def Let_def w_def dac_stop_def)
  qed
qed

text \<open>C11. The DAC driver converts what the data callback delivers, all of it, once and in order, and then
  stops: for a buffer of at least two samples and a sample rate that is not zero, a conversion returns, and
  the samples converted are those of the first fill, of the halves and of the last delivery (cut to an even
  number of samples), through the changes of the interrupt callbacks.\<close>
theorem dac_converts_in_order:
  assumes "2 \<le> len" "len \<le> length (dac_buffer s)" "sample_rate \<noteq> 0"
    and "delivers cb (len - len mod 2) a out a'"
  shows "\<exists>s'. audio_dac_convert timclk cb a sample_rate len s = Some (AUDIO_DAC_OK, a', s')
    \<and> converted s' = converted s @ out \<and> \<not> dac_running s'"
  by (rule dac_convert_delivers[OF assms])

definition dac_idle :: "nat \<Rightarrow> dac" where
  "dac_idle n = \<lparr>dac_buffer = replicate n 0, end_cb = No_cb, conversion_len = 0, dac_write_pos = 0,
     dac_signal = False, conv_start = 0, conv_len = 0, second_half = False, dac_running = False,
     timer_interval = 0, converted = []\<rparr>"

definition list_callback :: "sample list audio_callback" where
  "list_callback xs n = (length xs \<le> n, take n xs, drop n xs)"

lemma dac_converts_in_order_witness:
  "\<exists>s'. audio_dac_convert 84000000 list_callback [1, 2, 3, 4, 5, 6, 7, 8, 9] 44100 5 (dac_idle 5)
      = Some (AUDIO_DAC_OK, [], s')
    \<and> converted s' = converted (dac_idle 5) @ [1, 2, 3, 4, 5, 6, 7, 8] \<and> \<not> dac_running s'"
proof (rule dac_converts_in_order)
  have p1: "pulls list_callback 2 [9] [] [9] []"
    by (rule pulls_last) (simp_all add: list_callback_def)
  have p2: "pulls list_callback 2 [7, 8, 9] [[7, 8]] [9] []"
    by (rule pulls_more[OF _ _ p1]) (simp_all add: list_callback_def)
  have "pulls list_callback 2 [5, 6, 7, 8, 9] [[5, 6], [7, 8]] [9] []"
    by (rule pulls_more[OF _ _ p2]) (simp_all add: list_callback_def)
  then show "delivers list_callback (5 - 5 mod 2) [1, 2, 3, 4, 5, 6, 7, 8, 9] [1, 2, 3, 4, 5, 6, 7, 8] []"
    by (intro delivers_def[THEN iffD2] disjI2 exI[of _ "[1, 2, 3, 4]"] exI[of _ "[5, 6, 7, 8, 9]"]
        exI[of _ "[[5, 6], [7, 8]]"] exI[of _ "[9]"])
      (simp add: list_callback_def even_prefix_def)
qed (simp_all add: dac_idle_def)

end
