(* ===== verification/Audio_Wav.thy ===== *)
theory Audio_Wav
  imports Audio_Dac Msgbus
begin

section \<open>WAV files and the audio thread (\<open>src/audio/audio_wav.c\<close>, \<open>audio_thread.c\<close>)\<close>

text \<open>
  The thread opens the requested file, parses its 44-byte header, and lets the DAC driver pull the
  samples from it. The file system is a library: \<open>fs_read f n\<close> says whether the read succeeded, gives
  the bytes read (at most \<open>n\<close>) and the file afterwards, \<open>fs_open\<close> and \<open>fs_close\<close> are \<open>f_open\<close> and
  \<open>f_close\<close>. The main results: the parser accepts exactly the headers of 16-bit mono PCM files and reads
  back the fields of a header (\<open>wav_read_header_spec\<close>), and playing such a file converts its samples,
  each with its sign bit flipped for the unsigned DAC, once and in order (\<open>audio_play_converts\<close>).
\<close>

record ('f, 'd) filesystem =
  fs_open :: "string \<Rightarrow> 'd \<Rightarrow> ('f \<times> 'd) option"
  fs_read :: "'f \<Rightarrow> nat \<Rightarrow> bool \<times> u8 list \<times> 'f"
  fs_close :: "'f \<Rightarrow> 'd \<Rightarrow> 'd"

definition WAV_HEADER_LEN :: nat where "WAV_HEADER_LEN = 44"

text \<open>\<open>buf[i] << k\<close> promotes to \<open>int\<close>; the result is read as an unsigned word.\<close>

definition u32_little_endian :: "u8 list \<Rightarrow> nat \<Rightarrow> u32" where
  "u32_little_endian buf i = ucast (buf ! i) OR push_bit 8 (ucast (buf ! (i + 1)))
     OR push_bit 16 (ucast (buf ! (i + 2))) OR push_bit 24 (ucast (buf ! (i + 3)))"

definition u16_little_endian :: "u8 list \<Rightarrow> nat \<Rightarrow> u16" where
  "u16_little_endian buf i = ucast (buf ! i) OR push_bit 8 (ucast (buf ! (i + 1)))"

record 'f wav_data =
  wav_file :: 'f
  sample_rate :: u32
  sample_size :: u8
  data_len :: u32
  data_pos :: u32

definition ascii :: "string \<Rightarrow> u8 list" where
  "ascii s = map (\<lambda>c. of_nat (of_char c)) s"

text \<open>\<open>memcmp(&buf[i], s, 4)\<close> is zero.\<close>

definition has_tag :: "u8 list \<Rightarrow> nat \<Rightarrow> string \<Rightarrow> bool" where
  "has_tag buf i s \<longleftrightarrow> take 4 (drop i buf) = ascii s"

definition wav_read_header ::
  "('f, 'd) filesystem \<Rightarrow> 'f \<Rightarrow> 'f wav_data \<Rightarrow> int \<times> 'f wav_data" where
  "wav_read_header fs file d =
     (let (ok, buf, file) = fs_read fs file WAV_HEADER_LEN;
          d = d\<lparr>wav_file := file\<rparr>
      in if \<not> ok \<or> length buf \<noteq> WAV_HEADER_LEN then (- 1, d)
      else if \<not> has_tag buf 0 ''RIFF'' \<or> \<not> has_tag buf 8 ''WAVE'' then (- 1, d)
      else if \<not> has_tag buf 12 ''fmt '' then (- 1, d)
      else if u32_little_endian buf 16 \<noteq> 16 then (- 1, d)
      else if u16_little_endian buf 20 \<noteq> 1 then (- 1, d)
      else if u16_little_endian buf 22 \<noteq> 1 then (- 1, d)
      else let d = d\<lparr>sample_rate := u32_little_endian buf 24,
                     sample_size := ucast (u16_little_endian buf 34 div 8)\<rparr>
           in if sample_size d \<noteq> 2 then (- 1, d)
           else if \<not> has_tag buf 36 ''data'' then (- 1, d)
           else (0, d\<lparr>data_len := u32_little_endian buf 40, data_pos := 0\<rparr>))"

text \<open>The samples in a buffer of bytes, little-endian; an odd byte at the end is not a sample.\<close>

fun le_samples :: "u8 list \<Rightarrow> sample list" where
  "le_samples (a # b # bs) = le_word16 [a, b] # le_samples bs"
| "le_samples _ = []"

definition wav_read_cb ::
  "('f, 'd) filesystem \<Rightarrow> 'f wav_data \<Rightarrow> nat \<Rightarrow> bool \<times> sample list \<times> 'f wav_data" where
  "wav_read_cb fs wav buf_len =
     (let len = of_nat (buf_len * 2) :: u32;
          len = (if data_len wav - data_pos wav < len then data_len wav - data_pos wav else len);
          (ok, bytes, file) = fs_read fs (wav_file wav) (unat len);
          wav = wav\<lparr>wav_file := file\<rparr>
      in if \<not> ok then (True, [], wav)
         else let n = of_nat (length bytes) :: u32;
                  samples = map (\<lambda>x. x + 0x8000) (le_samples bytes);
                  wav = wav\<lparr>data_pos := data_pos wav + n\<rparr>
              in (n \<noteq> len \<or> data_pos wav = data_len wav, samples, wav))"

subsection \<open>The audio thread\<close>

definition DAC_BUFFER_SIZE :: nat where "DAC_BUFFER_SIZE = 1000"

text \<open>One request: the status published, the decoder's static data, the DAC and the file system.\<close>

definition audio_thd_request ::
  "('f, 'd) filesystem \<Rightarrow> nat \<Rightarrow> string \<Rightarrow> 'f wav_data \<times> dac \<times> 'd
    \<Rightarrow> (audio_play_status \<times> 'f wav_data \<times> dac \<times> 'd) option" where
  "audio_thd_request fs timclk path = (\<lambda>(wav, s, disk).
     case fs_open fs path disk of None \<Rightarrow> Some (AUDIO_FILE_NOT_FOUND, wav, s, disk)
     | Some (file, disk) \<Rightarrow>
         let (res, wav) = wav_read_header fs file wav
         in if res \<noteq> 0 then Some (AUDIO_WAV_DECODE, wav, s, fs_close fs (wav_file wav) disk)
            else Option.bind
              (audio_dac_convert timclk (wav_read_cb fs) wav (unat (sample_rate wav)) DAC_BUFFER_SIZE s)
              (\<lambda>(_, wav, s). Some (AUDIO_OK, wav, s, fs_close fs (wav_file wav) disk)))"

text \<open>One round of \<open>audio_thd_main\<close>, with the request that ended its wait.\<close>

definition audio_thd_round ::
  "('t, 'b) msgbus \<Rightarrow> ('f, 'd) filesystem \<Rightarrow> nat \<Rightarrow> 't \<Rightarrow> message \<Rightarrow> 'f wav_data \<times> dac \<times> 'd \<times> 'b
    \<Rightarrow> ('f wav_data \<times> dac \<times> 'd \<times> 'b) option" where
  "audio_thd_round mb fs timclk result_topic req = (\<lambda>(wav, s, disk, b).
     case req of Audio_play_request_msg path \<Rightarrow>
       Option.bind (audio_thd_request fs timclk path (wav, s, disk)) (\<lambda>(res, wav, s, disk).
         Some (wav, s, disk, mb_publish mb result_topic (Audio_play_result_msg res) b))
     | _ \<Rightarrow> None)"

subsection \<open>Headers\<close>

text \<open>A header, field by field; the fields the parser ignores are arguments too.\<close>

definition wav_header :: "u32 \<Rightarrow> u32 \<Rightarrow> u32 \<Rightarrow> u16 \<Rightarrow> u16 \<Rightarrow> u32 \<Rightarrow> u8 list" where
  "wav_header riff_size rate byte_rate align bits len =
     ascii ''RIFF'' @ le_bytes32 riff_size @ ascii ''WAVE'' @ ascii ''fmt '' @ le_bytes32 16
     @ le_bytes16 1 @ le_bytes16 1 @ le_bytes32 rate @ le_bytes32 byte_rate @ le_bytes16 align
     @ le_bytes16 bits @ ascii ''data'' @ le_bytes32 len"

lemma u32_little_endian_take:
  assumes "i + 4 \<le> length buf"
  shows "u32_little_endian buf i = le_word32 (take 4 (drop i buf))"
proof -
  have "take 4 (drop i buf) = [buf ! i, buf ! (i + 1), buf ! (i + 2), buf ! (i + 3)]"
    using assms by (intro nth_equalityI) (auto simp: nth_Cons less_Suc_eq numeral_eq_Suc split: nat.splits)
  then show ?thesis by (simp add: u32_little_endian_def or.assoc)
qed

lemma u16_little_endian_take:
  assumes "i + 2 \<le> length buf"
  shows "u16_little_endian buf i = le_word16 (take 2 (drop i buf))"
proof -
  have "take 2 (drop i buf) = [buf ! i, buf ! (i + 1)]"
    using assms by (intro nth_equalityI) (auto simp: nth_Cons less_Suc_eq numeral_eq_Suc split: nat.splits)
  then show ?thesis by (simp add: u16_little_endian_def)
qed

lemma length_ascii [simp]: "length (ascii s) = length s"
  by (simp add: ascii_def)

lemma le_bytes16_word: "length bs = 2 \<Longrightarrow> le_bytes16 (le_word16 bs) = bs"
proof -
  assume "length bs = 2"
  then obtain a b where bs: "bs = [a, b]" by (auto simp: numeral_eq_Suc length_Suc_conv)
  show ?thesis
    unfolding bs le_word16.simps le_bytes16_def
    by (simp, intro conjI; rule bit_word_eqI) (auto simp: bit_simps dest: bit_imp_le_length)
qed

lemma length_wav_header [simp]: "length (wav_header a r b c d l) = 44"
  by (simp add: wav_header_def)

lemma wav_header_fields:
  assumes "h = wav_header a r b c d l"
  shows "take 4 (drop 0 h) = ascii ''RIFF''" "take 4 (drop 8 h) = ascii ''WAVE''" "take 4 (drop 12 h) = ascii ''fmt ''"
    "take 4 (drop 16 h) = le_bytes32 16" "take 2 (drop 20 h) = le_bytes16 1" "take 2 (drop 22 h) = le_bytes16 1"
    "take 4 (drop 24 h) = le_bytes32 r" "take 2 (drop 34 h) = le_bytes16 d" "take 4 (drop 36 h) = ascii ''data''"
    "take 4 (drop 40 h) = le_bytes32 l"
  by (simp_all add: assms wav_header_def)

lemma drop_split: "drop n h = take m (drop n h) @ drop (n + m) h"
  by (metis append_take_drop_id drop_drop add.commute)

lemma header_split:
  assumes "length h = 44"
  shows "h = take 4 (drop 0 h) @ take 4 (drop 4 h) @ take 4 (drop 8 h) @ take 4 (drop 12 h) @ take 4 (drop 16 h)
    @ take 2 (drop 20 h) @ take 2 (drop 22 h) @ take 4 (drop 24 h) @ take 4 (drop 28 h) @ take 2 (drop 32 h)
    @ take 2 (drop 34 h) @ take 4 (drop 36 h) @ take 4 (drop 40 h)"
  using drop_split[of 0 h 4] drop_split[of 4 h 4] drop_split[of 8 h 4] drop_split[of 12 h 4] drop_split[of 16 h 4]
    drop_split[of 20 h 2] drop_split[of 22 h 2] drop_split[of 24 h 4] drop_split[of 28 h 4] drop_split[of 32 h 2]
    drop_split[of 34 h 2] drop_split[of 36 h 4] drop_split[of 40 h 4] assms
  by simp

lemma header_rebuild:
  assumes "length h = 44"
    and "has_tag h 0 ''RIFF''" "has_tag h 8 ''WAVE''" "has_tag h 12 ''fmt ''" "has_tag h 36 ''data''"
    and "u32_little_endian h 16 = 16" "u16_little_endian h 20 = 1" "u16_little_endian h 22 = 1"
  shows "h = wav_header (u32_little_endian h 4) (u32_little_endian h 24) (u32_little_endian h 28)
    (u16_little_endian h 32) (u16_little_endian h 34) (u32_little_endian h 40)"
proof -
  have w4: "take 4 (drop i h) = le_bytes32 (u32_little_endian h i)" if "i + 4 \<le> 44" for i
    using that assms(1) by (simp add: u32_little_endian_take le_bytes32_word)
  have w2: "take 2 (drop i h) = le_bytes16 (u16_little_endian h i)" if "i + 2 \<le> 44" for i
    using that assms(1) by (simp add: u16_little_endian_take le_bytes16_word)
  have tags: "take 4 (drop 0 h) = ascii ''RIFF''" "take 4 (drop 8 h) = ascii ''WAVE''"
      "take 4 (drop 12 h) = ascii ''fmt ''" "take 4 (drop 36 h) = ascii ''data''"
    using assms(2-5) by (simp_all only: has_tag_def)
  have nums: "take 4 (drop 16 h) = le_bytes32 16" "take 2 (drop 20 h) = le_bytes16 1" "take 2 (drop 22 h) = le_bytes16 1"
    using w4[of 16] w2[of 20] w2[of 22] assms(6-8) by simp_all
  show ?thesis
    unfolding wav_header_def
    by (subst header_split[OF assms(1)]) (simp only: tags nums w4 w2)
qed

lemma wav_read_header_accepts:
  assumes "fs_read fs file 44 = (True, wav_header a r b c bits l, file')" "ucast (bits div 8) = (2 :: u8)"
  shows "wav_read_header fs file d =
    (0, d\<lparr>wav_file := file', sample_rate := r, sample_size := 2, data_len := l, data_pos := 0\<rparr>)"
proof -
  note f = wav_header_fields[OF refl, of a r b c bits l]
  show ?thesis
    using assms f
    by (simp add: wav_read_header_def WAV_HEADER_LEN_def has_tag_def u32_little_endian_take u16_little_endian_take)
qed

lemma wav_read_header_rejects:
  assumes "fs_read fs file 44 = (ok, h, file')" "fst (wav_read_header fs file d) = 0"
  shows "ok \<and> (\<exists>a r b c bits l. h = wav_header a r b c bits l \<and> ucast (bits div 8) = (2 :: u8))"
proof -
  have "ok \<and> length h = 44 \<and> has_tag h 0 ''RIFF'' \<and> has_tag h 8 ''WAVE'' \<and> has_tag h 12 ''fmt '' \<and> has_tag h 36 ''data''
    \<and> u32_little_endian h 16 = 16 \<and> u16_little_endian h 20 = 1 \<and> u16_little_endian h 22 = 1
    \<and> ucast (u16_little_endian h 34 div 8) = (2 :: u8)"
    using assms by (auto simp: wav_read_header_def WAV_HEADER_LEN_def Let_def split: if_splits)
  then show ?thesis using header_rebuild[of h] by metis
qed

subsection \<open>Samples\<close>

lemma le_samples_append: "even (length xs) \<Longrightarrow> le_samples (xs @ ys) = le_samples xs @ le_samples ys"
  by (induction xs rule: le_samples.induct) auto

lemma length_le_samples [simp]: "length (le_samples bs) = length bs div 2"
  by (induction bs rule: le_samples.induct) auto

abbreviation dac_samples :: "u8 list \<Rightarrow> sample list" where
  "dac_samples bs \<equiv> map (\<lambda>x. x + 0x8000) (le_samples bs)"

text \<open>A file system whose usable files are their remaining content; the number of bytes to read is a 32-bit word.\<close>

locale readable_fs =
  fixes fs :: "('f, 'd) filesystem" and content :: "'f \<Rightarrow> u8 list" and usable :: "'f \<Rightarrow> bool"
  assumes read: "usable f \<Longrightarrow> n < 2 ^ 32 \<Longrightarrow>
    \<exists>f'. fs_read fs f n = (True, take n (content f), f') \<and> content f' = drop n (content f) \<and> usable f'"
begin

lemma wav_read_cb_last:
  assumes "unat (data_len w - data_pos w) \<le> 2 * n \<or> length (content (wav_file w)) < 2 * n" "2 * n < 2 ^ 32" "usable (wav_file w)"
  shows "\<exists>w'. wav_read_cb fs w n = (True, dac_samples (take (unat (data_len w - data_pos w)) (content (wav_file w)) ), w')
    \<and> length (take (unat (data_len w - data_pos w)) (content (wav_file w))) div 2 \<le> n"
proof -
  define r where "r = unat (data_len w - data_pos w)"
  define len where "len = (if data_len w - data_pos w < of_nat (n * 2) then data_len w - data_pos w else of_nat (n * 2))"
  have u: "unat (of_nat (n * 2) :: u32) = 2 * n" using assms(2) by (simp add: of_nat_inverse mult.commute)
  have len: "unat len = min r (2 * n)" using u by (auto simp: len_def r_def word_less_nat_alt)
  have "unat len < 2 ^ 32" by (rule order.strict_trans2[OF unsigned_less]) simp
  then obtain f' where f': "fs_read fs (wav_file w) (unat len) = (True, take (unat len) (content (wav_file w)), f')"
    using read[OF assms(3)] by blast
  have t: "take (unat len) (content (wav_file w)) = take r (content (wav_file w))"
    using assms(1) unfolding len r_def[symmetric] by (auto simp: min_def)
  have fin: "of_nat (length (take r (content (wav_file w)))) \<noteq> len
      \<or> data_pos w + of_nat (length (take r (content (wav_file w)))) = data_len w"
  proof (cases "r \<le> length (content (wav_file w)) \<and> r \<le> 2 * n")
    case True
    then have "of_nat (length (take r (content (wav_file w)))) = data_len w - data_pos w" by (simp add: r_def)
    then show ?thesis by simp
  next
    case False
    then have "length (take r (content (wav_file w))) < unat len"
      using assms(1) unfolding len r_def[symmetric] by auto
    moreover have "unat (of_nat (length (take r (content (wav_file w)))) :: u32) = length (take r (content (wav_file w)))"
    proof -
      have "unat len < 2 ^ 32" using unsigned_less[of len] by simp
      with calculation show ?thesis by (intro of_nat_inverse) auto
    qed
    ultimately show ?thesis by force
  qed
  have "length (take r (content (wav_file w))) \<le> 2 * n"
    using assms(1) by (auto simp: r_def)
  then show ?thesis
    using f' fin unfolding wav_read_cb_def Let_def len_def[symmetric] t r_def[symmetric] by auto
qed

lemma wav_read_cb_more:
  assumes "2 * n < unat (data_len w - data_pos w)" "2 * n \<le> length (content (wav_file w))" "2 * n < 2 ^ 32" "0 < n" "usable (wav_file w)"
  shows "\<exists>w'. wav_read_cb fs w n = (False, dac_samples (take (2 * n) (content (wav_file w))), w')
    \<and> content (wav_file w') = drop (2 * n) (content (wav_file w)) \<and> usable (wav_file w')
    \<and> unat (data_len w' - data_pos w') = unat (data_len w - data_pos w) - 2 * n"
proof -
  have u: "unat (of_nat (n * 2) :: u32) = 2 * n" using assms(3) by (simp add: of_nat_inverse mult.commute)
  then have len: "(if data_len w - data_pos w < of_nat (n * 2) then data_len w - data_pos w else of_nat (n * 2)) = (of_nat (n * 2) :: u32)"
    using assms(1) by (auto simp: word_less_nat_alt)
  obtain f' where f': "fs_read fs (wav_file w) (2 * n) = (True, take (2 * n) (content (wav_file w)), f')"
      "content f' = drop (2 * n) (content (wav_file w))" "usable f'"
    using read[OF assms(5,3)] by blast
  have sub: "data_len w - (data_pos w + of_nat (n * 2)) = data_len w - data_pos w - of_nat (n * 2)" by simp
  have r: "unat (data_len w - (data_pos w + of_nat (n * 2))) = unat (data_len w - data_pos w) - 2 * n"
    unfolding sub using assms(1) u by (simp add: unat_sub word_le_nat_alt del: of_nat_mult)
  then have "data_pos w + of_nat (n * 2) \<noteq> data_len w"
    using assms(1) by auto
  then show ?thesis
    using f' r assms(2) unfolding wav_read_cb_def Let_def len u
    by (simp add: min_absorb1 mult.commute del: of_nat_mult)
qed

lemma wav_pulls:
  assumes "0 < n" "2 * n < 2 ^ 32" "usable (wav_file w)"
  shows "\<exists>css ys w'. pulls (wav_read_cb fs) n w css ys w' \<and> (\<forall>c \<in> set css. length c = n)
    \<and> concat css @ ys = dac_samples (take (unat (data_len w - data_pos w)) (content (wav_file w)))"
  using assms(3)
proof (induction "unat (data_len w - data_pos w)" arbitrary: w rule: less_induct)
  case less
  let ?r = "unat (data_len w - data_pos w)" and ?c = "content (wav_file w)"
  show ?case
  proof (cases "?r \<le> 2 * n \<or> length ?c < 2 * n")
    case True
    from wav_read_cb_last[OF this assms(2) less.prems] obtain w' where
      "wav_read_cb fs w n = (True, dac_samples (take ?r ?c), w')" "length (take ?r ?c) div 2 \<le> n" by blast
    then have "pulls (wav_read_cb fs) n w [] (dac_samples (take ?r ?c)) w'"
      by (intro pulls_last) simp_all
    then show ?thesis by force
  next
    case False
    then obtain w' where w': "wav_read_cb fs w n = (False, dac_samples (take (2 * n) ?c), w')"
        "content (wav_file w') = drop (2 * n) ?c" "unat (data_len w' - data_pos w') = ?r - 2 * n"
        "usable (wav_file w')"
      using wav_read_cb_more[of n w] assms(1,2) less.prems by auto
    obtain css ys w'' where p: "pulls (wav_read_cb fs) n w' css ys w''" "\<forall>c \<in> set css. length c = n"
        "concat css @ ys = dac_samples (take (?r - 2 * n) (drop (2 * n) ?c))"
      using less.hyps[of w'] w'(2,3,4) False assms(1) by auto
    have len: "length (dac_samples (take (2 * n) ?c)) = n" using False by simp
    have "take ?r ?c = take (2 * n) ?c @ take (?r - 2 * n) (drop (2 * n) ?c)"
      using False take_add[of "2 * n" "?r - 2 * n" ?c] by simp
    then have "dac_samples (take (2 * n) ?c) @ concat css @ ys = dac_samples (take ?r ?c)"
      using p(3) False by (simp add: le_samples_append)
    with pulls_more[OF w'(1) len p(1)] p(2) len show ?thesis
      by (intro exI[of _ "dac_samples (take (2 * n) ?c) # css"] exI[of _ ys] exI[of _ w'']) auto
  qed
qed

lemma even_length_concat: "\<forall>c \<in> set css. length c = n \<Longrightarrow> even n \<Longrightarrow> even (length (concat css))"
  by (induction css) auto

lemma even_prefix_append: "even (length xs) \<Longrightarrow> even_prefix (xs @ ys) = xs @ even_prefix ys"
  by (cases ys) (auto simp: even_prefix_def mod_2_eq_odd take_Cons')

lemma wav_delivers:
  assumes "usable (wav_file w)"
  shows "\<exists>w'. delivers (wav_read_cb fs) 1000 w
    (even_prefix (dac_samples (take (unat (data_len w - data_pos w)) (content (wav_file w))))) w'"
proof -
  let ?r = "unat (data_len w - data_pos w)" and ?c = "content (wav_file w)"
  show ?thesis
  proof (cases "?r \<le> 2 * 1000 \<or> length ?c < 2 * 1000")
    case True
    from wav_read_cb_last[OF this _ assms] obtain w' where
      "wav_read_cb fs w 1000 = (True, dac_samples (take ?r ?c), w')" "length (take ?r ?c) div 2 \<le> 1000" by auto
    then show ?thesis unfolding delivers_def by (intro exI[of _ w'] disjI1) auto
  next
    case False
    then obtain w1 where w1: "wav_read_cb fs w 1000 = (False, dac_samples (take (2 * 1000) ?c), w1)"
        "content (wav_file w1) = drop (2 * 1000) ?c" "unat (data_len w1 - data_pos w1) = ?r - 2 * 1000" "usable (wav_file w1)"
      using wav_read_cb_more[of 1000 w] assms by auto
    obtain css ys w2 where p: "pulls (wav_read_cb fs) 500 w1 css ys w2" "\<forall>c \<in> set css. length c = 500"
        "concat css @ ys = dac_samples (take (?r - 2 * 1000) (drop (2 * 1000) ?c))"
      using wav_pulls[of 500 w1] w1(2,3,4) by auto
    have len: "length (dac_samples (take (2 * 1000) ?c)) = 1000" using False by simp
    have "take ?r ?c = take (2 * 1000) ?c @ take (?r - 2 * 1000) (drop (2 * 1000) ?c)"
      using False take_add[of "2 * 1000" "?r - 2 * 1000" ?c] by simp
    then have "dac_samples (take ?r ?c) = dac_samples (take (2 * 1000) ?c) @ concat css @ ys"
      using p(3) False by (simp add: le_samples_append)
    also have "even_prefix \<dots> = dac_samples (take (2 * 1000) ?c) @ concat css @ even_prefix ys"
      using len even_length_concat[OF p(2)] by (simp add: even_prefix_append del: length_map)
    finally show ?thesis
      using w1(1) len p(1) unfolding delivers_def
      by (intro exI[of _ w2] disjI2 exI[of _ "dac_samples (take (2 * 1000) ?c)"] exI[of _ w1] exI[of _ css] exI[of _ ys]) simp
  qed
qed

lemma audio_request_converts:
  assumes "fs_open fs path disk = Some (file, disk1)"
    and "content file = wav_header a r b c bits l @ bytes" "ucast (bits div 8) = (2 :: u8)" "r \<noteq> 0"
    and "length (dac_buffer s) = 1000" "usable file"
  shows "\<exists>wav' s' disk'. audio_thd_request fs timclk path (wav, s, disk) = Some (AUDIO_OK, wav', s', disk')
    \<and> converted s' = converted s @ even_prefix (dac_samples (take (unat l) bytes)) \<and> \<not> dac_running s'"
proof -
  obtain file' where f: "fs_read fs file 44 = (True, wav_header a r b c bits l, file')" "content file' = bytes" "usable file'"
    using read[OF assms(6), of 44] assms(2) by auto
  define w where "w = wav\<lparr>wav_file := file', sample_rate := r, sample_size := 2, data_len := l, data_pos := 0\<rparr>"
  have w: "wav_read_header fs file wav = (0, w)"
    unfolding w_def by (rule wav_read_header_accepts[OF f(1) assms(3)])
  obtain w' where "delivers (wav_read_cb fs) (1000 - 1000 mod 2) w (even_prefix (dac_samples (take (unat l) bytes))) w'"
    using wav_delivers[of w] f(2,3) by (auto simp: w_def)
  from dac_convert_delivers[OF _ _ _ this, of s "unat r" timclk] obtain s' where
    "audio_dac_convert timclk (wav_read_cb fs) w (unat r) 1000 s = Some (AUDIO_DAC_OK, w', s')"
    "converted s' = converted s @ even_prefix (dac_samples (take (unat l) bytes))" "\<not> dac_running s'"
    using assms(4,5) by (auto simp: unat_eq_0)
  then show ?thesis
    using assms(1) w by (simp add: audio_thd_request_def DAC_BUFFER_SIZE_def) (simp add: w_def)
qed

end

text \<open>Files in memory.\<close>

definition list_fs :: "(u8 list, (string \<times> u8 list) list) filesystem" where
  "list_fs = \<lparr>fs_open = (\<lambda>p d. map_option (\<lambda>c. (c, d)) (map_of d p)),
     fs_read = (\<lambda>f n. (True, take n f, drop n f)), fs_close = (\<lambda>f d. d)\<rparr>"

interpretation list_fs: readable_fs list_fs "\<lambda>f. f" "\<lambda>_. True"
  by unfold_locales (simp add: list_fs_def)

subsection \<open>Properties\<close>



text \<open>Playing a file: when the file opens, has a valid header with a sample rate that is not zero, the
  request is answered with success, and the DAC has converted the samples of the data chunk, as many as the
  header announces and the file holds, each with its sign bit flipped, once and in order; only an odd last
  sample is dropped.\<close>
lemma audio_play_converts:
  assumes "readable_fs fs content usable" and "fs_open fs path disk = Some (file, disk1)"
    and "content file = wav_header a r b c bits l @ bytes" "ucast (bits div 8) = (2 :: u8)" "r \<noteq> 0"
    and "length (dac_buffer s) = 1000" "usable file"
  shows "\<exists>wav' s' disk'. audio_thd_request fs timclk path (wav, s, disk) = Some (AUDIO_OK, wav', s', disk')
    \<and> converted s' = converted s @ even_prefix (dac_samples (take (unat l) bytes)) \<and> \<not> dac_running s'"
  by (rule readable_fs.audio_request_converts[OF assms])

lemma audio_play_converts_witness:
  "\<exists>wav' s' disk'. audio_thd_request list_fs 84000000 ''a.wav''
      (\<lparr>wav_file = [], sample_rate = 0, sample_size = 0, data_len = 0, data_pos = 0\<rparr>, dac_idle 1000, [(''a.wav'', wav_header 0 44100 88200 2 16 6 @ [0, 0, 255, 127, 7, 0])]) = Some (AUDIO_OK, wav', s', disk')
    \<and> converted s' = converted (dac_idle 1000) @ even_prefix (dac_samples (take (unat (6 :: u32)) [0, 0, 255, 127, 7, 0]))
    \<and> \<not> dac_running s'"
  by (rule audio_play_converts[OF list_fs.readable_fs_axioms, where a = 0 and b = 88200 and c = 2 and bits = 16 and l = 6 and r = 44100])
    (simp_all add: list_fs_def dac_idle_def)

end
