(* ===== verification/Storage.thy ===== *)
theory Storage
  imports Prelude
begin

section \<open>SD card and disk interface (\<open>src/sdcard.c\<close>, \<open>src/fatfs_diskio.c\<close>)\<close>

text \<open>
  \<open>sdcard.c\<close> mounts and unmounts the card as it is inserted and removed; \<open>fatfs_diskio.c\<close> is the disk
  layer the FAT file system calls. The SD driver and the file system are libraries: their functions are
  the fields of \<open>sd_lib\<close> over an opaque state \<open>'h\<close>. The locale \<open>sd_card_lib\<close> states what the mount logic
  relies on, \<open>block_device\<close> what the disk layer relies on; both are interpreted on a simulated card.
\<close>

subsection \<open>Mounting\<close>

record 'h sd_lib =
  sdcIsCardInserted :: "'h \<Rightarrow> bool"
  sdcConnect :: "'h \<Rightarrow> bool \<times> 'h"        \<comment> \<open>\<open>HAL_SUCCESS\<close>?\<close>
  sdcDisconnect :: "'h \<Rightarrow> 'h"
  f_mount :: "'h \<Rightarrow> bool \<times> 'h"           \<comment> \<open>\<open>FR_OK\<close>?\<close>
  f_unmount :: "'h \<Rightarrow> 'h"

text \<open>The state: the flag \<open>sdcard_mounted\<close> and the libraries.\<close>

type_synonym 'h sd_state = "bool \<times> 'h"

definition sdcard_mount :: "'h sd_lib \<Rightarrow> 'h sd_state \<Rightarrow> 'h sd_state" where
  "sdcard_mount L = (\<lambda>(mounted, h).
     let (ok, h) = sdcConnect L h in
     if \<not> ok then (False, h)
     else let (ok, h) = f_mount L h in if \<not> ok then (False, sdcDisconnect L h) else (True, h))"

definition sdcard_unmount :: "'h sd_lib \<Rightarrow> 'h sd_state \<Rightarrow> 'h sd_state" where
  "sdcard_unmount L = (\<lambda>(mounted, h). (False, sdcDisconnect L (f_unmount L h)))"

definition sdcard_automount :: "'h sd_lib \<Rightarrow> 'h sd_state \<Rightarrow> 'h sd_state" where
  "sdcard_automount L = (\<lambda>(mounted, h).
     if sdcIsCardInserted L h then if \<not> mounted then sdcard_mount L (mounted, h) else (mounted, h)
     else if mounted then sdcard_unmount L (mounted, h) else (mounted, h))"

text \<open>The life of the card: the main loop calls \<open>sdcard_automount\<close>, the user moves the card.\<close>

inductive sd_reach :: "'h sd_lib \<Rightarrow> ('h \<Rightarrow> 'h \<Rightarrow> bool) \<Rightarrow> 'h sd_state \<Rightarrow> 'h sd_state \<Rightarrow> bool"
  for L user s where
  sd_start: "sd_reach L user s s"
| sd_automount: "sd_reach L user s t \<Longrightarrow> sd_reach L user s (sdcard_automount L t)"
| sd_user: "sd_reach L user s (m, h) \<Longrightarrow> user h h' \<Longrightarrow> sd_reach L user s (m, h')"

locale sd_card_lib =
  fixes L :: "'h sd_lib" and card_up :: "'h \<Rightarrow> bool" and fs_up :: "'h \<Rightarrow> bool"
    and user :: "'h \<Rightarrow> 'h \<Rightarrow> bool"
  assumes connect: "sdcConnect L h = (ok, h') \<Longrightarrow> card_up h' = ok \<and> fs_up h' = fs_up h
        \<and> sdcIsCardInserted L h' = sdcIsCardInserted L h"
    and disconnect: "\<not> card_up (sdcDisconnect L h) \<and> fs_up (sdcDisconnect L h) = fs_up h
        \<and> sdcIsCardInserted L (sdcDisconnect L h) = sdcIsCardInserted L h"
    and mount: "f_mount L h = (ok, h') \<Longrightarrow> fs_up h' = ok \<and> card_up h' = card_up h
        \<and> sdcIsCardInserted L h' = sdcIsCardInserted L h"
    and unmount: "\<not> fs_up (f_unmount L h) \<and> card_up (f_unmount L h) = card_up h
        \<and> sdcIsCardInserted L (f_unmount L h) = sdcIsCardInserted L h"
    and user_frame: "user h h' \<Longrightarrow> card_up h' = card_up h \<and> fs_up h' = fs_up h"
begin

definition sd_inv :: "'h sd_state \<Rightarrow> bool" where
  "sd_inv s \<longleftrightarrow> card_up (snd s) = fst s \<and> fs_up (snd s) = fst s"

lemma mount_inv:
  assumes "\<not> fst s" "sd_inv s"
  shows "sd_inv (sdcard_mount L s) \<and> sdcIsCardInserted L (snd (sdcard_mount L s)) = sdcIsCardInserted L (snd s)"
proof -
  obtain h where s: "s = (False, h)" using assms(1) by (cases s) auto
  obtain c h1 where c: "sdcConnect L h = (c, h1)" by force
  obtain f h2 where f: "f_mount L h1 = (f, h2)" by force
  show ?thesis
    using connect[OF c] mount[OF f] disconnect[of h2] assms(2)
    by (auto simp: s sd_inv_def sdcard_mount_def c f)
qed

lemma unmount_inv:
  "sd_inv (sdcard_unmount L s) \<and> \<not> fst (sdcard_unmount L s)
    \<and> sdcIsCardInserted L (snd (sdcard_unmount L s)) = sdcIsCardInserted L (snd s)"
  using unmount[of "snd s"] disconnect[of "f_unmount L (snd s)"]
  by (auto simp: sd_inv_def sdcard_unmount_def split: prod.splits)

lemma automount_inv:
  assumes "sd_inv s"
  shows "sd_inv (sdcard_automount L s)
    \<and> (fst (sdcard_automount L s) \<longrightarrow> sdcIsCardInserted L (snd (sdcard_automount L s)))"
  using assms mount_inv[of s] unmount_inv[of s]
  by (cases s) (auto simp: sdcard_automount_def)

lemma reach_inv:
  assumes "sd_reach L user s t" "sd_inv s"
  shows "sd_inv t"
  using assms
proof (induction rule: sd_reach.induct)
  case (sd_user m h h')
  then show ?case using user_frame by (auto simp: sd_inv_def)
qed (auto simp: automount_inv)

end

text \<open>A simulated card: inserted, connected, file system mounted, and whether it answers at all.\<close>

record sim_card =
  sim_inserted :: bool
  sim_connected :: bool
  sim_mounted :: bool
  sim_good :: bool

definition sim_sd :: "sim_card sd_lib" where
  "sim_sd = \<lparr>sdcIsCardInserted = sim_inserted,
     sdcConnect = (\<lambda>h. let ok = sim_inserted h \<and> sim_good h in (ok, h\<lparr>sim_connected := ok\<rparr>)),
     sdcDisconnect = (\<lambda>h. h\<lparr>sim_connected := False\<rparr>),
     f_mount = (\<lambda>h. (sim_good h, h\<lparr>sim_mounted := sim_good h\<rparr>)),
     f_unmount = (\<lambda>h. h\<lparr>sim_mounted := False\<rparr>)\<rparr>"

definition sim_user :: "sim_card \<Rightarrow> sim_card \<Rightarrow> bool" where
  "sim_user h h' \<longleftrightarrow> (\<exists>i g. h' = h\<lparr>sim_inserted := i, sim_good := g\<rparr>)"

interpretation sim_sd: sd_card_lib sim_sd sim_connected sim_mounted sim_user
  by unfold_locales (auto simp: sim_sd_def sim_user_def Let_def)



subsection \<open>The disk layer of the file system\<close>

datatype dresult = RES_OK | RES_ERROR | RES_WRPRT | RES_NOTRDY | RES_PARERR

definition STA_NOINIT :: u8 where "STA_NOINIT = 1"
definition STA_PROTECT :: u8 where "STA_PROTECT = 4"
definition SDC :: u8 where "SDC = 0"
definition CTRL_SYNC :: u8 where "CTRL_SYNC = 0"
definition GET_SECTOR_COUNT :: u8 where "GET_SECTOR_COUNT = 1"
definition GET_SECTOR_SIZE :: u8 where "GET_SECTOR_SIZE = 2"
definition GET_BLOCK_SIZE :: u8 where "GET_BLOCK_SIZE = 3"

text \<open>The SD block driver; \<open>sdc_read\<close> and \<open>sdc_write\<close> say whether they failed, as the library does. The
  state is the driver's and the activity LED.\<close>

record 'h sdc_driver =
  sdc_ready :: "'h \<Rightarrow> bool"
  sdc_protected :: "'h \<Rightarrow> bool"
  sdc_read :: "u32 \<Rightarrow> nat \<Rightarrow> 'h \<Rightarrow> bool \<times> u8 list \<times> 'h"
  sdc_write :: "u32 \<Rightarrow> nat \<Rightarrow> u8 list \<Rightarrow> 'h \<Rightarrow> bool \<times> 'h"
  sdc_capacity :: "'h \<Rightarrow> u32"
  block_size :: u16                     \<comment> \<open>\<open>MMCSD_BLOCK_SIZE\<close>\<close>

type_synonym 'h disk_state = "'h \<times> bool"

definition sdcard_activity :: "'h disk_state \<Rightarrow> 'h disk_state" where
  "sdcard_activity s = (fst s, \<not> snd s)"

definition disk_status :: "'h sdc_driver \<Rightarrow> u8 \<Rightarrow> 'h disk_state \<Rightarrow> u8" where
  "disk_status D pdrv s =
     (if pdrv = SDC
      then (if sdc_ready D (fst s) then 0 else STA_NOINIT) OR (if sdc_protected D (fst s) then STA_PROTECT else 0)
      else STA_NOINIT)"

definition disk_initialize :: "'h sdc_driver \<Rightarrow> u8 \<Rightarrow> 'h disk_state \<Rightarrow> u8" where
  "disk_initialize D pdrv s =
     (if pdrv = SDC
      then (if sdc_ready D (fst s) then 0 else STA_NOINIT) OR (if sdc_protected D (fst s) then STA_PROTECT else 0)
      else STA_NOINIT)"

definition disk_read ::
  "'h sdc_driver \<Rightarrow> u8 \<Rightarrow> u32 \<Rightarrow> nat \<Rightarrow> 'h disk_state \<Rightarrow> dresult \<times> u8 list option \<times> 'h disk_state" where
  "disk_read D pdrv sector count s =
     (if pdrv = SDC
      then if \<not> sdc_ready D (fst s) then (RES_NOTRDY, None, s)
           else let (failed, data, h) = sdc_read D sector count (fst s); s = (h, snd s)
                in if failed then (RES_ERROR, None, s) else (RES_OK, Some data, sdcard_activity s)
      else (RES_PARERR, None, s))"

definition disk_write ::
  "'h sdc_driver \<Rightarrow> u8 \<Rightarrow> u8 list \<Rightarrow> u32 \<Rightarrow> nat \<Rightarrow> 'h disk_state \<Rightarrow> dresult \<times> 'h disk_state" where
  "disk_write D pdrv data sector count s =
     (if pdrv = SDC
      then if \<not> sdc_ready D (fst s) then (RES_NOTRDY, s)
           else let (failed, h) = sdc_write D sector count data (fst s); s = (h, snd s)
                in if failed then (RES_ERROR, s) else (RES_OK, sdcard_activity s)
      else (RES_PARERR, s))"

text \<open>The control codes; the erase code is compiled out. The result is the bytes stored in the buffer.\<close>

definition disk_ioctl :: "'h sdc_driver \<Rightarrow> u8 \<Rightarrow> u8 \<Rightarrow> 'h disk_state \<Rightarrow> dresult \<times> u8 list" where
  "disk_ioctl D pdrv cmd s =
     (if pdrv = SDC
      then if cmd = CTRL_SYNC then (RES_OK, [])
           else if cmd = GET_SECTOR_COUNT then (RES_OK, le_bytes32 (sdc_capacity D (fst s)))
           else if cmd = GET_SECTOR_SIZE then (RES_OK, le_bytes16 (block_size D))
           else if cmd = GET_BLOCK_SIZE then (RES_OK, le_bytes32 256)
           else (RES_PARERR, [])
      else (RES_PARERR, []))"

definition get_fattime :: u32 where
  "get_fattime = (0 OR push_bit 16 1) OR push_bit 21 1"

text \<open>A block device: a successful write stores the blocks, a successful read gives what is stored, and
  failures are told.\<close>

locale block_device =
  fixes D :: "'h sdc_driver" and blocks :: "'h \<Rightarrow> nat \<Rightarrow> u8 list"
  assumes read_ok: "sdc_read D a n h = (False, data, h') \<Longrightarrow>
      data = concat (map (blocks h) [unat a..<unat a + n]) \<and> blocks h' = blocks h"
    and write_ok: "sdc_write D a n data h = (False, h') \<Longrightarrow> length data = n * unat (block_size D) \<Longrightarrow>
      concat (map (blocks h') [unat a..<unat a + n]) = data
      \<and> (\<forall>k. k < unat a \<or> unat a + n \<le> k \<longrightarrow> blocks h' k = blocks h k)"
begin

lemma write_read:
  assumes "disk_write D pdrv data a n s = (RES_OK, s1)" "length data = n * unat (block_size D)"
    and "disk_read D pdrv a n s1 = (RES_OK, out, s2)"
  shows "out = Some data \<and> snd s2 = snd s
    \<and> (\<forall>k. k < unat a \<or> unat a + n \<le> k \<longrightarrow> blocks (fst s2) k = blocks (fst s) k)"
proof -
  obtain h1 where h1: "sdc_write D a n data (fst s) = (False, h1)" "s1 = (h1, \<not> snd s)"
    using assms(1) by (auto simp: disk_write_def sdcard_activity_def Let_def split: if_splits prod.splits)
  obtain d h2 where h2: "sdc_read D a n h1 = (False, d, h2)" "out = Some d" "s2 = (h2, snd s)"
    using assms(3) h1(2) by (auto simp: disk_read_def sdcard_activity_def Let_def split: if_splits prod.splits)
  show ?thesis using write_ok[OF h1(1) assms(2)] read_ok[OF h2(1)] h2 by simp
qed

end

definition sim_driver :: "(bool \<times> (nat \<Rightarrow> u8 list)) sdc_driver" where
  "sim_driver = \<lparr>sdc_ready = fst, sdc_protected = (\<lambda>_. False),
     sdc_read = (\<lambda>a n h. (False, concat (map (snd h) [unat a..<unat a + n]), h)),
     sdc_write = (\<lambda>a n data h. if length data \<noteq> n * 4 then (True, h)
       else (False, (fst h, \<lambda>k. if unat a \<le> k \<and> k < unat a + n then take 4 (drop ((k - unat a) * 4) data) else snd h k))),
     sdc_capacity = (\<lambda>_. 1000), block_size = 4\<rparr>"

lemma concat_blocks:
  "length data = n * b \<Longrightarrow> concat (map (\<lambda>k. take b (drop (k * b) data)) [0..<n]) = data"
proof (induction n arbitrary: data)
  case (Suc n)
  have "concat (map (\<lambda>k. take b (drop (k * b) data)) [0..<Suc n]) =
      take b data @ concat (map (\<lambda>k. take b (drop (k * b) (drop b data))) [0..<n])"
    by (simp add: upt_conv_Cons map_Suc_upt[symmetric] o_def add.commute del: upt_Suc)
  also have "concat (map (\<lambda>k. take b (drop (k * b) (drop b data))) [0..<n]) = drop b data"
    using Suc.prems by (intro Suc.IH) simp
  finally show ?case by simp
qed simp

lemma sim_write_ok:
  assumes "sdc_write sim_driver a n data h = (False, h')"
  shows "length data = n * 4"
    and "h' = (fst h, \<lambda>k. if unat a \<le> k \<and> k < unat a + n then take 4 (drop ((k - unat a) * 4) data) else snd h k)"
  using assms by (auto simp: sim_driver_def split: if_splits)

interpretation sim_driver: block_device sim_driver snd
proof
  fix a n data and h h' :: "bool \<times> (nat \<Rightarrow> u8 list)"
  assume w: "sdc_write sim_driver a n data h = (False, h')"
  note h = sim_write_ok[OF w]
  have "map (snd h') [unat a..<unat a + n] = map (\<lambda>k. take 4 (drop (k * 4) data)) [0..<n]"
    by (intro nth_equalityI) (auto simp: h(2))
  then show "concat (map (snd h') [unat a..<unat a + n]) = data
      \<and> (\<forall>k. k < unat a \<or> unat a + n \<le> k \<longrightarrow> snd h' k = snd h k)"
    using concat_blocks[OF h(1)] by (simp add: h(2))
qed (auto simp: sim_driver_def)

text \<open>C14. Over every block device, what \<open>disk_write\<close> reports written \<open>disk_read\<close> gives back, and no other
  block changes; the two transfers toggle the activity LED twice. On a drive that is not the SD card or
  not ready, neither touches the device, and the error says which of the two it is.\<close>
theorem disk_write_then_read:
  assumes "block_device D blocks"
  shows "(disk_write D pdrv data a n s = (RES_OK, s1) \<and> length data = n * unat (block_size D)
        \<and> disk_read D pdrv a n s1 = (RES_OK, out, s2) \<longrightarrow>
      out = Some data \<and> snd s2 = snd s \<and> (\<forall>k. k < unat a \<or> unat a + n \<le> k \<longrightarrow> blocks (fst s2) k = blocks (fst s) k))
    \<and> (pdrv \<noteq> SDC \<longrightarrow> disk_write D pdrv data a n s = (RES_PARERR, s) \<and> disk_read D pdrv a n s = (RES_PARERR, None, s)
        \<and> disk_status D pdrv s = STA_NOINIT)
    \<and> (pdrv = SDC \<and> \<not> sdc_ready D (fst s) \<longrightarrow> disk_write D pdrv data a n s = (RES_NOTRDY, s)
        \<and> disk_read D pdrv a n s = (RES_NOTRDY, None, s) \<and> disk_status D pdrv s AND STA_NOINIT \<noteq> 0)"
proof (intro conjI impI)
  assume "disk_write D pdrv data a n s = (RES_OK, s1) \<and> length data = n * unat (block_size D)
    \<and> disk_read D pdrv a n s1 = (RES_OK, out, s2)"
  then show "out = Some data" "snd s2 = snd s" "\<forall>k. k < unat a \<or> unat a + n \<le> k \<longrightarrow> blocks (fst s2) k = blocks (fst s) k"
    using block_device.write_read[OF assms] by blast+
qed (auto simp: disk_write_def disk_read_def disk_status_def STA_NOINIT_def STA_PROTECT_def)

lemma disk_write_then_read_witness:
  "\<exists>s1 s2. disk_write sim_driver 0 [1, 2, 3, 4, 5, 6, 7, 8] 10 2 ((True, \<lambda>_. []), False) = (RES_OK, s1)
    \<and> disk_read sim_driver 0 10 2 s1 = (RES_OK, Some [1, 2, 3, 4, 5, 6, 7, 8], s2) \<and> snd s2 = False"
proof -
  obtain s1 where s1: "disk_write sim_driver 0 [1, 2, 3, 4, 5, 6, 7, 8] 10 2 ((True, \<lambda>_. []), False) = (RES_OK, s1)" "fst (fst s1)"
    by (simp add: disk_write_def sim_driver_def SDC_def sdcard_activity_def)
  obtain out s2 where s2: "disk_read sim_driver 0 10 2 s1 = (RES_OK, out, s2)"
    using s1(2) by (simp add: disk_read_def sim_driver_def SDC_def sdcard_activity_def)
  have "length [1, 2, 3, 4, 5, 6, 7, 8 :: u8] = 2 * unat (block_size sim_driver)" by (simp add: sim_driver_def)
  with disk_write_then_read[OF sim_driver.block_device_axioms, of 0 "[1, 2, 3, 4, 5, 6, 7, 8]" 10 2 "((True, \<lambda>_. []), False)" s1 out s2]
  have "out = Some [1, 2, 3, 4, 5, 6, 7, 8] \<and> snd s2 = False" using s1(1) s2 by simp
  with s1(1) s2 show ?thesis by blast
qed

end
