(* ===== verification/Aseba_Vars.thy ===== *)
theory Aseba_Vars
  imports Motor_Pid_Thread
begin

section \<open>The variables of the Aseba machine (\<open>src/aseba_vm/skel_user.c\<close>)\<close>

text \<open>
  A user script runs on the Aseba virtual machine, whose variables are the struct \<open>vmVariables\<close> seen as
  an array of 16-bit words. Before the machine runs, \<open>aseba_read_variables_from_system\<close> copies the
  state of the robot into the struct and keeps a copy; after it, \<open>aseba_write_variables_to_system\<close>
  applies what the script changed. The struct is modelled as the array, with the layout of the struct
  as a table of fields and lengths. The messages of the bus, the motor PWM and the faults are those of
  the motor thread; the parameter tree is a library (\<open>params\<close>, with the laws of \<open>parameter_tree\<close>).
\<close>

subsection \<open>The layout\<close>

datatype loop_id = Current_loop | Velocity_loop | Position_loop
datatype gain_id = Kp | Ki | Kd | Ilimit

datatype vm_var = V_id | V_source | V_args | V_fwversion | V_productId | V_battery_mv | V_range
  | V_proximity_delta | V_proximity_ambient | V_proximity_reflected
  | V_motor_pwm motor_enum | V_motor_current motor_enum | V_motor_velocity motor_enum
  | V_motor_position motor_enum | V_motor_enc motor_enum | V_acceleration | V_gyro | V_leds
  | V_setpoint loop_id motor_enum | V_control motor_enum loop_id gain_id | V_freeSpace

definition VM_VARIABLES_FREE_SPACE :: nat where "VM_VARIABLES_FREE_SPACE = 256"
definition VM_VARIABLES_ARG_SIZE :: nat where "VM_VARIABLES_ARG_SIZE = 32"
definition SETTINGS_COUNT :: nat where "SETTINGS_COUNT = 32"
definition PROXIMITY_NB_CHANNELS :: nat where "PROXIMITY_NB_CHANNELS = 13"
definition BODY_LED_COUNT :: nat where "BODY_LED_COUNT = 12"

lemmas vm_sizes = VM_VARIABLES_FREE_SPACE_def VM_VARIABLES_ARG_SIZE_def PROXIMITY_NB_CHANNELS_def
  BODY_LED_COUNT_def

definition loops :: "loop_id list" where "loops = [Current_loop, Velocity_loop, Position_loop]"
definition gains :: "gain_id list" where "gains = [Kp, Ki, Kd, Ilimit]"

definition control_vars :: "(motor_enum \<times> loop_id \<times> gain_id) list" where
  "control_vars = [(w, l, g). w \<leftarrow> [LEFT, RIGHT], l \<leftarrow> loops, g \<leftarrow> gains]"

text \<open>\<open>struct _vmVariables\<close>.\<close>

definition vm_layout :: "(vm_var \<times> nat) list" where
  "vm_layout =
     [(V_id, 1), (V_source, 1), (V_args, VM_VARIABLES_ARG_SIZE), (V_fwversion, 2), (V_productId, 1),
      (V_battery_mv, 1), (V_range, 1), (V_proximity_delta, PROXIMITY_NB_CHANNELS),
      (V_proximity_ambient, PROXIMITY_NB_CHANNELS), (V_proximity_reflected, PROXIMITY_NB_CHANNELS),
      (V_motor_pwm LEFT, 1), (V_motor_pwm RIGHT, 1), (V_motor_current LEFT, 1), (V_motor_current RIGHT, 1),
      (V_motor_velocity LEFT, 1), (V_motor_velocity RIGHT, 1), (V_motor_position LEFT, 1),
      (V_motor_position RIGHT, 1), (V_motor_enc LEFT, 2), (V_motor_enc RIGHT, 2), (V_acceleration, 3),
      (V_gyro, 3), (V_leds, BODY_LED_COUNT),
      (V_setpoint Current_loop LEFT, 1), (V_setpoint Current_loop RIGHT, 1), (V_setpoint Velocity_loop LEFT, 1),
      (V_setpoint Velocity_loop RIGHT, 1), (V_setpoint Position_loop LEFT, 1), (V_setpoint Position_loop RIGHT, 1)]
     @ map (\<lambda>(w, l, g). (V_control w l g, 1)) control_vars
     @ [(V_freeSpace, VM_VARIABLES_FREE_SPACE)]"

fun offset_in :: "('k \<times> nat) list \<Rightarrow> 'k \<Rightarrow> nat" where
  "offset_in [] f = 0"
| "offset_in ((g, n) # l) f = (if f = g then 0 else n + offset_in l f)"

definition var_offset :: "vm_var \<Rightarrow> nat" where
  "var_offset = offset_in vm_layout"

definition var_len :: "vm_var \<Rightarrow> nat" where
  "var_len f = (case map_of vm_layout f of None \<Rightarrow> 0 | Some n \<Rightarrow> n)"

definition variablesSize :: nat where
  "variablesSize = sum_list (map snd vm_layout)"

definition get_var :: "vm_var \<Rightarrow> nat \<Rightarrow> u16 list \<Rightarrow> u16" where
  "get_var f i v = v ! (var_offset f + i)"

definition set_var :: "vm_var \<Rightarrow> nat \<Rightarrow> u16 \<Rightarrow> u16 list \<Rightarrow> u16 list" where
  "set_var f i x v = v[var_offset f + i := x]"

text \<open>The names of the control parameters in the parameter tree.\<close>

fun wheel_name :: "motor_enum \<Rightarrow> string" where
  "wheel_name LEFT = ''left_wheel''"
| "wheel_name RIGHT = ''right_wheel''"

fun loop_name :: "loop_id \<Rightarrow> string" where
  "loop_name Current_loop = ''current''"
| "loop_name Velocity_loop = ''velocity''"
| "loop_name Position_loop = ''position''"

fun gain_name :: "gain_id \<Rightarrow> string" where
  "gain_name Kp = ''kp''"
| "gain_name Ki = ''ki''"
| "gain_name Kd = ''kd''"
| "gain_name Ilimit = ''i_limit''"

definition control_path :: "motor_enum \<times> loop_id \<times> gain_id \<Rightarrow> string" where
  "control_path = (\<lambda>(w, l, g).
     ''/'' @ wheel_name w @ ''/control/'' @ loop_name l @ ''/'' @ gain_name g)"

text \<open>What the machine shows to a client: sizes and names, in the order of the variables.\<close>

definition wheel_short :: "motor_enum \<Rightarrow> string" where
  "wheel_short w = (case w of LEFT \<Rightarrow> ''left'' | RIGHT \<Rightarrow> ''right'')"

definition gain_short :: "gain_id \<Rightarrow> string" where
  "gain_short g = (case g of Ilimit \<Rightarrow> ''ilimit'' | _ \<Rightarrow> gain_name g)"

definition vmDescription :: "(nat \<times> string) list" where
  "vmDescription =
     [(1, ''_id''), (1, ''event.source''), (VM_VARIABLES_ARG_SIZE, ''event.args''), (2, ''_fwversion''),
      (1, ''_productId''), (1, ''battery''), (1, ''range''), (PROXIMITY_NB_CHANNELS, ''proximity.delta''),
      (PROXIMITY_NB_CHANNELS, ''proximity.ambient''), (PROXIMITY_NB_CHANNELS, ''proximity.reflected''),
      (1, ''motor.left.pwm''), (1, ''motor.right.pwm''), (1, ''motor.left.current''), (1, ''motor.right.current''),
      (1, ''motor.left.velocity''), (1, ''motor.right.velocity''), (1, ''motor.left.position''),
      (1, ''motor.right.position''), (2, ''motor.left.enc''), (2, ''motor.right.enc''), (3, ''acc''), (3, ''gyro''),
      (BODY_LED_COUNT, ''leds''), (1, ''motor.left.setpoint.current''), (1, ''motor.right.setpoint.current''),
      (1, ''motor.left.setpoint.velocity''), (1, ''motor.right.setpoint.velocity''),
      (1, ''motor.left.setpoint.position''), (1, ''motor.right.setpoint.position'')]
     @ map (\<lambda>(w, l, g). (1, ''_control.'' @ wheel_short w @ ''.'' @ loop_name l @ ''.'' @ gain_short g)) control_vars"

subsection \<open>Lemmas on the layout\<close>

lemma offset_in_bound: "map_of l f = Some n \<Longrightarrow> offset_in l f + n \<le> sum_list (map snd l)"
  by (induction l f rule: offset_in.induct) (auto split: if_splits)

lemma offset_in_inject:
  assumes "map_of l f = Some n" "map_of l g = Some m" "i < n" "j < m"
  shows "offset_in l f + i = offset_in l g + j \<longleftrightarrow> f = g \<and> i = j"
  using assms
proof (induction l)
  case (Cons e l)
  obtain h k where e: "e = (h, k)" by force
  show ?case using Cons by (cases "f = h"; cases "g = h") (auto simp: e)
qed simp

lemma control_vars_all: "(w, l, g) \<in> set control_vars"
  by (cases w; cases l; cases g) (simp_all add: control_vars_def loops_def gains_def)

lemma distinct_control_vars: "distinct control_vars"
  by (simp add: control_vars_def loops_def gains_def)

lemma vm_layout_total: "\<exists>n. map_of vm_layout f = Some n"
proof -
  have "f \<in> fst ` set vm_layout"
  proof (cases f)
    case (V_control w l g)
    then show ?thesis using control_vars_all[of w l g] by (force simp: vm_layout_def image_iff)
  next
    case (V_motor_pwm m) then show ?thesis by (cases m) (simp_all add: vm_layout_def)
  next
    case (V_motor_current m) then show ?thesis by (cases m) (simp_all add: vm_layout_def)
  next
    case (V_motor_velocity m) then show ?thesis by (cases m) (simp_all add: vm_layout_def)
  next
    case (V_motor_position m) then show ?thesis by (cases m) (simp_all add: vm_layout_def)
  next
    case (V_motor_enc m) then show ?thesis by (cases m) (simp_all add: vm_layout_def)
  next
    case (V_setpoint l m) then show ?thesis by (cases l; cases m) (simp_all add: vm_layout_def)
  qed (simp_all add: vm_layout_def)
  then show ?thesis by (metis map_of_eq_None_iff not_Some_eq)
qed

lemma var_len: "map_of vm_layout f = Some (var_len f)"
  using vm_layout_total[of f] by (auto simp: var_len_def)

lemma var_index_bound: "i < var_len f \<Longrightarrow> var_offset f + i < variablesSize"
  using offset_in_bound[OF var_len[of f]] by (simp add: var_offset_def variablesSize_def)

lemma get_set_var [simp]:
  assumes "length v = variablesSize" "i < var_len f" "j < var_len g"
  shows "get_var f i (set_var g j x v) = (if f = g \<and> i = j then x else get_var f i v)"
  using offset_in_inject[OF var_len var_len assms(2,3)] var_index_bound[OF assms(3)] assms(1)
  by (auto simp: get_var_def set_var_def var_offset_def nth_list_update)

lemma length_set_var [simp]: "length (set_var f i x v) = length v"
  by (simp add: set_var_def)

lemmas vm_layout_defs = vm_layout_def vm_sizes control_vars_def loops_def gains_def

lemma var_lens [simp]:
  "var_len V_id = 1" "var_len V_battery_mv = 1" "var_len V_range = 1"
  "var_len V_proximity_delta = 13" "var_len V_proximity_ambient = 13" "var_len V_proximity_reflected = 13"
  "var_len V_acceleration = 3" "var_len V_gyro = 3" "var_len V_leds = 12"
  by (simp_all add: var_len_def vm_layout_defs)

lemma var_lens_wheel [simp]:
  "var_len (V_motor_pwm m) = 1" "var_len (V_motor_current m) = 1" "var_len (V_motor_velocity m) = 1"
  "var_len (V_motor_position m) = 1" "var_len (V_motor_enc m) = 2"
  by (cases m; simp add: var_len_def vm_layout_defs)+

lemma var_lens_setpoint [simp]: "var_len (V_setpoint l m) = 1"
  by (cases m; cases l) (simp_all add: var_len_def vm_layout_defs)

lemma var_lens_control [simp]: "var_len (V_control m l g) = 1"
proof -
  have "(V_control m l g, 1) \<in> set vm_layout"
    using control_vars_all[of m l g] by (force simp: vm_layout_def)
  moreover have "distinct (map fst vm_layout)"
    by (simp add: vm_layout_defs)
  ultimately show ?thesis using var_len[of "V_control m l g"] by simp
qed

subsection \<open>Conversions\<close>

text \<open>A floating-point value stored in a \<open>sint16\<close>, directly or after a cast to \<open>int\<close>.\<close>

definition float_to_s16 :: "fp \<Rightarrow> fault + u16" where
  "float_to_s16 x = defined (map_option word_of_int (f_to_range (- 32768) 32767 x))"

definition float_to_int16 :: "fp \<Rightarrow> fault + u16" where
  "float_to_int16 x = defined (map_option word_of_int (f_to_range (- (2 ^ 31)) (2 ^ 31 - 1) x))"

definition M_PI :: fp where
  "M_PI = f_const f64 (314159265358979323846 / 100000000000000000000)"

definition INT16_MAX :: int where "INT16_MAX = 32767"

text \<open>\<open>msg * 1000\<close> and \<open>msg * 180 / M_PI\<close>.\<close>

definition milli :: "fp \<Rightarrow> fp" where
  "milli x = fmul f32 x (f_of_int f32 1000)"

definition degrees :: "fp \<Rightarrow> fp" where
  "degrees x = fdiv f64 (f_conv f64 (fmul f32 x (f_of_int f32 180))) M_PI"

definition radians :: "u16 \<Rightarrow> fp" where
  "radians v = f_conv f32 (fmul f64 (fdiv f64 (f_const f64 (314 / 100)) (f_const f64 180)) (f_of_int f64 (sint v)))"

definition thousandths :: "u16 \<Rightarrow> fp" where
  "thousandths v = f_conv f32 (fdiv f64 (f_of_int f64 (sint v)) (f_const f64 1000))"

definition hundredths :: "int \<Rightarrow> fp" where
  "hundredths i = f_conv f32 (fdiv f64 (f_of_int f64 i) (f_const f64 100))"

subsection \<open>The robot as the variables see it\<close>

record ('h, 'p) params =
  parameter_find :: "'p \<Rightarrow> string \<Rightarrow> 'h option"
  parameter_scalar_read :: "'p \<Rightarrow> 'h \<Rightarrow> fp"
  parameter_scalar_set :: "'h \<Rightarrow> fp \<Rightarrow> 'p \<Rightarrow> 'p"

locale parameter_tree =
  fixes P :: "('h, 'p) params"
  assumes read_set: "parameter_scalar_read P (parameter_scalar_set P h x p) h = x"
    and read_set_other: "h' \<noteq> h \<Longrightarrow> parameter_scalar_read P (parameter_scalar_set P h x p) h' = parameter_scalar_read P p h'"
    and find_set: "parameter_find P (parameter_scalar_set P h x p) n = parameter_find P p n"
    and find_inject: "parameter_find P p m = Some h \<Longrightarrow> parameter_find P p n = Some h \<Longrightarrow> m = n"

text \<open>A reference tree: the handles are the names.\<close>

definition ref_params :: "(string, string list \<times> (string \<times> fp) list) params" where
  "ref_params = \<lparr>
     parameter_find = (\<lambda>p n. if n \<in> set (fst p) then Some n else None),
     parameter_scalar_read = (\<lambda>p h. case map_of (snd p) h of Some x \<Rightarrow> x | None \<Rightarrow> fzero),
     parameter_scalar_set = (\<lambda>h x p. (fst p, AList.update h x (snd p)))\<rparr>"

record ('b, 'p) aseba_sys =
  vmVariables :: "u16 list"
  previous_vars :: "u16 list"
  sys_pwm :: pwm_state
  sys_bus :: 'b
  sys_params :: 'p

fun fault_fold :: "('a \<Rightarrow> 's \<Rightarrow> fault + 's) \<Rightarrow> 'a list \<Rightarrow> 's \<Rightarrow> fault + 's" where
  "fault_fold f [] s = Inr s"
| "fault_fold f (x # xs) s = fault_bind (f x s) (fault_fold f xs)"

text \<open>A local message variable that is read from a topic: a topic never published leaves it as it is,
  with the contents \<open>junk name\<close> of its stack slot. \<open>None\<close>: no such topic yet.\<close>

definition read_topic :: "('t, 'b) msgbus \<Rightarrow> (string \<Rightarrow> message) \<Rightarrow> 'b \<Rightarrow> string \<Rightarrow> message option" where
  "read_topic mb junk b name = (case mb_find mb b name of None \<Rightarrow> None
     | Some t \<Rightarrow> Some (case mb_read mb b t of None \<Rightarrow> junk name | Some m \<Rightarrow> m))"

definition store_s16 :: "vm_var \<Rightarrow> nat \<Rightarrow> fp \<Rightarrow> u16 list \<Rightarrow> fault + u16 list" where
  "store_s16 f i x v = fault_bind (float_to_s16 x) (\<lambda>w. Inr (set_var f i w v))"

definition store_int :: "vm_var \<Rightarrow> nat \<Rightarrow> fp \<Rightarrow> u16 list \<Rightarrow> fault + u16 list" where
  "store_int f i x v = fault_bind (float_to_int16 x) (\<lambda>w. Inr (set_var f i w v))"

subsection \<open>From the system to the variables\<close>

definition read_battery_level :: "message \<Rightarrow> u16 list \<Rightarrow> fault + u16 list" where
  "read_battery_level m v = (case m of
     Battery_msg x \<Rightarrow> store_int V_battery_mv 0 (fmul f32 (f_of_int f32 1000) x) v | _ \<Rightarrow> Inl Undefined_behaviour)"

definition read_range :: "message \<Rightarrow> u16 list \<Rightarrow> fault + u16 list" where
  "read_range m v = (case m of
     Range_msg mm raw \<Rightarrow> Inr (set_var V_range 0 (ucast mm) v) | _ \<Rightarrow> Inl Undefined_behaviour)"

definition read_proximity :: "message \<Rightarrow> u16 list \<Rightarrow> fault + u16 list" where
  "read_proximity m v = (case m of
     Proximity_msg ambient reflected delta \<Rightarrow>
       Inr (fold (\<lambda>i v. set_var V_proximity_reflected i (ucast (reflected ! i))
                         (set_var V_proximity_ambient i (ucast (ambient ! i))
                         (set_var V_proximity_delta i (ucast (delta ! i)) v))) [0..<PROXIMITY_NB_CHANNELS] v)
   | _ \<Rightarrow> Inl Undefined_behaviour)"

definition read_encoder :: "motor_enum \<Rightarrow> u32 \<Rightarrow> u16 list \<Rightarrow> u16 list" where
  "read_encoder w x v =
     set_var (V_motor_enc w) 1 (word_of_int (sint x smod INT16_MAX))
       (set_var (V_motor_enc w) 0 (word_of_int (sint x sdiv INT16_MAX)) v)"

definition read_encoders :: "message \<Rightarrow> u16 list \<Rightarrow> fault + u16 list" where
  "read_encoders m v = (case m of
     Encoders_msg l r \<Rightarrow> Inr (read_encoder RIGHT r (read_encoder LEFT l v)) | _ \<Rightarrow> Inl Undefined_behaviour)"

definition read_imu :: "message \<Rightarrow> u16 list \<Rightarrow> fault + u16 list" where
  "read_imu m v = (case m of
     Imu_msg acc rate \<Rightarrow>
       fault_fold (\<lambda>i v. fault_bind (store_s16 V_acceleration i (milli (acc ! i)) v)
                           (store_s16 V_gyro i (milli (rate ! i)))) [0..<3] v
   | _ \<Rightarrow> Inl Undefined_behaviour)"

definition store_pair :: "(motor_enum \<Rightarrow> vm_var) \<Rightarrow> fp \<Rightarrow> fp \<Rightarrow> u16 list \<Rightarrow> fault + u16 list" where
  "store_pair f l r v = fault_bind (store_s16 (f LEFT) 0 l v) (store_s16 (f RIGHT) 0 r)"

definition read_currents :: "message \<Rightarrow> u16 list \<Rightarrow> fault + u16 list" where
  "read_currents m v = (case m of
     Motor_current_msg l r \<Rightarrow> store_pair V_motor_current (milli l) (milli r) v | _ \<Rightarrow> Inl Undefined_behaviour)"

definition read_velocities :: "message \<Rightarrow> u16 list \<Rightarrow> fault + u16 list" where
  "read_velocities m v = (case m of
     Wheel_velocities_msg l r \<Rightarrow> store_pair V_motor_velocity (degrees l) (degrees r) v | _ \<Rightarrow> Inl Undefined_behaviour)"

definition read_positions :: "message \<Rightarrow> u16 list \<Rightarrow> fault + u16 list" where
  "read_positions m v = (case m of
     Wheel_pos_msg l r \<Rightarrow> store_pair V_motor_position (degrees l) (degrees r) v | _ \<Rightarrow> Inl Undefined_behaviour)"

definition read_setpoint :: "message \<Rightarrow> u16 list \<Rightarrow> fault + u16 list" where
  "read_setpoint m v = (case m of
     Wheels_setpoint_msg mode l r \<Rightarrow> store_pair (V_setpoint Current_loop) (milli l) (milli r) v
   | _ \<Rightarrow> Inl Undefined_behaviour)"

definition topic_readers :: "(string \<times> (message \<Rightarrow> u16 list \<Rightarrow> fault + u16 list)) list" where
  "topic_readers =
     [(''/battery_level'', read_battery_level), (''/range'', read_range), (''/proximity'', read_proximity),
      (''/encoders'', read_encoders), (''/imu'', read_imu), (''/motors/current'', read_currents),
      (''/wheel_velocities'', read_velocities), (''/wheel_pos'', read_positions), (''/motors/setpoint'', read_setpoint)]"

definition read_from_topic ::
  "('t, 'b) msgbus \<Rightarrow> (string \<Rightarrow> message) \<Rightarrow> 'b \<Rightarrow> string \<times> (message \<Rightarrow> u16 list \<Rightarrow> fault + u16 list)
    \<Rightarrow> u16 list \<Rightarrow> fault + u16 list" where
  "read_from_topic mb junk b = (\<lambda>(name, rd) v.
     case read_topic mb junk b name of None \<Rightarrow> Inr v | Some m \<Rightarrow> rd m v)"

text \<open>\<open>READ_PARAM_TO_VM\<close>.\<close>

definition read_param_to_vm ::
  "('h, 'p) params \<Rightarrow> 'p \<Rightarrow> motor_enum \<times> loop_id \<times> gain_id \<Rightarrow> u16 list \<Rightarrow> fault + u16 list" where
  "read_param_to_vm P p = (\<lambda>(w, l, g) v.
     case parameter_find P p (control_path (w, l, g)) of None \<Rightarrow> Inl Sys_halt
     | Some h \<Rightarrow> store_int (V_control w l g) 0
         (fmul f64 (f_const f64 1000) (f_conv f64 (parameter_scalar_read P p h))) v)"

definition aseba_read_variables_from_system ::
  "('t, 'b) msgbus \<Rightarrow> ('h, 'p) params \<Rightarrow> (string \<Rightarrow> message) \<Rightarrow> u16 \<Rightarrow> ('b, 'p) aseba_sys
    \<Rightarrow> fault + ('b, 'p) aseba_sys" where
  "aseba_read_variables_from_system mb P junk nodeId s =
     fault_bind (fault_fold (read_from_topic mb junk (sys_bus s)) topic_readers (set_var V_id 0 nodeId (vmVariables s)))
       (\<lambda>v. fault_bind (fault_fold (read_param_to_vm P (sys_params s)) control_vars v)
       (\<lambda>v. Inr (s\<lparr>vmVariables := v, previous_vars := v\<rparr>)))"

subsection \<open>From the variables to the system\<close>

definition var_changed :: "vm_var \<Rightarrow> nat \<Rightarrow> ('b, 'p) aseba_sys \<Rightarrow> bool" where
  "var_changed f i s \<longleftrightarrow> get_var f i (vmVariables s) \<noteq> get_var f i (previous_vars s)"

definition write_pwm :: "motor_enum \<Rightarrow> bool \<Rightarrow> ('b, 'p) aseba_sys \<Rightarrow> fault + ('b, 'p) aseba_sys" where
  "write_pwm w is_inverted s =
     (if var_changed (V_motor_pwm w) 0 s
      then let set = (case w of LEFT \<Rightarrow> motor_left_pwm_set | RIGHT \<Rightarrow> motor_right_pwm_set);
               duty_cycle = hundredths (sint (get_var (V_motor_pwm w) 0 (vmVariables s)))
           in fault_bind (defined (set is_inverted duty_cycle (sys_pwm s))) (\<lambda>pwm. Inr (s\<lparr>sys_pwm := pwm\<rparr>))
      else Inr s)"

fun loop_mode :: "loop_id \<Rightarrow> motor_controller_mode" where
  "loop_mode Current_loop = MOTOR_CONTROLLER_CURRENT"
| "loop_mode Velocity_loop = MOTOR_CONTROLLER_VELOCITY"
| "loop_mode Position_loop = MOTOR_CONTROLLER_POSITION"

definition setpoint_unit :: "loop_id \<Rightarrow> u16 \<Rightarrow> fp" where
  "setpoint_unit l v = (case l of Current_loop \<Rightarrow> thousandths v | _ \<Rightarrow> radians v)"

definition setpoint_message :: "loop_id \<Rightarrow> u16 list \<Rightarrow> message" where
  "setpoint_message l v = Wheels_setpoint_msg (of_nat (mode_num (loop_mode l)))
     (setpoint_unit l (get_var (V_setpoint l LEFT) 0 v)) (setpoint_unit l (get_var (V_setpoint l RIGHT) 0 v))"

text \<open>Publishing on a null topic is undefined.\<close>

definition write_setpoint ::
  "('t, 'b) msgbus \<Rightarrow> loop_id \<Rightarrow> ('b, 'p) aseba_sys \<Rightarrow> fault + ('b, 'p) aseba_sys" where
  "write_setpoint mb l s =
     (if var_changed (V_setpoint l RIGHT) 0 s \<or> var_changed (V_setpoint l LEFT) 0 s
      then fault_bind (defined (mb_find mb (sys_bus s) ''/motors/setpoint'')) (\<lambda>t.
             Inr (s\<lparr>sys_bus := mb_publish mb t (setpoint_message l (vmVariables s)) (sys_bus s)\<rparr>))
      else Inr s)"

text \<open>\<open>sprintf(name, "/body_leds/%d", i)\<close> for an index below 100.\<close>

definition led_topic_name :: "nat \<Rightarrow> string" where
  "led_topic_name i = ''/body_leds/'' @ (if i < 10 then [char_of (48 + i)] else [char_of (48 + i div 10), char_of (48 + i mod 10)])"

definition write_led :: "('t, 'b) msgbus \<Rightarrow> nat \<Rightarrow> ('b, 'p) aseba_sys \<Rightarrow> fault + ('b, 'p) aseba_sys" where
  "write_led mb i s =
     (if var_changed V_leds i s
      then case mb_find mb (sys_bus s) (led_topic_name i) of None \<Rightarrow> Inr s
        | Some t \<Rightarrow> Inr (s\<lparr>sys_bus := mb_publish mb t
            (Body_led_msg (hundredths (uint (get_var V_leds i (vmVariables s))))) (sys_bus s)\<rparr>)
      else Inr s)"

text \<open>\<open>WRITE_PARAM_FROM_VM\<close>.\<close>

definition write_param_from_vm ::
  "('h, 'p) params \<Rightarrow> motor_enum \<times> loop_id \<times> gain_id \<Rightarrow> ('b, 'p) aseba_sys \<Rightarrow> fault + ('b, 'p) aseba_sys" where
  "write_param_from_vm P = (\<lambda>(w, l, g) s.
     if var_changed (V_control w l g) 0 s
     then case parameter_find P (sys_params s) (control_path (w, l, g)) of None \<Rightarrow> Inl Sys_halt
       | Some h \<Rightarrow> Inr (s\<lparr>sys_params := parameter_scalar_set P h
           (thousandths (get_var (V_control w l g) 0 (vmVariables s))) (sys_params s)\<rparr>)
     else Inr s)"

definition aseba_write_variables_to_system ::
  "('t, 'b) msgbus \<Rightarrow> ('h, 'p) params \<Rightarrow> bool \<Rightarrow> bool \<Rightarrow> ('b, 'p) aseba_sys \<Rightarrow> fault + ('b, 'p) aseba_sys" where
  "aseba_write_variables_to_system mb P inv_left inv_right s =
     fault_bind (write_pwm LEFT inv_left s) (\<lambda>s.
     fault_bind (write_pwm RIGHT inv_right s) (\<lambda>s.
     fault_bind (write_setpoint mb Current_loop s) (\<lambda>s.
     fault_bind (write_setpoint mb Velocity_loop s) (\<lambda>s.
     fault_bind (write_setpoint mb Position_loop s) (\<lambda>s.
     fault_bind (fault_fold (write_led mb) [0..<BODY_LED_COUNT] s)
       (fault_fold (write_param_from_vm P) control_vars))))))"

text \<open>\<open>AsebaVMResetCB\<close>.\<close>

definition AsebaVMResetCB :: "u16 list \<Rightarrow> u16 list" where
  "AsebaVMResetCB v = fold (\<lambda>i. set_var V_leds i 0) [0..<BODY_LED_COUNT]
     (set_var (V_motor_pwm LEFT) 0 0 (set_var (V_motor_pwm RIGHT) 0 0 v))"

text \<open>\<open>aseba_variables_init\<close>: the variables; \<open>undefined_pid\<close> is the product id of the Aseba headers.\<close>

definition aseba_variables_init :: "u16 \<Rightarrow> u16 list" where
  "aseba_variables_init undefined_pid =
     set_var V_fwversion 1 1 (set_var V_fwversion 0 0
       (set_var V_productId 0 undefined_pid (replicate variablesSize 0)))"

end
