(* ===== verification/Aseba_Sync.thy ===== *)
theory Aseba_Sync
  imports Aseba_Vars
begin

section \<open>What the Aseba machine and the robot exchange\<close>

text \<open>
  The lemmas and properties of \<open>Aseba_Vars\<close>: the write-back touches only what the script changed
  (\<open>aseba_write_effects\<close>, \<open>aseba_sync_quiet\<close>), a control gain written by a script reads back up to one
  unit (\<open>control_gain_readback\<close>), encoders are split into two words that recompose
  (\<open>encoder_words_recompose\<close>), and a far enough drive makes the read undefined (\<open>far_position_undefined\<close>).
\<close>

subsection \<open>Writing: only what changed\<close>

interpretation ref_pt: parameter_tree ref_params
  by unfold_locales (auto simp: ref_params_def update_conv' split: if_splits)

lemma var_changed_simps [simp]:
  "var_changed f i (s\<lparr>sys_pwm := p\<rparr>) = var_changed f i s"
  "var_changed f i (s\<lparr>sys_bus := b\<rparr>) = var_changed f i s"
  "var_changed f i (s\<lparr>sys_params := q\<rparr>) = var_changed f i s"
  by (simp_all add: var_changed_def)

lemma f_conv_in_fmt: "\<not> is_nan x \<Longrightarrow> (\<And>s m. x = FFin s m \<Longrightarrow> 0 \<le> m) \<Longrightarrow> in_fmt f32 (f_conv f32 x) \<and> \<not> is_nan (f_conv f32 x)"
  by (cases x) (simp_all add: in_fmt_fround)

lemma fround_nonneg: "0 \<le> m \<Longrightarrow> fround F s m = FFin t n \<Longrightarrow> 0 \<le> n"
  by (auto simp: fround_def Let_def round_mag_nonneg split: if_splits)

lemma fdiv_const_nonneg:
  assumes "0 < c" "\<And>s m. x = FFin s m \<Longrightarrow> 0 \<le> m" "\<not> is_nan x"
  shows "\<not> is_nan (fdiv F x (FFin False c))" and "fdiv F x (FFin False c) = FFin t n \<Longrightarrow> 0 \<le> n"
  using assms by (cases x; auto dest: fround_nonneg[rotated])+

lemma hundredths_number: "in_fmt f32 (hundredths i) \<and> \<not> is_nan (hundredths i)"
proof -
  have c: "f_const f64 100 = FFin False 100" by code_simp
  have n: "\<not> is_nan (f_of_int f64 i)" by (simp add: f_of_int_def fround_signed_def)
  have m: "0 \<le> m" if "f_of_int f64 i = FFin s m" for s m
    using that by (auto simp: f_of_int_def fround_signed_def dest: fround_nonneg[rotated])
  show ?thesis
    unfolding hundredths_def c
    using fdiv_const_nonneg(1)[where c = 100 and F = f64, OF _ m n]
      fdiv_const_nonneg(2)[where c = 100 and F = f64, OF _ m n]
    by (intro f_conv_in_fmt) auto
qed

lemma write_pwm_ok:
  "\<exists>pwm. write_pwm w inverted s = Inr (s\<lparr>sys_pwm := pwm\<rparr>) \<and> (\<not> var_changed (V_motor_pwm w) 0 s \<longrightarrow> pwm = sys_pwm s)"
proof (cases "var_changed (V_motor_pwm w) 0 s")
  case True
  then show ?thesis
    using pwm_set_defined[OF conjunct1[OF hundredths_number] conjunct2[OF hundredths_number]]
    by (cases w) (simp add: write_pwm_def motor_left_pwm_set_def motor_right_pwm_set_def Let_def;
      metis (lifting) defined.simps(2) fault_bind.simps(2))+
next
  case False
  then show ?thesis by (intro exI[of _ "sys_pwm s"]) (simp add: write_pwm_def)
qed

definition loop_changed :: "loop_id \<Rightarrow> ('b, 'p) aseba_sys \<Rightarrow> bool" where
  "loop_changed l s \<longleftrightarrow> var_changed (V_setpoint l RIGHT) 0 s \<or> var_changed (V_setpoint l LEFT) 0 s"

lemma loop_changed_simps [simp]:
  "loop_changed l (s\<lparr>sys_pwm := p\<rparr>) = loop_changed l s"
  "loop_changed l (s\<lparr>sys_bus := b\<rparr>) = loop_changed l s"
  by (simp_all add: loop_changed_def)

lemma write_setpoint_ok:
  assumes "mb_find mb (sys_bus s) ''/motors/setpoint'' = Some t"
  shows "write_setpoint mb l s = Inr (s\<lparr>sys_bus :=
    (if loop_changed l s then mb_publish mb t (setpoint_message l (vmVariables s)) (sys_bus s) else sys_bus s)\<rparr>)"
  using assms by (simp add: write_setpoint_def loop_changed_def)

lemma control_path_inject: "control_path a = control_path b \<longleftrightarrow> a = b"
proof
  assume e: "control_path a = control_path b"
  have "distinct (map control_path control_vars)" by code_simp
  then have "inj_on control_path (set control_vars)" by (simp add: distinct_map)
  then show "a = b" using e control_vars_all by (metis (no_types) inj_onD prod_cases3)
qed simp

lemma led_topic_name_inject: "i < 12 \<Longrightarrow> j < 12 \<Longrightarrow> led_topic_name i = led_topic_name j \<longleftrightarrow> i = j"
proof
  assume l: "i < 12" "j < 12" and e: "led_topic_name i = led_topic_name j"
  have "distinct (map led_topic_name [0..<12])" by code_simp
  then have "inj_on led_topic_name (set [0..<12])" by (simp only: distinct_map)
  then show "i = j" using l e by (auto dest: inj_onD)
qed simp

lemma led_topic_not_setpoint: "led_topic_name i \<noteq> ''/motors/setpoint''"
  by (simp add: led_topic_name_def)

context message_bus
begin

lemma write_leds_ok:
  assumes "distinct xs" "set xs \<subseteq> {..<12}"
  shows "\<exists>b. fault_fold (write_led mb) xs s = Inr (s\<lparr>sys_bus := b\<rparr>) \<and> (\<forall>n. mb_find mb b n = mb_find mb (sys_bus s) n)
    \<and> (\<forall>i\<in>set xs. \<forall>u. mb_find mb (sys_bus s) (led_topic_name i) = Some u \<longrightarrow>
          mb_read mb b u = (if var_changed V_leds i s
            then Some (Body_led_msg (hundredths (uint (get_var V_leds i (vmVariables s)))))
            else mb_read mb (sys_bus s) u))
    \<and> (\<forall>u. (\<forall>i\<in>set xs. mb_find mb (sys_bus s) (led_topic_name i) \<noteq> Some u) \<longrightarrow> mb_read mb b u = mb_read mb (sys_bus s) u)"
  using assms
proof (induction xs arbitrary: s)
  case Nil
  show ?case by (intro exI[of _ "sys_bus s"]) simp
next
  case (Cons x xs)
  define b1 where "b1 = (if var_changed V_leds x s then case mb_find mb (sys_bus s) (led_topic_name x) of None \<Rightarrow> sys_bus s
    | Some t \<Rightarrow> mb_publish mb t (Body_led_msg (hundredths (uint (get_var V_leds x (vmVariables s))))) (sys_bus s) else sys_bus s)"
  have w: "write_led mb x s = Inr (s\<lparr>sys_bus := b1\<rparr>)"
    by (simp add: write_led_def b1_def split: option.splits)
  have f1: "mb_find mb b1 n = mb_find mb (sys_bus s) n" for n
    by (simp add: b1_def find_publish split: option.splits)
  have r1: "mb_read mb b1 u = (if var_changed V_leds x s \<and> mb_find mb (sys_bus s) (led_topic_name x) = Some u
      then Some (Body_led_msg (hundredths (uint (get_var V_leds x (vmVariables s))))) else mb_read mb (sys_bus s) u)" for u
    by (auto simp: b1_def read_publish_if split: option.splits)
  obtain b where b: "fault_fold (write_led mb) xs (s\<lparr>sys_bus := b1\<rparr>) = Inr (s\<lparr>sys_bus := b\<rparr>)"
      "\<forall>n. mb_find mb b n = mb_find mb b1 n"
      "\<forall>i\<in>set xs. \<forall>u. mb_find mb b1 (led_topic_name i) = Some u \<longrightarrow>
          mb_read mb b u = (if var_changed V_leds i s
            then Some (Body_led_msg (hundredths (uint (get_var V_leds i (vmVariables s))))) else mb_read mb b1 u)"
      "\<forall>u. (\<forall>i\<in>set xs. mb_find mb b1 (led_topic_name i) \<noteq> Some u) \<longrightarrow> mb_read mb b u = mb_read mb b1 u"
    using Cons.IH[of "s\<lparr>sys_bus := b1\<rparr>"] Cons.prems by auto
  have sep: False if "i \<in> set xs" "mb_find mb (sys_bus s) (led_topic_name i) = Some u"
      "mb_find mb (sys_bus s) (led_topic_name x) = Some u" for i u
    using find_inject[OF that(2,3)] led_topic_name_inject[of i x] that(1) Cons.prems by auto
  show ?case
  proof (intro exI[of _ b] conjI ballI allI impI)
    fix i u assume i: "i \<in> set (x # xs)" "mb_find mb (sys_bus s) (led_topic_name i) = Some u"
    show "mb_read mb b u = (if var_changed V_leds i s
        then Some (Body_led_msg (hundredths (uint (get_var V_leds i (vmVariables s))))) else mb_read mb (sys_bus s) u)"
    proof (cases "i = x")
      case True
      then have "\<forall>i\<in>set xs. mb_find mb b1 (led_topic_name i) \<noteq> Some u" using sep i f1 by auto
      then show ?thesis using b(4) r1[of u] i True by simp
    next
      case False
      then have "i \<in> set xs" using i by simp
      moreover have "mb_find mb (sys_bus s) (led_topic_name x) \<noteq> Some u" using sep[OF calculation i(2)] by auto
      ultimately show ?thesis using b(3) i(2) f1 r1[of u] by simp
    qed
  qed (use w b f1 r1 in simp_all)
qed

end

context parameter_tree
begin

lemma write_params_ok:
  assumes "distinct cs" "\<forall>c. parameter_find P (sys_params s) (control_path c) \<noteq> None"
  shows "\<exists>q. fault_fold (write_param_from_vm P) cs s = Inr (s\<lparr>sys_params := q\<rparr>)
    \<and> (\<forall>w l g h. parameter_find P (sys_params s) (control_path (w, l, g)) = Some h \<longrightarrow>
          parameter_scalar_read P q h = (if (w, l, g) \<in> set cs \<and> var_changed (V_control w l g) 0 s
            then thousandths (get_var (V_control w l g) 0 (vmVariables s)) else parameter_scalar_read P (sys_params s) h))"
  using assms
proof (induction cs arbitrary: s)
  case Nil
  show ?case by (intro exI[of _ "sys_params s"]) simp
next
  case (Cons c cs)
  obtain w l g where c: "c = (w, l, g)" by (cases c)
  obtain h where h: "parameter_find P (sys_params s) (control_path c) = Some h" using Cons.prems(2) by blast
  define q1 where "q1 = (if var_changed (V_control w l g) 0 s
    then parameter_scalar_set P h (thousandths (get_var (V_control w l g) 0 (vmVariables s))) (sys_params s) else sys_params s)"
  have wr: "write_param_from_vm P c s = Inr (s\<lparr>sys_params := q1\<rparr>)"
    using h by (simp add: write_param_from_vm_def c q1_def)
  have f1: "parameter_find P q1 n = parameter_find P (sys_params s) n" for n by (simp add: q1_def find_set)
  have r1: "parameter_scalar_read P q1 u = (if var_changed (V_control w l g) 0 s \<and> u = h
      then thousandths (get_var (V_control w l g) 0 (vmVariables s)) else parameter_scalar_read P (sys_params s) u)" for u
    by (simp add: q1_def read_set read_set_other)
  obtain q where q: "fault_fold (write_param_from_vm P) cs (s\<lparr>sys_params := q1\<rparr>) = Inr (s\<lparr>sys_params := q\<rparr>)"
    "\<forall>w l g h. parameter_find P q1 (control_path (w, l, g)) = Some h \<longrightarrow>
          parameter_scalar_read P q h = (if (w, l, g) \<in> set cs \<and> var_changed (V_control w l g) 0 s
            then thousandths (get_var (V_control w l g) 0 (vmVariables s)) else parameter_scalar_read P q1 h)"
    using Cons.IH[of "s\<lparr>sys_params := q1\<rparr>"] Cons.prems f1
    by (simp del: split_paired_All cong: if_cong) blast
  have same: "c' = c \<longleftrightarrow> u = h" if "parameter_find P (sys_params s) (control_path c') = Some u" for c' u
    using that h find_inject[OF that, of "control_path c"] control_path_inject[of c' c] by auto
  show ?case
  proof (intro exI[of _ q] conjI allI impI)
    fix w' l' g' u assume u: "parameter_find P (sys_params s) (control_path (w', l', g')) = Some u"
    have "(w', l', g') = c \<longleftrightarrow> u = h" by (rule same[OF u])
    then show "parameter_scalar_read P q u = (if (w', l', g') \<in> set (c # cs) \<and> var_changed (V_control w' l' g') 0 s
            then thousandths (get_var (V_control w' l' g') 0 (vmVariables s)) else parameter_scalar_read P (sys_params s) u)"
      using q(2)[rule_format, of w' l' g' u] u f1 r1[of u] Cons.prems(1) c by auto
  qed (use wr q(1) in simp)
qed

end


text \<open>When the script changes nothing between the two copies, writing back changes nothing at all: setters
  called from C are not disturbed by the machine.\<close>
lemma aseba_sync_quiet:
  assumes "aseba_read_variables_from_system mb P junk nodeId s = Inr s'"
  shows "aseba_write_variables_to_system mb P inv_left inv_right s' = Inr s'"
proof -
  have "vmVariables s' = previous_vars s'"
    using assms by (auto simp: aseba_read_variables_from_system_def fault_bind_Inr)
  then have c: "\<not> var_changed f i s'" for f i by (simp add: var_changed_def)
  have l: "fault_fold (write_led mb) xs s' = Inr s'" for xs by (induction xs) (simp_all add: write_led_def c)
  have p: "fault_fold (write_param_from_vm P) cs s' = Inr s'" for cs
    by (induction cs) (auto simp: write_param_from_vm_def c)
  show ?thesis
    by (simp add: aseba_write_variables_to_system_def write_pwm_def write_setpoint_def c l p)
qed

subsection \<open>Control gains\<close>

lemma k1000: "f_const f64 1000 = FFin False 1000" by code_simp

lemma thousandths_near:
  assumes "sint v \<noteq> 0"
  obtains r where "thousandths v = FFin (sint v < 0) r" "0 < r" "\<bar>r * 1000 - of_int \<bar>sint v\<bar>\<bar> \<le> 1 / 64"
proof -
  let ?n = "of_int \<bar>sint v\<bar> :: rat"
  have i32: "1 \<le> \<bar>sint v\<bar>" "\<bar>sint v\<bar> \<le> 32768"
    using assms sint_range_size[of v] by (auto simp: word_size)
  have b: "1 \<le> ?n" "?n \<le> 32768"
    using i32 by (metis of_int_1_le_iff, metis of_int_le_iff of_int_numeral)
  have i: "f_of_int f64 (sint v) = FFin (sint v < 0) ?n"
  proof (rule f_of_int_exact)
    show "\<bar>sint v\<bar> < 2 ^ fprec f64" using i32(2) by (simp add: f64_def)
    show "2 ^ fprec f64 \<le> fmax f64" by (rule order_trans[OF _ fmax_large(2)]) (simp add: f64_def)
  qed (simp add: f64_def)
  have lim: "pow2 (fqmin f64 + int (fprec f64) - 1) \<le> 1 / 1000" "pow2 (fqmin f32 + int (fprec f32) - 1) \<le> 1 / 2000"
    by (simp_all add: f64_def f32_def pow2_def)
  have big: "66 \<le> fmax f64" "132 \<le> fmax f32"
    by (rule order_trans[OF _ fmax_large(2)] order_trans[OF _ fmax_large(1)]; simp)+
  obtain d where d: "fround f64 (sint v < 0) (?n / 1000) = FFin (sint v < 0) d" "\<bar>d - ?n / 1000\<bar> \<le> ?n / 1000 / 2 ^ fprec f64" "0 < d"
    by (rule fround_near[of f64 "?n / 1000" "sint v < 0"]) (use b lim big in auto)
  have d1: "\<bar>d - ?n / 1000\<bar> \<le> 1 / 1000000000" using d(2) b by (simp add: f64_def)
  have d2: "1 / 2000 \<le> d" "d \<le> 33" using d1 b by linarith+
  obtain r where r: "fround f32 (sint v < 0) d = FFin (sint v < 0) r" "\<bar>r - d\<bar> \<le> d / 2 ^ fprec f32" "0 < r"
    by (rule fround_near[of f32 d "sint v < 0"]) (use d2 lim big in auto)
  have r1: "\<bar>r - d\<bar> \<le> 1 / 500000" using r(2) d2 by (simp add: f32_def)
  have "thousandths v = FFin (sint v < 0) r"
    using d(1) r(1) by (simp add: thousandths_def i k1000)
  moreover have "\<bar>r * 1000 - ?n\<bar> \<le> 1 / 64" using r1 d1 by linarith
  ultimately show ?thesis using that r(3) by blast
qed


lemma gain_reading:
  "\<exists>k. float_to_int16 (fmul f64 (f_const f64 1000) (f_conv f64 (thousandths v))) = Inr (word_of_int k)
    \<and> (k = sint v \<or> k = sint v - sgn (sint v))"
proof (cases "sint v = 0")
  case True
  then have "v = 0" by (metis signed_0 signed_word_eqI)
  moreover have "float_to_int16 (fmul f64 (f_const f64 1000) (f_conv f64 (thousandths 0))) = Inr (word_of_int 0)"
    by code_simp
  ultimately show ?thesis by (intro exI[of _ 0]) simp
next
  case False
  let ?n = "of_int \<bar>sint v\<bar> :: rat"
  obtain r where r: "thousandths v = FFin (sint v < 0) r" "0 < r" "\<bar>r * 1000 - ?n\<bar> \<le> 1 / 64"
    by (rule thousandths_near[OF False])
  have i32: "1 \<le> \<bar>sint v\<bar>" "\<bar>sint v\<bar> \<le> 32768"
    using False sint_range_size[of v] by (auto simp: word_size)
  have b: "1 \<le> ?n" "?n \<le> 32768"
    using i32 by (metis of_int_1_le_iff, metis of_int_le_iff of_int_numeral)
  have r32: "1 / 2000 \<le> r" "r \<le> 33" using r(3) b by linarith+
  have lim: "pow2 (fqmin f64 + int (fprec f64) - 1) \<le> 1 / 2000" by (simp add: f64_def pow2_def)
  have big: "70000 \<le> fmax f64" by (rule order_trans[OF _ fmax_large(2)]) simp
  obtain c where c: "fround f64 (sint v < 0) r = FFin (sint v < 0) c" "\<bar>c - r\<bar> \<le> r / 2 ^ fprec f64" "0 < c"
    by (rule fround_near[of f64 r "sint v < 0"]) (use r32 lim big in auto)
  have c1: "\<bar>c - r\<bar> \<le> 1 / 1000000000" using c(2) r32 by (simp add: f64_def)
  have c32: "1 / 4 \<le> c * 1000" "c * 1000 \<le> 34000" using c1 r32 by linarith+
  obtain e where e: "fround f64 (sint v < 0) (c * 1000) = FFin (sint v < 0) e" "\<bar>e - c * 1000\<bar> \<le> c * 1000 / 2 ^ fprec f64" "0 < e"
    by (rule fround_near[of f64 "c * 1000" "sint v < 0"]) (use c32 lim big in auto)
  have e1: "\<bar>e - c * 1000\<bar> \<le> 1 / 1000000" using e(2) c32 by (simp add: f64_def)
  have e2: "\<bar>e - ?n\<bar> \<le> 1 / 32" using e1 c1 r(3) by linarith
  have f: "\<lfloor>e\<rfloor> = \<bar>sint v\<bar> \<or> \<lfloor>e\<rfloor> = \<bar>sint v\<bar> - 1" using e2 by linarith
  have m: "fmul f64 (f_const f64 1000) (f_conv f64 (thousandths v)) = FFin (sint v < 0) e"
    using c(1) e(1) by (simp add: r(1) k1000 mult.commute)
  have l: "- 2147483648 \<le> \<lfloor>e\<rfloor> \<and> \<lfloor>e\<rfloor> \<le> 2147483647" using f i32 by linarith
  then have l': "- 2147483648 \<le> - \<lfloor>e\<rfloor> \<and> - \<lfloor>e\<rfloor> \<le> 2147483647" using f i32 by linarith
  define k where "k = (if sint v < 0 then - \<lfloor>e\<rfloor> else \<lfloor>e\<rfloor>)"
  have "f_to_range (- (2 ^ 31)) (2 ^ 31 - 1) (FFin (sint v < 0) e) = Some k"
    using l l' by (auto simp: f_to_range_def k_def)
  moreover have "k = sint v \<or> k = sint v - sgn (sint v)" using f False by (auto simp: k_def sgn_if)
  ultimately show ?thesis unfolding m float_to_int16_def by auto
qed

text \<open>A control parameter that a script sets to \<open>x\<close> thousandths reads back, at the next copy, as \<open>x\<close> or as
  the next integer towards zero, whichever parameter it is; the second happens, already for 5, since
  the nearest \<open>float\<close> below 0.005 is truncated.\<close>
lemma control_gain_readback:
  assumes "parameter_tree P" "var_changed (V_control w l g) 0 s"
    and "write_param_from_vm P (w, l, g) s = Inr s'"
    and "x = get_var (V_control w l g) 0 (vmVariables s)"
  shows "(\<exists>k. read_param_to_vm P (sys_params s') (w, l, g) v = Inr (set_var (V_control w l g) 0 (word_of_int k) v)
      \<and> (k = sint x \<or> k = sint x - sgn (sint x)))
    \<and> (x = 5 \<longrightarrow> read_param_to_vm P (sys_params s') (w, l, g) v = Inr (set_var (V_control w l g) 0 4 v))"
proof -
  obtain h where h: "parameter_find P (sys_params s) (control_path (w, l, g)) = Some h"
      "s' = s\<lparr>sys_params := parameter_scalar_set P h (thousandths x) (sys_params s)\<rparr>"
    using assms(2-4) by (auto simp: write_param_from_vm_def split: option.splits)
  have rd: "read_param_to_vm P (sys_params s') (w, l, g) v =
      store_int (V_control w l g) 0 (fmul f64 (f_const f64 1000) (f_conv f64 (thousandths x))) v"
    using h by (simp add: read_param_to_vm_def parameter_tree.find_set[OF assms(1)] parameter_tree.read_set[OF assms(1)])
  have "float_to_int16 (fmul f64 (f_const f64 1000) (f_conv f64 (thousandths 5))) = Inr 4" by code_simp
  moreover obtain k where "float_to_int16 (fmul f64 (f_const f64 1000) (f_conv f64 (thousandths x))) = Inr (word_of_int k)"
      "k = sint x \<or> k = sint x - sgn (sint x)" using gain_reading[of x] by blast
  ultimately show ?thesis unfolding rd store_int_def by auto
qed

text \<open>A robot with all its parameters and topics, on the reference bus and tree.\<close>

definition ref_aseba :: "(ref_bus_state, string list \<times> (string \<times> fp) list) aseba_sys" where
  "ref_aseba = \<lparr>vmVariables = replicate variablesSize 0, previous_vars = replicate variablesSize 0, sys_pwm = (\<lambda>_. None),
     sys_bus = \<lparr>rb_topics = [''/motors/setpoint'', ''/body_leds/3''], rb_values = []\<rparr>,
     sys_params = (map control_path control_vars, [])\<rparr>"

definition script_step :: "vm_var \<Rightarrow> nat \<Rightarrow> u16 \<Rightarrow> ('b, 'p) aseba_sys \<Rightarrow> ('b, 'p) aseba_sys" where
  "script_step f i x s = s\<lparr>vmVariables := set_var f i x (vmVariables s)\<rparr>"

lemma control_gain_readback_witness:
  "\<exists>s'. write_param_from_vm ref_params (LEFT, Current_loop, Kp)
      (script_step (V_control LEFT Current_loop Kp) 0 5 ref_aseba) = Inr s'
    \<and> read_param_to_vm ref_params (sys_params s') (LEFT, Current_loop, Kp) (vmVariables ref_aseba) =
        Inr (set_var (V_control LEFT Current_loop Kp) 0 4 (vmVariables ref_aseba))"
proof -
  let ?s = "script_step (V_control LEFT Current_loop Kp) 0 5 ref_aseba"
  have x: "5 = get_var (V_control LEFT Current_loop Kp) 0 (vmVariables ?s)"
    by (simp add: script_step_def ref_aseba_def)
  have ch: "var_changed (V_control LEFT Current_loop Kp) 0 ?s"
    using x var_index_bound[of 0 "V_control LEFT Current_loop Kp"]
    by (simp add: var_changed_def) (simp add: script_step_def ref_aseba_def get_var_def)
  have "control_path (LEFT, Current_loop, Kp) \<in> set (map control_path control_vars)"
    using control_vars_all by simp
  then obtain s' where w: "write_param_from_vm ref_params (LEFT, Current_loop, Kp) ?s = Inr s'"
    using ch by (simp add: write_param_from_vm_def ref_params_def ref_aseba_def script_step_def)
  from control_gain_readback[OF ref_pt.parameter_tree_axioms ch w x] w show ?thesis by auto
qed

subsection \<open>What a reader leaves alone\<close>

definition frames :: "vm_var set \<Rightarrow> (u16 list \<Rightarrow> fault + u16 list) \<Rightarrow> bool" where
  "frames F f \<longleftrightarrow> (\<forall>v v'. f v = Inr v' \<and> length v = variablesSize \<longrightarrow>
     length v' = variablesSize \<and> (\<forall>g i. g \<notin> F \<and> i < var_len g \<longrightarrow> get_var g i v' = get_var g i v))"

lemma framesD:
  assumes "frames F f" "f v = Inr v'" "length v = variablesSize"
  shows "length v' = variablesSize" and "g \<notin> F \<Longrightarrow> i < var_len g \<Longrightarrow> get_var g i v' = get_var g i v"
  using assms unfolding frames_def by blast+

lemma frames_Inl [intro]: "frames F (\<lambda>v. Inl e)" by (simp add: frames_def)

lemma frames_Inr [intro]: "frames F Inr" by (simp add: frames_def)

lemma frames_set [intro]: "f \<in> F \<Longrightarrow> i < var_len f \<Longrightarrow> frames F (\<lambda>v. Inr (set_var f i x v))"
  by (auto simp: frames_def)

lemma frames_bind [intro]: "frames F f \<Longrightarrow> frames F g \<Longrightarrow> frames F (\<lambda>v. fault_bind (f v) g)"
  unfolding frames_def fault_bind_Inr by metis

lemma frames_fold: "(\<And>x. x \<in> set xs \<Longrightarrow> frames F (f x)) \<Longrightarrow> frames F (fault_fold f xs)"
proof (induction xs)
  case Nil
  show ?case by (simp add: frames_def)
next
  case (Cons x xs)
  have "frames F (\<lambda>v. fault_bind (f x v) (fault_fold f xs))"
    by (rule frames_bind) (use Cons in auto)
  then show ?case by (simp add: frames_def)
qed


lemma frames_store: "f \<in> F \<Longrightarrow> i < var_len f \<Longrightarrow> frames F (store_s16 f i x)" "f \<in> F \<Longrightarrow> i < var_len f \<Longrightarrow> frames F (store_int f i x)"
  by (auto simp: frames_def store_s16_def store_int_def fault_bind_Inr)

lemma frames_pair: "(\<And>w. f w \<in> F \<and> var_len (f w) = 1) \<Longrightarrow> frames F (store_pair f l r)"
  unfolding store_pair_def[abs_def] by (intro frames_bind frames_store) auto

lemma frames_readers [intro]:
  "frames (range V_motor_current) (read_currents m)"
  "frames (range V_motor_velocity) (read_velocities m)"
  "frames (range V_motor_position) (read_positions m)"
  "frames (range (V_setpoint Current_loop)) (read_setpoint m)"
  by (cases m; auto simp: read_currents_def[abs_def] read_velocities_def[abs_def] read_positions_def[abs_def]
        read_setpoint_def[abs_def] frames_Inl intro!: frames_pair)+

lemma frames_read_imu [intro]: "frames {V_acceleration, V_gyro} (read_imu m)"
proof (cases m)
  case (Imu_msg a r)
  have "frames {V_acceleration, V_gyro} (fault_fold (\<lambda>i v. fault_bind (store_s16 V_acceleration i (milli (a ! i)) v)
                           (store_s16 V_gyro i (milli (r ! i)))) [0..<3])"
    by (rule frames_fold) (auto intro!: frames_bind frames_store)
  then show ?thesis by (simp add: read_imu_def[abs_def] Imu_msg)
qed (auto simp: read_imu_def[abs_def] frames_Inl)

lemma frames_read_encoders [intro]: "frames (range V_motor_enc) (read_encoders m)"
  by (cases m) (auto simp: read_encoders_def[abs_def] read_encoder_def frames_Inl frames_def)

lemma frames_from_topic: "frames F (rd (the (read_topic mb junk b n))) \<Longrightarrow> frames F (read_from_topic mb junk b (n, rd))"
  by (auto simp: read_from_topic_def frames_def split: option.splits)

lemma frames_param: "frames {V_control w l g |w l g. True} (read_param_to_vm P p c)"
  by (cases c) (auto simp: read_param_to_vm_def frames_def fault_bind_Inr store_int_def split: option.splits)

lemma reader_faults:
  assumes "(n, rd) \<in> set topic_readers"
  shows "rd m v \<noteq> Inl Sys_halt"
proof -
  have d: "defined x \<noteq> Inl Sys_halt" for x :: "'a option" by (cases x) auto
  have s: "store_s16 f i x v \<noteq> Inl Sys_halt" "store_int f i x v \<noteq> Inl Sys_halt" for f i x v
    using d by (auto simp: store_s16_def store_int_def float_to_s16_def float_to_int16_def f_to_range_def split: option.splits)
  have b: "fault_bind a k \<noteq> Inl Sys_halt" if "a \<noteq> Inl Sys_halt" "\<And>x. k x \<noteq> Inl Sys_halt"
    for a :: "fault + 'x" and k :: "'x \<Rightarrow> fault + 'y" using that by (cases a) auto
  have p: "store_pair f l r v \<noteq> Inl Sys_halt" for f l r v by (simp add: store_pair_def b s)
  have f: "fault_fold f xs v \<noteq> Inl Sys_halt" if "\<And>x v. f x v \<noteq> Inl Sys_halt"
    for f :: "nat \<Rightarrow> u16 list \<Rightarrow> fault + u16 list" and xs v
    using that by (induction xs arbitrary: v) (auto simp: b)
  have s2: "fault_bind (store_s16 f i x v) (store_s16 g j y) \<noteq> Inl Sys_halt" for f i x v g j y by (rule b[OF s(1) s(1)])
  have i: "read_imu m v \<noteq> Inl Sys_halt"
    by (cases m) (simp_all add: read_imu_def f s2 del: upt_rec_numeral)
  show ?thesis
    using assms i unfolding topic_readers_def
    by (cases m) (auto simp: read_battery_level_def read_range_def read_proximity_def read_encoders_def
        read_currents_def read_velocities_def read_positions_def read_setpoint_def s p)
qed


lemma frames_first [intro]:
  "frames {V_battery_mv} (read_battery_level m)" "frames {V_range} (read_range m)"
  by (cases m; auto simp: read_battery_level_def[abs_def] read_range_def[abs_def] frames_Inl intro!: frames_store frames_set)+

lemma frames_read_proximity [intro]:
  "frames {V_proximity_delta, V_proximity_ambient, V_proximity_reflected} (read_proximity m)"
proof (cases m)
  case (Proximity_msg a r d)
  define st where "st i v = set_var V_proximity_reflected i (ucast (r ! i)) (set_var V_proximity_ambient i (ucast (a ! i))
    (set_var V_proximity_delta i (ucast (d ! i)) v))" for i v
  have "length (fold st xs v) = variablesSize \<and>
      (\<forall>g i. g \<notin> {V_proximity_delta, V_proximity_ambient, V_proximity_reflected} \<and> i < var_len g \<longrightarrow>
        get_var g i (fold st xs v) = get_var g i v)"
    if "length v = variablesSize" "set xs \<subseteq> {..<13}" for xs v
    using that by (induction xs arbitrary: v) (auto simp: st_def)
  then show ?thesis
    by (simp add: frames_def read_proximity_def Proximity_msg PROXIMITY_NB_CHANNELS_def st_def[abs_def, symmetric]
        lessThan_atLeast0 del: upt_rec_numeral)
qed (auto simp: read_proximity_def[abs_def] frames_Inl)

lemma frames_mono: "frames F f \<Longrightarrow> F \<subseteq> G \<Longrightarrow> frames G f"
  unfolding frames_def by (meson subsetD)

text \<open>The variables a reader owns.\<close>

fun owner :: "vm_var \<Rightarrow> string" where
  "owner V_battery_mv = ''/battery_level''"
| "owner V_range = ''/range''"
| "owner V_proximity_delta = ''/proximity''"
| "owner V_proximity_ambient = ''/proximity''"
| "owner V_proximity_reflected = ''/proximity''"
| "owner (V_motor_enc w) = ''/encoders''"
| "owner V_acceleration = ''/imu''"
| "owner V_gyro = ''/imu''"
| "owner (V_motor_current w) = ''/motors/current''"
| "owner (V_motor_velocity w) = ''/wheel_velocities''"
| "owner (V_motor_position w) = ''/wheel_pos''"
| "owner (V_setpoint Current_loop w) = ''/motors/setpoint''"
| "owner _ = []"

definition owned :: "string \<Rightarrow> vm_var set" where
  "owned n = {f. owner f = n}"

lemma frames_owned:
  assumes "(n, rd) \<in> set topic_readers"
  shows "frames (owned n) (rd m)"
proof -
  have 1: "frames (owned ''/battery_level'') (read_battery_level m)" by (rule frames_mono[OF frames_first(1)]) (simp add: owned_def)
  have 2: "frames (owned ''/range'') (read_range m)" by (rule frames_mono[OF frames_first(2)]) (simp add: owned_def)
  have 3: "frames (owned ''/proximity'') (read_proximity m)" by (rule frames_mono[OF frames_read_proximity]) (simp add: owned_def)
  have 4: "frames (owned ''/encoders'') (read_encoders m)"
    by (rule frames_mono[OF frames_read_encoders]) (simp add: owned_def image_subset_iff)
  have 5: "frames (owned ''/imu'') (read_imu m)" by (rule frames_mono[OF frames_read_imu]) (simp add: owned_def)
  have 6: "frames (owned ''/motors/current'') (read_currents m)"
    by (rule frames_mono[OF frames_readers(1)]) (simp add: owned_def image_subset_iff)
  have 7: "frames (owned ''/wheel_velocities'') (read_velocities m)"
    by (rule frames_mono[OF frames_readers(2)]) (simp add: owned_def image_subset_iff)
  have 8: "frames (owned ''/wheel_pos'') (read_positions m)"
    by (rule frames_mono[OF frames_readers(3)]) (simp add: owned_def image_subset_iff)
  have 9: "frames (owned ''/motors/setpoint'') (read_setpoint m)"
    by (rule frames_mono[OF frames_readers(4)]) (simp add: owned_def image_subset_iff)
  have "(n, rd) = (''/battery_level'', read_battery_level) \<or> (n, rd) = (''/range'', read_range)
      \<or> (n, rd) = (''/proximity'', read_proximity) \<or> (n, rd) = (''/encoders'', read_encoders) \<or> (n, rd) = (''/imu'', read_imu)
      \<or> (n, rd) = (''/motors/current'', read_currents) \<or> (n, rd) = (''/wheel_velocities'', read_velocities)
      \<or> (n, rd) = (''/wheel_pos'', read_positions) \<or> (n, rd) = (''/motors/setpoint'', read_setpoint)"
    using assms by (simp only: topic_readers_def set_simps insert_iff empty_iff simp_thms)
  then show ?thesis using 1 2 3 4 5 6 7 8 9 by (elim disjE) (simp_all only: prod.inject)
qed

lemma reader_name: "(n, rd) \<in> set topic_readers \<Longrightarrow> n \<noteq> []"
  by (auto simp: topic_readers_def)

lemma owned_disjoint:
  "n \<noteq> n' \<Longrightarrow> owned n \<inter> owned n' = {}" "n \<noteq> [] \<Longrightarrow> owned n \<inter> {V_control w l g |w l g. True} = {}"
  by (auto simp: owned_def)

lemma frames_read_from:
  assumes "(n, rd) \<in> set topic_readers"
  shows "frames (owned n) (read_from_topic mb junk b (n, rd))"
  using frames_owned[OF assms] by (auto simp: read_from_topic_def frames_def split: option.splits)

lemma fault_fold_append: "fault_fold f (xs @ ys) s = fault_bind (fault_fold f xs s) (fault_fold f ys)"
proof (induction xs arbitrary: s)
  case (Cons x xs)
  then show ?case by (cases "f x s") simp_all
qed simp

lemma distinct_readers: "distinct (map fst topic_readers)"
  by (simp add: topic_readers_def)

text \<open>After a successful copy the variables of a topic are what its reader made of the message.\<close>

lemma reader_result:
  assumes "aseba_read_variables_from_system mb P junk nodeId s = Inr s'" "length (vmVariables s) = variablesSize"
    and "(n, rd) \<in> set topic_readers" "read_topic mb junk (sys_bus s) n = Some m"
  shows "\<exists>v v'. length v = variablesSize \<and> rd m v = Inr v'
    \<and> (\<forall>g i. g \<in> owned n \<and> i < var_len g \<longrightarrow> get_var g i (vmVariables s') = get_var g i v')"
proof -
  let ?r = "read_from_topic mb junk (sys_bus s)"
  obtain pre post where tr: "topic_readers = pre @ (n, rd) # post" using assms(3) by (meson split_list)
  have post: "n' \<noteq> n" if "(n', rd') \<in> set post" for n' rd'
  proof
    assume "n' = n"
    then have "n \<in> set (map fst post)" using that by (metis fst_conv image_eqI list.set_map)
    then show False using distinct_readers by (simp add: tr)
  qed
  let ?v0 = "set_var V_id 0 nodeId (vmVariables s)"
  obtain v1 v3 v4 where steps: "fault_fold ?r pre ?v0 = Inr v1" "?r (n, rd) v1 = Inr v3" "fault_fold ?r post v3 = Inr v4"
      "fault_fold (read_param_to_vm P (sys_params s)) control_vars v4 = Inr (vmVariables s')"
    using assms(1) by (auto simp: aseba_read_variables_from_system_def tr fault_fold_append fault_bind_Inr)
  have fpre: "frames UNIV (fault_fold ?r pre)"
  proof (rule frames_fold)
    fix x assume x: "x \<in> set pre"
    obtain n' rd' where x': "x = (n', rd')" by force
    have "(n', rd') \<in> set topic_readers" using x by (simp add: tr x')
    then show "frames UNIV (?r x)" unfolding x' by (rule frames_mono[OF frames_read_from]) simp
  qed
  have l1: "length v1 = variablesSize" using framesD(1)[OF fpre steps(1)] assms(2) by simp
  have rd: "rd m v1 = Inr v3" using steps(2) assms(4) by (simp add: read_from_topic_def)
  have l3: "length v3 = variablesSize" using framesD(1)[OF frames_owned[OF assms(3)] rd l1] .
  have fpost: "frames (- owned n) (fault_fold ?r post)"
  proof (rule frames_fold)
    fix x assume x: "x \<in> set post"
    obtain n' rd' where x': "x = (n', rd')" by force
    have "(n', rd') \<in> set topic_readers" using x by (simp add: tr x')
    then show "frames (- owned n) (?r x)"
      unfolding x' using post[of n' rd'] x x' owned_disjoint(1)[of n' n] by (intro frames_mono[OF frames_read_from]) auto
  qed
  have fpar: "frames (- owned n) (fault_fold (read_param_to_vm P (sys_params s)) control_vars)"
    by (rule frames_fold, rule frames_mono[OF frames_param]) (use owned_disjoint(2)[OF reader_name[OF assms(3)]] in auto)
  have l4: "length v4 = variablesSize" using framesD(1)[OF fpost steps(3) l3] .
  show ?thesis
    using l1 rd framesD(2)[OF fpost steps(3) l3] framesD(2)[OF fpar steps(4) l4] by auto
qed


subsection \<open>Encoders and positions\<close>

lemma quotient_words:
  assumes "\<bar>x\<bar> < 32768 * 32767"
  shows "sint (word_of_int (x sdiv INT16_MAX) :: u16) * INT16_MAX + sint (word_of_int (x smod INT16_MAX) :: u16) = x"
proof -
  have q: "x sdiv 32767 = sgn x * (\<bar>x\<bar> div 32767)" "x smod 32767 = sgn x * (\<bar>x\<bar> mod 32767)"
    by (simp_all add: signed_divide_int_def signed_modulo_int_def)
  have d: "0 \<le> \<bar>x\<bar> div 32767" "\<bar>x\<bar> div 32767 < 32768" "0 \<le> \<bar>x\<bar> mod 32767" "\<bar>x\<bar> mod 32767 < 32767"
    using assms by (auto simp: div_less_iff_less_mult)
  have b: "\<bar>sgn x * k\<bar> < 32768" if "0 \<le> k" "k < 32768" for k using that by (cases x "0 :: int" rule: linorder_cases) simp_all
  have w: "sint (word_of_int k :: u16) = k" if "\<bar>k\<bar> < 32768" for k
    using that by (simp add: signed_of_int signed_take_bit_int_eq_self abs_less_iff)
  have "\<bar>x sdiv 32767\<bar> < 32768" unfolding q by (rule b) (use d in auto)
  moreover have "\<bar>x smod 32767\<bar> < 32768" unfolding q by (rule b) (use d in auto)
  ultimately have "sint (word_of_int (x sdiv 32767) :: u16) = x sdiv 32767" "sint (word_of_int (x smod 32767) :: u16) = x smod 32767"
    using w by blast+
  moreover have "x sdiv 32767 * 32767 + x smod 32767 = x"
    by (rule sdiv_mult_smod_eq)
  ultimately show ?thesis by (simp add: INT16_MAX_def)
qed

text \<open>After every successful copy with an encoder message on the bus, the two words of an encoder
  recompose to the counter as quotient and remainder by 32767, for every counter whose quotient fits a
  word. They are not the upper and lower half: 65536 shows as 2 and 2.\<close>
lemma encoder_words_recompose:
  assumes "aseba_read_variables_from_system mb P junk nodeId s = Inr s'" and "length (vmVariables s) = variablesSize"
    and "mb_find mb (sys_bus s) ''/encoders'' = Some t" and "mb_read mb (sys_bus s) t = Some (Encoders_msg l r)"
  shows "(\<bar>sint l\<bar> < 32768 * 32767 \<longrightarrow> sint (get_var (V_motor_enc LEFT) 0 (vmVariables s')) * INT16_MAX
        + sint (get_var (V_motor_enc LEFT) 1 (vmVariables s')) = sint l)
    \<and> (\<bar>sint r\<bar> < 32768 * 32767 \<longrightarrow> sint (get_var (V_motor_enc RIGHT) 0 (vmVariables s')) * INT16_MAX
        + sint (get_var (V_motor_enc RIGHT) 1 (vmVariables s')) = sint r)
    \<and> (l = 65536 \<longrightarrow> get_var (V_motor_enc LEFT) 0 (vmVariables s') = 2 \<and> get_var (V_motor_enc LEFT) 1 (vmVariables s') = 2)"
proof -
  have "(''/encoders'', read_encoders) \<in> set topic_readers" by (simp add: topic_readers_def)
  moreover have "read_topic mb junk (sys_bus s) ''/encoders'' = Some (Encoders_msg l r)"
    using assms(3,4) by (simp add: read_topic_def)
  ultimately obtain v v' where v: "length v = variablesSize" "read_encoders (Encoders_msg l r) v = Inr v'"
    and g: "\<forall>g i. g \<in> owned ''/encoders'' \<and> i < var_len g \<longrightarrow> get_var g i (vmVariables s') = get_var g i v'"
    using reader_result[OF assms(1,2)] by blast
  have "get_var (V_motor_enc w) i (vmVariables s') = word_of_int (case i of 0 \<Rightarrow> sint x sdiv INT16_MAX | _ \<Rightarrow> sint x smod INT16_MAX)"
    if "i < 2" "x = (case w of LEFT \<Rightarrow> l | RIGHT \<Rightarrow> r)" for w i x
    using g[rule_format, of "V_motor_enc w" i] v that
    by (cases w) (auto simp: owned_def read_encoders_def read_encoder_def less_2_cases_iff)
  from this[of 0 l LEFT] this[of 1 l LEFT] this[of 0 r RIGHT] this[of 1 r RIGHT]
  show ?thesis using quotient_words[of "sint l"] quotient_words[of "sint r"]
    by (auto simp: INT16_MAX_def signed_divide_int_def signed_modulo_int_def)
qed

lemma fround_ge:
  assumes "0 < fprec F" "0 \<le> a" "a \<le> m"
  shows "fround F s m = FInf s \<or> (\<exists>r. fround F s m = FFin s r \<and> round_mag F a \<le> r)"
  using round_mag_mono[OF assms] by (auto simp: fround_def Let_def)

lemma far_degrees:
  assumes "573 \<le> m"
  shows "float_to_s16 (degrees (FFin sg m)) = Inl Undefined_behaviour"
proof -
  have pi: "M_PI = FFin False (884279719003555 / 281474976710656)" by code_simp
  have k: "f_of_int f32 180 = FFin False 180" by code_simp
  have r32: "round_mag f32 103140 = 103140" and r64: "round_mag f64 103140 = 103140"
    and rd: "32800 \<le> round_mag f64 (103140 / (884279719003555 / 281474976710656))" by code_simp+
  have inf: "float_to_s16 (FInf b) = Inl Undefined_behaviour" for b by (simp add: float_to_s16_def f_to_range_def)
  have big: "float_to_s16 (FFin b q) = Inl Undefined_behaviour" if "32800 \<le> q" for b q
  proof -
    have "32800 \<le> \<lfloor>q\<rfloor>" using that by linarith
    then show ?thesis by (simp add: float_to_s16_def f_to_range_def)
  qed
  consider "fround f32 sg (m * 180) = FInf sg" | x where "fround f32 sg (m * 180) = FFin sg x" "103140 \<le> x"
    using fround_ge[of f32 103140 "m * 180" sg] assms r32 by auto
  then show ?thesis
  proof cases
    case 1 then show ?thesis by (simp add: degrees_def k pi inf)
  next
    case 2
    consider "fround f64 sg x = FInf sg" | y where "fround f64 sg x = FFin sg y" "103140 \<le> y"
      using fround_ge[of f64 103140 x sg] 2 r64 by auto
    then show ?thesis
    proof cases
      case 1 then show ?thesis using 2 by (simp add: degrees_def k pi inf)
    next
      case y: 2
      consider "fround f64 sg (y / (884279719003555 / 281474976710656)) = FInf sg"
        | z where "fround f64 sg (y / (884279719003555 / 281474976710656)) = FFin sg z" "32800 \<le> z"
        using fround_ge[of f64 "103140 / (884279719003555 / 281474976710656)" "y / (884279719003555 / 281474976710656)" sg] y rd
        by force
      then show ?thesis using 2 y by cases (simp_all add: degrees_def k pi inf big)
    qed
  qed
qed

text \<open>A wheel position of 573 radians or more, about 91 turns, makes the copy into the variables
  undefined: its degrees do not fit the 16-bit variable.\<close>
lemma far_position_undefined:
  assumes "mb_find mb (sys_bus s) ''/wheel_pos'' = Some t"
    and "mb_read mb (sys_bus s) t = Some (Wheel_pos_msg (FFin sg m) r)" and "573 \<le> m"
  shows "aseba_read_variables_from_system mb P junk nodeId s = Inl Undefined_behaviour"
proof -
  let ?r = "read_from_topic mb junk (sys_bus s)"
  obtain pre post where tr: "topic_readers = pre @ (''/wheel_pos'', read_positions) # post"
    using split_list[of "(''/wheel_pos'', read_positions)" topic_readers] by (auto simp: topic_readers_def)
  have step: "?r (''/wheel_pos'', read_positions) v = Inl Undefined_behaviour" for v
    using assms(1,2) far_degrees[OF assms(3), of sg]
    by (simp add: read_from_topic_def read_topic_def read_positions_def store_pair_def store_s16_def)
  have "fault_fold ?r xs v \<noteq> Inl Sys_halt" if "set xs \<subseteq> set topic_readers" for xs v
    using that
  proof (induction xs arbitrary: v)
    case (Cons x xs)
    have "?r x v \<noteq> Inl Sys_halt"
      using Cons.prems reader_faults by (cases x) (auto simp: read_from_topic_def split: option.splits)
    then show ?case using Cons by (cases "?r x v") auto
  qed simp
  from this[of pre] have pre: "fault_fold ?r pre v = Inl Undefined_behaviour \<or> (\<exists>v'. fault_fold ?r pre v = Inr v')" for v
    using fault.exhaust by (cases "fault_fold ?r pre v") (auto simp: tr)
  have "fault_fold ?r topic_readers v = Inl Undefined_behaviour" for v
    using pre[of v] step by (auto simp: tr fault_fold_append)
  then show ?thesis by (simp add: aseba_read_variables_from_system_def)
qed


subsection \<open>A robot on the reference bus\<close>

definition ref_robot :: "(string \<times> message) list \<Rightarrow> (ref_bus_state, string list \<times> (string \<times> fp) list) aseba_sys" where
  "ref_robot topics = ref_aseba\<lparr>sys_bus := \<lparr>rb_topics = map fst topics, rb_values = topics\<rparr>\<rparr>"

definition ref_topics :: "(string \<times> message) list" where
  "ref_topics = [(''/motors/setpoint'', Wheels_setpoint_msg 0 fzero fzero), (''/encoders'', Encoders_msg 100000 65536),
     (''/body_leds/3'', Body_led_msg fzero)]"

lemma ref_read:
  "\<exists>s'. aseba_read_variables_from_system ref_msgbus ref_params (\<lambda>_. Battery_msg fzero) 42 (ref_robot ref_topics) = Inr s'"
proof -
  have "(case aseba_read_variables_from_system ref_msgbus ref_params (\<lambda>_. Battery_msg fzero) 42 (ref_robot ref_topics) of
      Inr s' \<Rightarrow> True | Inl _ \<Rightarrow> False)" by code_simp
  then show ?thesis by (auto split: sum.splits)
qed

lemma ref_robot_simps:
  "length (vmVariables (ref_robot topics)) = variablesSize"
  "mb_find ref_msgbus (sys_bus (ref_robot ref_topics)) ''/encoders'' = Some ''/encoders''"
  "mb_read ref_msgbus (sys_bus (ref_robot ref_topics)) ''/encoders'' = Some (Encoders_msg 100000 65536)"
  "mb_find ref_msgbus (sys_bus (ref_robot ref_topics)) ''/motors/setpoint'' = Some ''/motors/setpoint''"
  by (simp_all add: ref_robot_def ref_aseba_def ref_msgbus_def ref_topics_def)

lemma aseba_sync_quiet_witness:
  "\<exists>s'. aseba_read_variables_from_system ref_msgbus ref_params (\<lambda>_. Battery_msg fzero) 42 (ref_robot ref_topics) = Inr s'
    \<and> aseba_write_variables_to_system ref_msgbus ref_params False True s' = Inr s'"
  using ref_read aseba_sync_quiet[of ref_msgbus ref_params _ 42 "ref_robot ref_topics" _ False True] by blast

lemma encoder_words_recompose_witness:
  "\<exists>s'. aseba_read_variables_from_system ref_msgbus ref_params (\<lambda>_. Battery_msg fzero) 42 (ref_robot ref_topics) = Inr s'
    \<and> sint (get_var (V_motor_enc LEFT) 0 (vmVariables s')) * INT16_MAX + sint (get_var (V_motor_enc LEFT) 1 (vmVariables s')) = 100000"
proof -
  obtain s' where s': "aseba_read_variables_from_system ref_msgbus ref_params (\<lambda>_. Battery_msg fzero) 42 (ref_robot ref_topics) = Inr s'"
    using ref_read by blast
  from encoder_words_recompose[OF s' ref_robot_simps(1,2,3)] s' show ?thesis by auto
qed

lemma far_position_undefined_witness:
  "aseba_read_variables_from_system ref_msgbus ref_params (\<lambda>_. Battery_msg fzero) 42
     (ref_robot [(''/wheel_pos'', Wheel_pos_msg (FFin True 600) fzero)]) = Inl Undefined_behaviour"
proof (rule far_position_undefined)
  let ?s = "ref_robot [(''/wheel_pos'', Wheel_pos_msg (FFin True 600) fzero)]"
  show "mb_find ref_msgbus (sys_bus ?s) ''/wheel_pos'' = Some ''/wheel_pos''"
    "mb_read ref_msgbus (sys_bus ?s) ''/wheel_pos'' = Some (Wheel_pos_msg (FFin True 600) fzero)"
    by (simp_all add: ref_robot_def ref_msgbus_def)
qed simp


end
