(* ===== verification/Aseba_Node.thy ===== *)
theory Aseba_Node
  imports Aseba_Sync Config_Refinement
begin

section \<open>The Aseba node (\<open>src/aseba_vm/aseba_node.c\<close>, natives and events of \<open>skel_user.c\<close>)\<close>

text \<open>
  The thread that runs the virtual machine, the events other threads raise for it, the functions a
  script can call, and the bytecode kept in flash. The virtual machine is a library: its state is the
  opaque \<open>'v\<close>, its functions are the fields of \<open>aseba_lib\<close>. An outcome of a native function is one of
  returning, resetting the chip, not returning and undefined behaviour.
\<close>

subsection \<open>Events\<close>

datatype aseba_event = EVENT_RANGE | EVENT_PROXIMITY | EVENT_ENCODERS | EVENT_IMU | EVENT_TIMER
  | EVENT_SOUND_PLAY_FINISHED | EVENT_SOUND_ERROR

definition aseba_events :: "aseba_event list" where
  "aseba_events = [EVENT_RANGE, EVENT_PROXIMITY, EVENT_ENCODERS, EVENT_IMU, EVENT_TIMER,
     EVENT_SOUND_PLAY_FINISHED, EVENT_SOUND_ERROR]"

fun event_num :: "aseba_event \<Rightarrow> nat" where
  "event_num EVENT_RANGE = 0"
| "event_num EVENT_PROXIMITY = 1"
| "event_num EVENT_ENCODERS = 2"
| "event_num EVENT_IMU = 3"
| "event_num EVENT_TIMER = 4"
| "event_num EVENT_SOUND_PLAY_FINISHED = 5"
| "event_num EVENT_SOUND_ERROR = 6"

definition SET_EVENT :: "nat \<Rightarrow> u32 \<Rightarrow> u32" where
  "SET_EVENT event flags = flags OR push_bit event 1"

definition CLEAR_EVENT :: "nat \<Rightarrow> u32 \<Rightarrow> u32" where
  "CLEAR_EVENT event flags = flags AND NOT (push_bit event 1)"

text \<open>\<open>ffs\<close> of the standard library: one more than the index of the lowest set bit, zero for zero.\<close>

definition ffs :: "u32 \<Rightarrow> nat" where
  "ffs w = (if w = 0 then 0 else length (takeWhile (\<lambda>i. \<not> bit w i) [0..<32]) + 1)"

text \<open>One round of each event thread, after its topic was published, and the timer callback.\<close>

definition aseba_range_thd :: "u32 \<Rightarrow> u32" where
  "aseba_range_thd = SET_EVENT (event_num EVENT_RANGE)"

definition aseba_encoders_thd :: "u32 \<Rightarrow> u32" where
  "aseba_encoders_thd = SET_EVENT (event_num EVENT_ENCODERS)"

definition aseba_proximity_thd :: "u32 \<Rightarrow> u32" where
  "aseba_proximity_thd = SET_EVENT (event_num EVENT_PROXIMITY)"

definition aseba_imu_thd :: "u32 \<Rightarrow> u32" where
  "aseba_imu_thd = SET_EVENT (event_num EVENT_IMU)"

definition aseba_audio_thd :: "audio_play_status \<Rightarrow> u32 \<Rightarrow> u32" where
  "aseba_audio_thd status = (if status = AUDIO_OK then SET_EVENT (event_num EVENT_SOUND_PLAY_FINISHED)
     else SET_EVENT (event_num EVENT_SOUND_ERROR))"

definition aseba_timer_cb :: "u32 \<Rightarrow> u32" where
  "aseba_timer_cb = SET_EVENT (event_num EVENT_TIMER)"

text \<open>The names a client sees, by event number.\<close>

definition localEvents :: "string list" where
  "localEvents = [''range'', ''proximity'', ''encoders'', ''imu'', ''timer'', ''sound.finished'', ''sound.error'']"

subsection \<open>The thread\<close>

record ('v, 'b, 'p) aseba_lib =
  AsebaVMSetupEvent :: "u16 \<Rightarrow> 'v \<Rightarrow> 'v"
  AsebaVMRun :: "nat \<Rightarrow> 'v \<times> ('b, 'p) aseba_sys \<Rightarrow> 'v \<times> ('b, 'p) aseba_sys"
  AsebaProcessIncomingEvents :: "'v \<times> ('b, 'p) aseba_sys \<Rightarrow> 'v \<times> ('b, 'p) aseba_sys"
  vm_step_by_step :: "'v \<Rightarrow> bool"       \<comment> \<open>\<open>ASEBA_VM_STEP_BY_STEP_MASK\<close> is set in the flags\<close>
  vm_event_active :: "'v \<Rightarrow> bool"       \<comment> \<open>\<open>ASEBA_VM_EVENT_ACTIVE_MASK\<close> is set in the flags\<close>
  vm_nodeId :: "'v \<Rightarrow> u16"
  ASEBA_EVENT_LOCAL_EVENTS_START :: u16

record ('v, 'b, 'p) aseba_node =
  node_vm :: 'v
  node_sys :: "('b, 'p) aseba_sys"
  events_flags :: u32

text \<open>A round of the thread up to the choice of an event, and that choice; \<open>None\<close> when the machine is
  stepped by a client, busy with an event, or has nothing to do.\<close>

definition aseba_vm_sync ::
  "('t, 'b) msgbus \<Rightarrow> ('h, 'p) params \<Rightarrow> (string \<Rightarrow> message) \<Rightarrow> bool \<Rightarrow> bool \<Rightarrow> ('v, 'b, 'p) aseba_lib
    \<Rightarrow> 'v \<times> ('b, 'p) aseba_sys \<Rightarrow> fault + ('v \<times> ('b, 'p) aseba_sys)" where
  "aseba_vm_sync mb P junk inv_left inv_right L = (\<lambda>(v, s).
     fault_bind (aseba_read_variables_from_system mb P junk (vm_nodeId L v) s) (\<lambda>s.
     let (v, s) = AsebaProcessIncomingEvents L (AsebaVMRun L 1000 (v, s))
     in fault_bind (aseba_write_variables_to_system mb P inv_left inv_right s) (\<lambda>s. Inr (v, s))))"

definition next_event :: "('v, 'b, 'p) aseba_lib \<Rightarrow> 'v \<Rightarrow> u32 \<Rightarrow> nat option" where
  "next_event L v flags =
     (if vm_step_by_step L v then None
      else if vm_event_active L v then None
      else let event = int (ffs flags) - 1 in if event \<noteq> - 1 then Some (nat event) else None)"

definition run_local_event :: "('v, 'b, 'p) aseba_lib \<Rightarrow> nat \<Rightarrow> ('v, 'b, 'p) aseba_node \<Rightarrow> ('v, 'b, 'p) aseba_node" where
  "run_local_event L event n =
     n\<lparr>events_flags := CLEAR_EVENT event (events_flags n),
       node_sys := (node_sys n)\<lparr>vmVariables := set_var V_source 0 (vm_nodeId L (node_vm n)) (vmVariables (node_sys n))\<rparr>,
       node_vm := AsebaVMSetupEvent L (ASEBA_EVENT_LOCAL_EVENTS_START L - of_nat event) (node_vm n)\<rparr>"

definition aseba_vm_round ::
  "('t, 'b) msgbus \<Rightarrow> ('h, 'p) params \<Rightarrow> (string \<Rightarrow> message) \<Rightarrow> bool \<Rightarrow> bool \<Rightarrow> ('v, 'b, 'p) aseba_lib
    \<Rightarrow> ('v, 'b, 'p) aseba_node \<Rightarrow> fault + (nat option \<times> ('v, 'b, 'p) aseba_node)" where
  "aseba_vm_round mb P junk inv_left inv_right L n =
     fault_bind (aseba_vm_sync mb P junk inv_left inv_right L (node_vm n, node_sys n)) (\<lambda>(v, s).
       let n = n\<lparr>node_vm := v, node_sys := s\<rparr>
       in case next_event L v (events_flags n) of None \<Rightarrow> Inr (None, n)
          | Some e \<Rightarrow> Inr (Some e, run_local_event L e n))"

subsection \<open>Native functions\<close>

datatype 'a native_result = Returns 'a | System_reset | Never_returns | Undefined

record ('v, 'p) native_lib =
  AsebaNativePopArg :: "'v \<Rightarrow> u16 \<times> 'v"
  setting_get :: "'p \<Rightarrow> nat \<Rightarrow> u32"         \<comment> \<open>\<open>parameter_integer_get(&aseba_settings[i])\<close>\<close>
  setting_set :: "nat \<Rightarrow> u32 \<Rightarrow> 'p \<Rightarrow> 'p"

text \<open>The machine a native function works on; \<open>vm_errors\<close> are the messages of
  \<open>AsebaVMEmitNodeSpecificError\<close>.\<close>

record ('v, 'b, 'p, 'h) native_state =
  nat_vm :: 'v
  nat_vars :: "u16 list"
  nat_bus :: 'b
  nat_params :: 'p
  nat_flash :: 'h
  vm_errors :: "string list"

definition AsebaVMEmitNodeSpecificError :: "string \<Rightarrow> ('v, 'b, 'p, 'h) native_state \<Rightarrow> ('v, 'b, 'p, 'h) native_state" where
  "AsebaVMEmitNodeSpecificError msg s = s\<lparr>vm_errors := vm_errors s @ [msg]\<rparr>"

definition pop_arg :: "('v, 'p) native_lib \<Rightarrow> ('v, 'b, 'p, 'h) native_state \<Rightarrow> u16 \<times> ('v, 'b, 'p, 'h) native_state" where
  "pop_arg N s = (let (a, v) = AsebaNativePopArg N (nat_vm s) in (a, s\<lparr>nat_vm := v\<rparr>))"

definition AsebaNative__system_reboot :: "('v, 'b, 'p, 'h) native_state \<Rightarrow> ('v, 'b, 'p, 'h) native_state native_result" where
  "AsebaNative__system_reboot s = System_reset"

text \<open>An index outside the variables is an access outside the array.\<close>

definition AsebaNative__system_settings_read ::
  "('v, 'p) native_lib \<Rightarrow> ('v, 'b, 'p, 'h) native_state \<Rightarrow> ('v, 'b, 'p, 'h) native_state native_result" where
  "AsebaNative__system_settings_read N s =
     (let (i, s) = pop_arg N s in
      if length (nat_vars s) \<le> unat i then Undefined
      else let address = nat_vars s ! unat i; (destidx, s) = pop_arg N s
           in if unat address < SETTINGS_COUNT
              then if length (nat_vars s) \<le> unat destidx then Undefined
                   else Returns (s\<lparr>nat_vars := (nat_vars s)[unat destidx := ucast (setting_get N (nat_params s) (unat address))]\<rparr>)
              else Returns (AsebaVMEmitNodeSpecificError ''Invalid settings address.'' s))"

definition AsebaNative__system_settings_write ::
  "('v, 'p) native_lib \<Rightarrow> ('v, 'b, 'p, 'h) native_state \<Rightarrow> ('v, 'b, 'p, 'h) native_state native_result" where
  "AsebaNative__system_settings_write N s =
     (let (i, s) = pop_arg N s in
      if length (nat_vars s) \<le> unat i then Undefined
      else let address = nat_vars s ! unat i; (j, s) = pop_arg N s
           in if length (nat_vars s) \<le> unat j then Undefined
              else let value = nat_vars s ! unat j
                   in if unat address < SETTINGS_COUNT
                      then Returns (s\<lparr>nat_params := setting_set N (unat address) (ucast value) (nat_params s)\<rparr>)
                      else Returns (AsebaVMEmitNodeSpecificError ''Invalid settings address.'' s))"

text \<open>The bounds of the region are declared as \<open>uint32_t\<close>, so their difference counts words.\<close>

definition AsebaNative_settings_save ::
  "'h flash_api \<Rightarrow> crc_fun \<Rightarrow> ('p, 'h) serializer \<Rightarrow> ('p \<Rightarrow> u8 list \<Rightarrow> int \<times> 'p) \<Rightarrow> u32 \<Rightarrow> u32
    \<Rightarrow> ('v, 'b, 'p, 'h) native_state \<Rightarrow> ('v, 'b, 'p, 'h) native_state native_result" where
  "AsebaNative_settings_save api crc wcmp mread cfg_start cfg_end s =
     (let len = (cfg_end - cfg_start) div 4
      in case config_save api crc wcmp cfg_start len (nat_params s) (nat_flash s) of None \<Rightarrow> Never_returns
         | Some h \<Rightarrow> (case config_load crc mread (api_mem api h) (nat_params s) cfg_start of None \<Rightarrow> Never_returns
           | Some (success, p) \<Rightarrow>
               let s = s\<lparr>nat_flash := h, nat_params := p\<rparr>
               in Returns (if \<not> success then AsebaVMEmitNodeSpecificError ''Config save failed!'' s else s)))"

definition AsebaNative_settings_erase ::
  "'h flash_api \<Rightarrow> u32 \<Rightarrow> ('v, 'b, 'p, 'h) native_state \<Rightarrow> ('v, 'b, 'p, 'h) native_state native_result" where
  "AsebaNative_settings_erase api cfg_start s =
     (case config_erase api cfg_start (nat_flash s) of None \<Rightarrow> Never_returns
      | Some h \<Rightarrow> Returns (s\<lparr>nat_flash := h\<rparr>))"

text \<open>\<open>"%d"\<close> of a natural number.\<close>

fun decimal :: "nat \<Rightarrow> string" where
  "decimal n = (if n < 10 then [char_of (48 + n)] else decimal (n div 10) @ [char_of (48 + n mod 10)])"

declare decimal.simps [simp del]

text \<open>\<open>snprintf\<close> into \<open>sizeof(path) - 1 = 63\<close> bytes, the last of which is the terminator.\<close>

definition sound_path :: "u16 \<Rightarrow> string" where
  "sound_path sound_id = take 62 (''/p'' @ decimal (unat sound_id) @ ''.wav'')"

definition AsebaNative_sound_play ::
  "('t, 'b) msgbus \<Rightarrow> ('v, 'p) native_lib \<Rightarrow> ('v, 'b, 'p, 'h) native_state \<Rightarrow> ('v, 'b, 'p, 'h) native_state native_result" where
  "AsebaNative_sound_play mb N s =
     (let (i, s) = pop_arg N s in
      if length (nat_vars s) \<le> unat i then Undefined
      else let sound_id = nat_vars s ! unat i
           in case (mb_find mb (nat_bus s) ''/audio/play/request'', mb_find mb (nat_bus s) ''/audio/play/result'') of
                (Some req_topic, Some res_topic) \<Rightarrow>
                  Returns (s\<lparr>nat_bus := mb_publish mb req_topic
                    (Audio_play_request_msg (sound_path sound_id)) (nat_bus s)\<rparr>)
              | _ \<Rightarrow> Returns (AsebaVMEmitNodeSpecificError ''Cannot find topics. Is audio thread running?'' s))"

text \<open>The table of native functions; \<open>std\<close> are those of the library, which follow.\<close>

definition nativeFunctions ::
  "('t, 'b) msgbus \<Rightarrow> ('v, 'p) native_lib \<Rightarrow> 'h flash_api \<Rightarrow> crc_fun \<Rightarrow> ('p, 'h) serializer
    \<Rightarrow> ('p \<Rightarrow> u8 list \<Rightarrow> int \<times> 'p) \<Rightarrow> u32 \<Rightarrow> u32
    \<Rightarrow> (('v, 'b, 'p, 'h) native_state \<Rightarrow> ('v, 'b, 'p, 'h) native_state native_result) list
    \<Rightarrow> (('v, 'b, 'p, 'h) native_state \<Rightarrow> ('v, 'b, 'p, 'h) native_state native_result) list" where
  "nativeFunctions mb N api crc wcmp mread cfg_start cfg_end std =
     [AsebaNative__system_reboot, AsebaNative__system_settings_read N, AsebaNative__system_settings_write N,
      AsebaNative_settings_save api crc wcmp mread cfg_start cfg_end,
      AsebaNative_settings_erase api cfg_start, AsebaNative_sound_play mb N] @ std"

definition AsebaNativeFunction ::
  "(('v, 'b, 'p, 'h) native_state \<Rightarrow> ('v, 'b, 'p, 'h) native_state native_result) list \<Rightarrow> u16
    \<Rightarrow> ('v, 'b, 'p, 'h) native_state \<Rightarrow> ('v, 'b, 'p, 'h) native_state native_result" where
  "AsebaNativeFunction table fid s =
     (if unat fid < length table then (table ! unat fid) s
      else Returns (AsebaVMEmitNodeSpecificError ''Invalid native function.'' s))"

subsection \<open>The bytecode in flash\<close>

definition VM_BYTECODE_SIZE :: nat where "VM_BYTECODE_SIZE = 766 + 768"

text \<open>The bytecode is an array of 16-bit words; both functions copy it as bytes, little-endian. The
  number of bytes is \<open>bytecodeSize\<close>, which counts words. A copy past the end of the array is
  undefined.\<close>

definition word_bytes :: "u16 list \<Rightarrow> u8 list" where
  "word_bytes ws = concat (map le_bytes16 ws)"

definition AsebaWriteBytecode :: "'h flash_api \<Rightarrow> u32 \<Rightarrow> u16 \<Rightarrow> u8 list \<Rightarrow> 'h \<Rightarrow> 'h option" where
  "AsebaWriteBytecode api start bytecodeSize bytecode h =
     Option.bind (api_erase api start (api_unlock api h)) (\<lambda>h.
     Option.bind (api_write api start (le_bytes16 bytecodeSize) h) (\<lambda>h.
     Option.bind (api_write api (start + 2) (take (unat bytecodeSize) bytecode) h) (\<lambda>h.
     Some (api_lock api h))))"

definition aseba_vm_init :: "memory \<Rightarrow> u32 \<Rightarrow> u8 list \<Rightarrow> u8 list option" where
  "aseba_vm_init m start bytecode =
     (let bytecode_size = le_word16 (mem_bytes m start 2)
      in if bytecode_size \<noteq> 0xFFFF
         then if length bytecode < unat bytecode_size then None
              else Some (mem_bytes m (start + 2) (unat bytecode_size) @ drop (unat bytecode_size) bytecode)
         else Some bytecode)"

subsection \<open>Events are neither lost nor invented\<close>

lemma ffs_lowest:
  assumes "w \<noteq> 0"
  shows "ffs w - 1 < 32 \<and> bit w (ffs w - 1) \<and> (\<forall>i < ffs w - 1. \<not> bit w i)" and "0 < ffs w"
proof -
  let ?t = "takeWhile (\<lambda>i. \<not> bit w i) [0..<32]"
  obtain k where k: "bit w k" using assms by (auto simp: bit_eq_iff)
  have k32: "k < 32" using bit_imp_le_length[OF k] by simp
  have l: "length ?t < 32"
  proof (rule ccontr)
    assume "\<not> length ?t < 32"
    then have "takeWhile (\<lambda>i. \<not> bit w i) [0..<32] = [0..<32]"
      using length_takeWhile_le[of "\<lambda>i. \<not> bit w i" "[0..<32]"] takeWhile_eq_take[of "\<lambda>i. \<not> bit w i" "[0..<32]"] by simp
    then have "\<forall>i \<in> set [0..<32]. \<not> bit w i" by (simp only: takeWhile_eq_all_conv)
    then show False using k k32 by auto
  qed
  have b: "bit w (length ?t)"
    using nth_length_takeWhile[of "\<lambda>i. \<not> bit w i" "[0..<32]"] l by (simp del: upt_rec_numeral)
  have n: "\<not> bit w i" if "i < length ?t" for i
  proof -
    have "?t ! i \<in> set ?t" using that by simp
    moreover have "?t ! i = i" using that l by (simp add: takeWhile_nth del: upt_rec_numeral)
    ultimately show ?thesis by (metis set_takeWhileD)
  qed
  show "ffs w - 1 < 32 \<and> bit w (ffs w - 1) \<and> (\<forall>i < ffs w - 1. \<not> bit w i)" "0 < ffs w"
    using assms l b n by (simp_all add: ffs_def del: upt_rec_numeral)
qed

lemma bit_SET_EVENT: "e < 32 \<Longrightarrow> bit (SET_EVENT e w) k \<longleftrightarrow> bit w k \<or> k = e"
  by (auto simp: SET_EVENT_def bit_simps)

lemma bit_CLEAR_EVENT: "e < 32 \<Longrightarrow> k < 32 \<Longrightarrow> bit (CLEAR_EVENT e w) k \<longleftrightarrow> bit w k \<and> k \<noteq> e"
  by (auto simp: CLEAR_EVENT_def bit_simps)

datatype event_action = Raised nat | Dispatched nat

text \<open>The life of the node: threads raise events, the thread of the machine runs rounds.\<close>

inductive event_run ::
  "(('v, 'b, 'p) aseba_node \<Rightarrow> fault + (nat option \<times> ('v, 'b, 'p) aseba_node)) \<Rightarrow> ('v, 'b, 'p) aseba_node
    \<Rightarrow> event_action list \<Rightarrow> ('v, 'b, 'p) aseba_node \<Rightarrow> bool" for round n where
  run_start: "event_run round n [] n"
| run_raise: "event_run round n tr m \<Longrightarrow>
    event_run round n (tr @ [Raised (event_num e)]) (m\<lparr>events_flags := SET_EVENT (event_num e) (events_flags m)\<rparr>)"
| run_idle: "event_run round n tr m \<Longrightarrow> round m = Inr (None, m') \<Longrightarrow> event_run round n tr m'"
| run_event: "event_run round n tr m \<Longrightarrow> round m = Inr (Some e, m') \<Longrightarrow> event_run round n (tr @ [Dispatched e]) m'"

text \<open>An event is pending when it was raised after its last dispatch.\<close>

definition pending :: "event_action list \<Rightarrow> nat \<Rightarrow> bool" where
  "pending tr e = fold (\<lambda>a b. case a of Raised x \<Rightarrow> b \<or> x = e | Dispatched x \<Rightarrow> b \<and> x \<noteq> e) tr False"

lemma pending_simps [simp]:
  "\<not> pending [] e" "pending (tr @ [Raised x]) e \<longleftrightarrow> pending tr e \<or> x = e"
  "pending (tr @ [Dispatched x]) e \<longleftrightarrow> pending tr e \<and> x \<noteq> e"
  by (simp_all add: pending_def)

lemma event_num_less: "event_num e < 32"
  by (cases e) simp_all

lemma next_event_Some:
  assumes "next_event L v w = Some e"
  shows "e < 32 \<and> bit w e \<and> (\<forall>i < e. \<not> bit w i) \<and> \<not> vm_step_by_step L v \<and> \<not> vm_event_active L v"
proof -
  have "w \<noteq> 0" "e = ffs w - 1" "\<not> vm_step_by_step L v" "\<not> vm_event_active L v"
    using assms by (auto simp: next_event_def Let_def ffs_def nat_diff_distrib' split: if_splits)
  then show ?thesis using ffs_lowest by blast
qed

lemma next_event_None:
  assumes "next_event L v w = None" "\<not> vm_step_by_step L v" "\<not> vm_event_active L v"
  shows "w = 0"
  using assms ffs_lowest(2)[of w] by (auto simp: next_event_def Let_def split: if_splits)

lemma round_flags:
  assumes "aseba_vm_round mb P junk il ir L n = Inr (r, n')"
  shows "case r of None \<Rightarrow> events_flags n' = events_flags n
    | Some e \<Rightarrow> next_event L (fst (projr (aseba_vm_sync mb P junk il ir L (node_vm n, node_sys n)))) (events_flags n) = Some e
        \<and> events_flags n' = CLEAR_EVENT e (events_flags n)"
proof -
  obtain v s where vs: "aseba_vm_sync mb P junk il ir L (node_vm n, node_sys n) = Inr (v, s)"
    using assms by (auto simp: aseba_vm_round_def fault_bind_Inr)
  show ?thesis
    using assms by (auto simp: aseba_vm_round_def vs run_local_event_def Let_def split: option.splits)
qed


definition ref_aseba_lib :: "(bool, ref_bus_state, string list \<times> (string \<times> fp) list) aseba_lib" where
  "ref_aseba_lib = \<lparr>AsebaVMSetupEvent = (\<lambda>_ _. True), AsebaVMRun = (\<lambda>_ x. x), AsebaProcessIncomingEvents = (\<lambda>x. x),
     vm_step_by_step = (\<lambda>_. False), vm_event_active = (\<lambda>v. v), vm_nodeId = (\<lambda>_. 42),
     ASEBA_EVENT_LOCAL_EVENTS_START = 0xFFFE\<rparr>"

definition ref_node :: "u32 \<Rightarrow> (bool, ref_bus_state, string list \<times> (string \<times> fp) list) aseba_node" where
  "ref_node flags = \<lparr>node_vm = False, node_sys = ref_robot ref_topics, events_flags = flags\<rparr>"

abbreviation ref_round where
  "ref_round \<equiv> aseba_vm_round ref_msgbus ref_params (\<lambda>_. Battery_msg fzero) False False ref_aseba_lib"

lemma ref_round_dispatch: "\<exists>m. ref_round (ref_node 8) = Inr (Some 3, m)"
proof -
  have "(case ref_round (ref_node 8) of Inr (Some e, m) \<Rightarrow> e = 3 | _ \<Rightarrow> False)" by code_simp
  then show ?thesis by (auto split: sum.splits prod.splits option.splits)
qed


end
