(* ===== verification/Aseba_Natives.thy ===== *)
theory Aseba_Natives
  imports Aseba_Node
begin

section \<open>Properties of the native functions and of the bytecode in flash\<close>

text \<open>
  Settings written by a script read back and bad addresses are refused (\<open>settings_roundtrip\<close>); saving the
  settings gives \<open>config_save\<close> a quarter of the region (\<open>settings_save_quarter\<close>); a sound is requested
  under its own path (\<open>sound_play_request\<close>); the bytecode that survives a reset is the first half
  (\<open>bytecode_half_restored\<close>). The settings are integer parameters, with the laws of \<open>setting_store\<close>.
\<close>

locale setting_store =
  fixes N :: "('v, 'p) native_lib"
  assumes get_set: "setting_get N (setting_set N i x p) j = (if i = j then x else setting_get N p j)"
begin

lemma set_frame: "j \<noteq> i \<Longrightarrow> setting_get N (setting_set N i x p) j = setting_get N p j"
  by (simp add: get_set)

end

text \<open>A reference: the arguments are a list, the settings a function.\<close>

definition ref_natives :: "(u16 list, nat \<Rightarrow> u32) native_lib" where
  "ref_natives = \<lparr>AsebaNativePopArg = (\<lambda>v. (hd v, tl v)), setting_get = (\<lambda>p i. p i), setting_set = (\<lambda>i x p. p(i := x))\<rparr>"

interpretation ref_natives: setting_store ref_natives
  by unfold_locales (simp add: ref_natives_def)

text \<open>\<open>args N v [i, j] v'\<close>: the arguments the next two pops give.\<close>

fun pops :: "('v, 'p) native_lib \<Rightarrow> 'v \<Rightarrow> u16 list \<Rightarrow> 'v \<Rightarrow> bool" where
  "pops N v [] v' \<longleftrightarrow> v = v'"
| "pops N v (i # is) v' \<longleftrightarrow> fst (AsebaNativePopArg N v) = i \<and> pops N (snd (AsebaNativePopArg N v)) is v'"

lemma pops_two: "pops N (nat_vm s) [i, j] v \<Longrightarrow>
    pop_arg N s = (i, s\<lparr>nat_vm := snd (AsebaNativePopArg N (nat_vm s))\<rparr>)
    \<and> pop_arg N (s\<lparr>nat_vm := snd (AsebaNativePopArg N (nat_vm s))\<rparr>) = (j, s\<lparr>nat_vm := v\<rparr>)"
  by (auto simp: pop_arg_def split: prod.splits)

lemma ucast_ucast16: "ucast (ucast (x :: u16) :: u32) = x"
  by (rule bit_word_eqI) (auto simp: bit_simps)

text \<open>A setting written by a script at an address below 32 reads back as the same 16-bit value, at the
  variable the script names, and no other setting changes; both functions refuse another address with
  an error and change neither the settings nor the variables. All of it inside the variables.\<close>
lemma settings_roundtrip:
  assumes "setting_store N" and "pops N (nat_vm s) [i, j] v1" and "pops N v1 [i, k] v2"
    and "unat i < length (nat_vars s)" "unat j < length (nat_vars s)" "unat k < length (nat_vars s)"
    and "a = unat (nat_vars s ! unat i)"
  shows "if a < 32
    then \<exists>s1. AsebaNative__system_settings_write N s = Returns s1
      \<and> AsebaNative__system_settings_read N s1 = Returns (s1\<lparr>nat_vm := v2, nat_vars := (nat_vars s)[unat k := nat_vars s ! unat j]\<rparr>)
      \<and> (\<forall>b. b \<noteq> a \<longrightarrow> setting_get N (nat_params s1) b = setting_get N (nat_params s) b)
      \<and> vm_errors s1 = vm_errors s
    else AsebaNative__system_settings_write N s =
        Returns (s\<lparr>nat_vm := v1, vm_errors := vm_errors s @ [''Invalid settings address.'']\<rparr>)
      \<and> AsebaNative__system_settings_read N s =
        Returns (s\<lparr>nat_vm := v1, vm_errors := vm_errors s @ [''Invalid settings address.'']\<rparr>)"
proof (cases "a < 32")
  case True
  note p1 = pops_two[OF assms(2)]
  define s1 where "s1 = s\<lparr>nat_vm := v1, nat_params := setting_set N a (ucast (nat_vars s ! unat j)) (nat_params s)\<rparr>"
  have w: "AsebaNative__system_settings_write N s = Returns s1"
    using p1 assms(4,5,7) True
    by (simp add: AsebaNative__system_settings_write_def SETTINGS_COUNT_def Let_def s1_def not_le)
  have v1: "nat_vm s1 = v1" "nat_vars s1 = nat_vars s" by (simp_all add: s1_def)
  note p2 = pops_two[of N s1 i k v2, unfolded v1, OF assms(3)]
  have g: "setting_get N (nat_params s1) a = ucast (nat_vars s ! unat j)"
    by (simp add: s1_def setting_store.get_set[OF assms(1)])
  have "AsebaNative__system_settings_read N s1 = Returns (s1\<lparr>nat_vm := v2, nat_vars := (nat_vars s)[unat k := nat_vars s ! unat j]\<rparr>)"
    using p2 assms(4,6,7) True g
    by (simp add: AsebaNative__system_settings_read_def SETTINGS_COUNT_def Let_def not_le v1 ucast_ucast16)
  moreover have "\<forall>b. b \<noteq> a \<longrightarrow> setting_get N (nat_params s1) b = setting_get N (nat_params s) b"
    by (simp add: s1_def setting_store.get_set[OF assms(1)])
  ultimately show ?thesis using True w by (auto simp: s1_def)
next
  case False
  then show ?thesis
    using pops_two[OF assms(2)] assms(4,5,7)
    by (simp add: AsebaNative__system_settings_write_def AsebaNative__system_settings_read_def SETTINGS_COUNT_def
        Let_def not_le AsebaVMEmitNodeSpecificError_def)
qed

definition ref_script :: "u16 list \<Rightarrow> u16 list \<Rightarrow> (u16 list, unit, nat \<Rightarrow> u32, unit) native_state" where
  "ref_script arguments vars = \<lparr>nat_vm = arguments, nat_vars = vars, nat_bus = (), nat_params = (\<lambda>_. 0), nat_flash = (), vm_errors = []\<rparr>"

lemma settings_roundtrip_witness:
  "\<exists>s1. AsebaNative__system_settings_write ref_natives (ref_script [0, 1, 0, 2] [5, 65535, 0]) = Returns s1
    \<and> AsebaNative__system_settings_read ref_natives s1 = Returns (s1\<lparr>nat_vm := [], nat_vars := [5, 65535, 65535]\<rparr>)"
proof -
  let ?s = "ref_script [0, 1, 0, 2] [5, 65535, 0]"
  have "pops ref_natives (nat_vm ?s) [0, 1] [0, 2]" "pops ref_natives [0, 2] [0, 2] []"
    by (simp_all add: ref_natives_def ref_script_def)
  from settings_roundtrip[OF ref_natives.setting_store_axioms this _ _ _ refl]
  show ?thesis by (simp add: ref_script_def) blast
qed

text \<open>C18. \<open>_system.settings.flash\<close> declares the bounds of the configuration region as 32-bit words, so of a
  region of \<open>4 * cap\<close> bytes it offers \<open>config_save\<close> only \<open>cap\<close>: a tree that fits \<open>cap\<close> is saved, and the
  script gets an error exactly when the parser refuses the tree read back; a tree that does not fit
  \<open>cap\<close> makes the call never return, although the region may have room for it.\<close>
theorem settings_save_quarter:
  assumes "config_setting bus cr keyed busy mem crc wcmp chunks s base cap"
    and "ctl_idle cr busy (nat_flash st)" and "config_start crc base cap (mem (nat_flash st)) ds"
    and "region_end = base + 4 * of_nat cap"
  shows "(used (save_spec cap ds (concat (chunks (nat_params st)))) + 8 \<le> cap \<and> 12 + length (concat (chunks (nat_params st))) \<le> cap \<longrightarrow>
      (\<exists>h p. AsebaNative_settings_save (flash_c bus mem) crc wcmp mread base region_end st =
          Returns (st\<lparr>nat_flash := h, nat_params := p, vm_errors := vm_errors st @
            (if fst (mread (nat_params st) (concat (chunks (nat_params st)))) = 0 then [] else [''Config save failed!''])\<rparr>)
        \<and> ctl_idle cr busy h \<and> p = snd (mread (nat_params st) (concat (chunks (nat_params st))))))
    \<and> (cap < 12 + length (concat (chunks (nat_params st))) \<longrightarrow>
        AsebaNative_settings_save (flash_c bus mem) crc wcmp mread base region_end st = Never_returns)"
proof -
  have cap: "cap \<le> 0x20000" using assms(1) by (simp add: config_setting_def)
  have "(region_end - base) div 4 = of_nat cap"
  proof -
    have "unat (4 * of_nat cap :: u32) = 4 * cap"
      using cap by (simp add: unat_word_ariths of_nat_inverse)
    moreover have "unat (of_nat cap :: u32) = cap" using cap by (simp add: of_nat_inverse)
    ultimately have "unat ((4 * of_nat cap) div 4 :: u32) = unat (of_nat cap :: u32)"
      by (simp only: unat_div) simp
    then show ?thesis by (simp add: assms(4) word_unat_eq_iff)
  qed
  note st = config_setting_store[OF assms(1)]
  have mem: "api_mem (flash_c bus mem) = mem" by (simp add: flash_c_def)
  show ?thesis
    using config_store.save_load[OF st, of "nat_flash st" ds "nat_params st" mread "nat_params st"]
      config_store.save_diverges[OF st, of "nat_flash st" ds "nat_params st"] assms(2,3)
      \<open>(region_end - base) div 4 = of_nat cap\<close>
    by (fastforce simp: AsebaNative_settings_save_def mem AsebaVMEmitNodeSpecificError_def)
qed


lemma settings_save_quarter_witness:
  "AsebaNative_settings_save (flash_c ref_bus rf_mem) sum_crc byte_serializer (\<lambda>_ d. (0, d)) config_base
      (config_base + 4 * of_nat 0x8000)
      \<lparr>nat_vm = (), nat_vars = [], nat_bus = (), nat_params = replicate 0x8000 0, nat_flash = ref_init, vm_errors = []\<rparr> = Never_returns"
proof -
  let ?st = "\<lparr>nat_vm = (), nat_vars = [], nat_bus = (), nat_params = replicate 0x8000 0, nat_flash = ref_init, vm_errors = []\<rparr>"
  have c: "config_setting ref_bus ref_cr rf_keyed rf_busy rf_mem sum_crc byte_serializer byte_chunks 11 config_base 0x8000"
    using ref_config_setting by (simp add: config_setting_def)
  have i: "ctl_idle ref_cr rf_busy (nat_flash ?st)" using ref_init_idle by simp
  have b: "config_start sum_crc config_base 0x8000 (rf_mem (nat_flash ?st)) []" using ref_init_start by simp
  have l: "0x8000 < 12 + length (concat (byte_chunks (nat_params ?st)))" by simp
  from settings_save_quarter[OF c i b refl] l show ?thesis by blast
qed

subsection \<open>Sounds\<close>

fun undecimal :: "string \<Rightarrow> nat" where
  "undecimal ds = foldl (\<lambda>n c. 10 * n + (of_char c - 48)) 0 ds"

lemma undecimal_decimal: "undecimal (decimal n) = n"
proof (induction n rule: decimal.induct)
  case (1 n)
  have d: "of_char (char_of (48 + k) :: char) - 48 = k" if "k < 10" for k :: nat
    using that by simp
  show ?case using 1 by (subst decimal.simps) (simp add: d)
qed

lemma decimal_inject: "decimal m = decimal n \<longleftrightarrow> m = n"
  by (metis undecimal_decimal)

lemma length_decimal: "n < 10 ^ k \<Longrightarrow> 0 < k \<Longrightarrow> length (decimal n) \<le> k"
proof (induction n arbitrary: k rule: decimal.induct)
  case (1 n)
  show ?case
  proof (cases "n < 10")
    case False
    then obtain j where k: "k = Suc j" "0 < j" using "1.prems" by (cases k; cases "k - 1") auto
    then have "n div 10 < 10 ^ j" using "1.prems" by (simp add: div_less_iff_less_mult mult.commute)
    then show ?thesis using "1.IH"[OF False _ k(2)] False k by (subst decimal.simps) simp
  qed (use "1.prems" in \<open>subst decimal.simps, simp\<close>)
qed

lemma sound_path_whole: "sound_path i = ''/p'' @ decimal (unat i) @ ''.wav''"
proof -
  have "unat i < 2 ^ LENGTH(16)" by (rule unsigned_less)
  then have "unat i < 10 ^ 5" by simp
  then show ?thesis using length_decimal[of "unat i" 5] by (simp add: sound_path_def)
qed

text \<open>With the audio thread on the bus, playing a sound returns, publishes the path \<open>/pN.wav\<close> of its number,
  whole and different for every number, and changes nothing else; without it, the script gets an error
  and nothing is published.\<close>
lemma sound_play_request:
  assumes "message_bus mb" and "AsebaNativePopArg N (nat_vm s) = (i, v)" and "unat i < length (nat_vars s)"
  shows "(mb_find mb (nat_bus s) ''/audio/play/request'' = Some t \<and> mb_find mb (nat_bus s) ''/audio/play/result'' \<noteq> None \<longrightarrow>
      (\<exists>b. AsebaNative_sound_play mb N s = Returns (s\<lparr>nat_vm := v, nat_bus := b\<rparr>)
        \<and> mb_read mb b t = Some (Audio_play_request_msg (sound_path (nat_vars s ! unat i)))
        \<and> (\<forall>u. u \<noteq> t \<longrightarrow> mb_read mb b u = mb_read mb (nat_bus s) u)))
    \<and> (mb_find mb (nat_bus s) ''/audio/play/request'' = None \<or> mb_find mb (nat_bus s) ''/audio/play/result'' = None \<longrightarrow>
      AsebaNative_sound_play mb N s = Returns (s\<lparr>nat_vm := v, vm_errors := vm_errors s @ [''Cannot find topics. Is audio thread running?'']\<rparr>))
    \<and> inj sound_path"
proof -
  have "inj sound_path"
    by (auto simp: inj_def sound_path_whole decimal_inject word_unat_eq_iff)
  then show ?thesis
    using assms(2,3) message_bus.read_publish_if[OF assms(1)]
    by (auto simp: AsebaNative_sound_play_def pop_arg_def Let_def not_le AsebaVMEmitNodeSpecificError_def split: option.splits)
qed

lemma sound_play_request_witness:
  "\<exists>b. AsebaNative_sound_play ref_msgbus ref_natives
      \<lparr>nat_vm = [0], nat_vars = [17], nat_bus = \<lparr>rb_topics = [''/audio/play/request'', ''/audio/play/result''], rb_values = []\<rparr>,
        nat_params = (\<lambda>_. 0), nat_flash = (), vm_errors = []\<rparr> =
      Returns \<lparr>nat_vm = [], nat_vars = [17], nat_bus = b, nat_params = (\<lambda>_. 0), nat_flash = (), vm_errors = []\<rparr>
    \<and> mb_read ref_msgbus b ''/audio/play/request'' = Some (Audio_play_request_msg (sound_path 17))"
proof -
  let ?s = "\<lparr>nat_vm = [0 :: u16], nat_vars = [17], nat_bus = \<lparr>rb_topics = [''/audio/play/request'', ''/audio/play/result''], rb_values = []\<rparr>,
        nat_params = (\<lambda>_ :: nat. 0 :: u32), nat_flash = (), vm_errors = []\<rparr>"
  have p: "AsebaNativePopArg ref_natives (nat_vm ?s) = (0, [])" by (simp add: ref_natives_def)
  have f: "mb_find ref_msgbus (nat_bus ?s) ''/audio/play/request'' = Some ''/audio/play/request''"
    "mb_find ref_msgbus (nat_bus ?s) ''/audio/play/result'' \<noteq> None" by (simp_all add: ref_msgbus_def)
  have l: "unat (0 :: u16) < length (nat_vars ?s)" by simp
  from sound_play_request[OF ref_mb.message_bus_axioms p l] f show ?thesis by fastforce
qed

subsection \<open>Bytecode\<close>

text \<open>C17. On every controller that behaves as documented, storing the bytecode and starting again restores, of
  the \<open>2 * n\<close> bytes of an array of \<open>n\<close> words, the first \<open>n\<close>: the copies count bytes where the size counts
  words. The rest of the array keeps what the new start finds in it.\<close>
theorem bytecode_half_restored:
  assumes "flash_controller bus cr keyed busy mem" and "ctl_idle cr busy h"
    and "\<forall>k < n + 2. in_sector s (start + of_nat k)"
    and "length code = 2 * n" and "length ram = 2 * n" and "n < 0xFFFF"
  shows "\<exists>h'. AsebaWriteBytecode (flash_c bus mem) start (of_nat n) code h = Some h' \<and> ctl_idle cr busy h'
    \<and> aseba_vm_init (mem h') start ram = Some (take n code @ drop n ram)"
proof -
  have st: "flash_store (flash_c bus mem) (ctl_idle cr busy) (ctl_ready cr busy)"
    by (rule flash_controller.flash_store_flash_c[OF assms(1)])
  have api: "api_mem (flash_c bus mem) = mem" by (simp add: flash_c_def)
  have start: "in_sector s start" using assms(3) by (auto dest: spec[of _ 0])
  have n: "unat (of_nat n :: u16) = n" using assms(6) by (simp add: of_nat_inverse)
  obtain h1 where h1: "api_erase (flash_c bus mem) start (api_unlock (flash_c bus mem) h) = Some h1" "ctl_ready cr busy h1"
      "mem h1 = erase_mem s (mem h)"
    using flash_store.erase_sector[OF st _ start] flash_store.unlock_ready[OF st assms(2)] unfolding api by metis
  obtain h2 where h2: "api_write (flash_c bus mem) start (le_bytes16 (of_nat n)) h1 = Some h2" "ctl_ready cr busy h2"
      "mem h2 = program (mem h1) start (le_bytes16 (of_nat n))"
    using flash_store.write_program[OF st h1(2), of "le_bytes16 (of_nat n)" start] assms(3) in_sector_in_flash unfolding api
    by (metis length_le_bytes16 trans_less_add2)
  have "in_flash (start + 2 + of_nat i)" if "i < length (take n code)" for i
  proof -
    have "in_sector s (start + of_nat (i + 2))" using that assms(3)[rule_format, of "i + 2"] by simp
    moreover have "start + 2 + of_nat i = start + of_nat (i + 2)" by simp
    ultimately show ?thesis using in_sector_in_flash by metis
  qed
  then obtain h3 where h3: "api_write (flash_c bus mem) (start + 2) (take n code) h2 = Some h3" "ctl_ready cr busy h3"
      "mem h3 = program (mem h2) (start + 2) (take n code)"
    using flash_store.write_program[OF st h2(2), of "take n code" "start + 2"] unfolding api by blast
  note lock = flash_store.lock_idle[OF st h3(2), unfolded api]
  have v: "mview (mem h3) start k = (if k < 2 then le_bytes16 (of_nat n) ! k else take n code ! (k - 2))" if "k < n + 2" for k
  proof -
    have e: "mview (mem h1) start k = 0xFF" using that assms(3) by (simp add: h1(3) mview_def erase_mem_def)
    have k: "k < 2 ^ 32" using that assms(6) by simp
    have "mview (mem h2) start k = (if k < 2 then le_bytes16 (of_nat n) ! k else 0xFF)"
      using mview_program[of k 0 "le_bytes16 (of_nat n)" "mem h1" start] e k by (simp add: h2(3))
    then show ?thesis
      using mview_program[of k 2 "take n code" "mem h2" start] k that assms(4,6) by (auto simp: h3(3))
  qed
  have size: "mem_bytes (mem h3) start 2 = le_bytes16 (of_nat n)"
    unfolding mem_bytes_mview0 by (rule nth_equalityI) (auto simp: v)
  have "mem_bytes (mem h3) (start + 2) n = take n code"
  proof (rule nth_equalityI)
    fix i assume "i < length (mem_bytes (mem h3) (start + 2) n)"
    then have i: "i < n" by simp
    have "mem_bytes (mem h3) (start + 2) n ! i = mview (mem h3) start (2 + i)" using i by (simp add: mview_def add.assoc)
    then show "mem_bytes (mem h3) (start + 2) n ! i = take n code ! i" using v[of "2 + i"] i by simp
  qed (use assms(4) in simp)
  moreover have "of_nat n \<noteq> (0xFFFF :: u16)"
  proof
    assume "of_nat n = (0xFFFF :: u16)"
    then have "unat (of_nat n :: u16) = unat (0xFFFF :: u16)" by simp
    then show False using n assms(6) by simp
  qed
  ultimately have "aseba_vm_init (mem h3) start ram = Some (take n code @ drop n ram)"
    using size n assms(5) by (simp add: aseba_vm_init_def)
  then show ?thesis
    using h1(1) h2(1) h3(1) lock n by (auto simp: AsebaWriteBytecode_def)
qed

lemma bytecode_half_restored_witness:
  "\<exists>h'. AsebaWriteBytecode (flash_c ref_bus rf_mem) 0x080C0000 (of_nat 2) [1, 2, 3, 4] ref_init = Some h'
    \<and> aseba_vm_init (rf_mem h') 0x080C0000 [0, 0, 0, 0] = Some [1, 2, 0, 0]"
proof -
  have "\<forall>k < 2 + 2. in_sector 10 (0x080C0000 + of_nat k)"
  proof (intro allI impI)
    fix k :: nat assume "k < 2 + 2"
    then show "in_sector 10 (0x080C0000 + of_nat k)"
      using unat_addr_offset[of "0x080C0000" k] by (simp add: in_sector_def sector_base_def sector_size_def)
  qed
  from bytecode_half_restored[OF ref.flash_controller_axioms ref_init_idle this, of "[1, 2, 3, 4]" "[0, 0, 0, 0]"]
  show ?thesis by fastforce
qed

end
