(* ===== verification/Adc_Sensors.thy ===== *)
theory Adc_Sensors
  imports Msgbus
begin

section \<open>The sensors behind the analog converters (\<open>proximity.c\<close>, \<open>motor_current.c\<close>, \<open>battery_level.c\<close>)\<close>

text \<open>
  Three converters are shared by three services. A service starts a circular conversion of a group of
  channels; the converter calls the group's end callback with \<open>n\<close> rows of samples, one sample per
  channel in each row. The callback reduces the rows to one value per channel and signals the thread,
  which publishes a message.
  \<^item> \<open>adc_group\<close> is an \<open>ADCConversionGroup\<close>: what the register macros of the operating system encode is
    kept as the list of converted channels, their sampling times, and the trigger. A channel without a
    sampling time in its \<open>smpr\<close> registers has the reset value, 3 cycles (\<open>sample_cycles\<close>).
  \<^item> \<open>prox_state\<close> holds the static variables of \<open>proximity.c\<close>, the running conversions of the converters
    and the compare value that places the measurement in the waveform of the LEDs. \<open>adc_irq\<close> is one
    interrupt; a converter whose conversion was stopped raises none. \<open>prox_wait\<close> waits for a semaphore
    while interrupts arrive in any order; \<open>None\<close> is a wait that never ends, a halt or a division by zero.
  \<^item> \<open>battery_protection.c\<close> reads the published voltage. \<open>battery_protection_thresholds\<close> states for which
    converter values it toggles the warning LED and shuts the robot down.
\<close>

type_synonym adcsample = u16

datatype adc = ADCD1 | ADCD2 | ADCD3

datatype adc_trigger = Software_start | External_trigger nat

datatype adc_callback = Prox_adc_cb | Motor_adc_cb | Battery_adc_cb

record adc_group =
  group_circular :: bool
  num_channels :: nat
  group_end_cb :: adc_callback
  per_trigger :: "nat option"
  group_trigger :: adc_trigger
  group_smpr :: "(nat \<times> nat) list"
  group_sequence :: "nat list"

definition sample_cycles :: "adc_group \<Rightarrow> nat \<Rightarrow> nat" where
  "sample_cycles g ch = (case map_of (group_smpr g) ch of None \<Rightarrow> 3 | Some c \<Rightarrow> c)"

subsection \<open>Averaging\<close>

text \<open>The accumulation loops, over \<open>unsigned int\<close> (\<open>acc_row\<close> is the inner loop of \<open>adc_cb\<close> in
  \<open>proximity.c\<close>).\<close>

definition acc_row :: "nat \<Rightarrow> adcsample list \<Rightarrow> nat \<Rightarrow> u32 list \<Rightarrow> u32 list" where
  "acc_row nc samples j values =
     fold (\<lambda>i vs. vs[i := vs ! i + ucast (samples ! (nc * j + i))]) [0..<nc] values"

definition acc_rows :: "nat \<Rightarrow> adcsample list \<Rightarrow> nat \<Rightarrow> u32 list \<Rightarrow> u32 list" where
  "acc_rows nc samples n values = fold (acc_row nc samples) [0..<n] values"

subsection \<open>Proximity sensors\<close>

definition PROXIMITY_NB_CHANNELS :: nat where "PROXIMITY_NB_CHANNELS = 13"
definition ADC2_NB_CHANNELS :: nat where "ADC2_NB_CHANNELS = 1"
definition PROX_DMA_BUFFER_SIZE :: nat where "PROX_DMA_BUFFER_SIZE = 4"
definition PWM_CYCLE :: int where "PWM_CYCLE = 42000000 div 1000"
definition TCRT1000_DC :: fp where "TCRT1000_DC = f_const f64 (3 / 100)"
definition ON_MEASUREMENT_POS :: fp where "ON_MEASUREMENT_POS = f_const f64 (2 / 100)"
definition OFF_MEASUREMENT_POS :: fp where "OFF_MEASUREMENT_POS = f_const f64 (1 / 2)"
definition EXTSEL_TIM8_CH1 :: nat where "EXTSEL_TIM8_CH1 = 0x0d"

definition adcgrpcfg2 :: adc_group where
  "adcgrpcfg2 = \<lparr>group_circular = True, num_channels = ADC2_NB_CHANNELS, group_end_cb = Prox_adc_cb,
     per_trigger = Some 1, group_trigger = External_trigger EXTSEL_TIM8_CH1,
     group_smpr = [(0, 112)], group_sequence = [14]\<rparr>"

definition adcgrpcfg3 :: adc_group where
  "adcgrpcfg3 = \<lparr>group_circular = True, num_channels = PROXIMITY_NB_CHANNELS, group_end_cb = Prox_adc_cb,
     per_trigger = Some 1, group_trigger = External_trigger EXTSEL_TIM8_CH1,
     group_smpr = [(0, 112), (1, 112), (2, 112), (3, 112), (4, 112), (5, 112), (6, 112), (7, 112),
       (8, 112), (9, 112), (10, 112), (11, 112), (12, 112), (13, 112), (14, 112), (15, 112)],
     group_sequence = [12, 13, 11, 14, 15, 6, 5, 8, 2, 10, 4, 7, 9]\<rparr>"

record prox_state =
  adc3_values :: "u32 list"
  adc2_values :: "u32 list"
  adc3_ready :: bool
  adc2_ready :: bool
  adc3_running :: "adc_group option"
  adc2_running :: "adc_group option"
  pwm8_width :: "nat option"

definition prox_boot :: prox_state where
  "prox_boot = \<lparr>adc3_values = replicate PROXIMITY_NB_CHANNELS 0, adc2_values = replicate ADC2_NB_CHANNELS 0,
     adc3_ready = False, adc2_ready = False, adc3_running = None, adc2_running = None, pwm8_width = None\<rparr>"

text \<open>\<open>adc_cb\<close>. The halt on an unknown converter and the division by a zero \<open>n\<close> are \<open>None\<close>.\<close>

definition adc_cb :: "adc \<Rightarrow> adc_group \<Rightarrow> adcsample list \<Rightarrow> nat \<Rightarrow> prox_state \<Rightarrow> prox_state option" where
  "adc_cb adcp grpp samples n s =
     (let nc = num_channels grpp;
          values = acc_rows nc samples n (replicate nc 0);
          values = map (\<lambda>v. v div of_nat n) values
      in if adcp = ADCD1 \<or> n = 0 then None
         else if adcp = ADCD3
         then Some (s\<lparr>adc3_values := values @ drop nc (adc3_values s), adc3_running := None, adc3_ready := True\<rparr>)
         else Some (s\<lparr>adc2_values := values @ drop nc (adc2_values s), adc2_running := None, adc2_ready := True\<rparr>))"

text \<open>An interrupt: the converter, the number of rows, and the samples, which depend on the place of the
  measurement in the waveform.\<close>

type_synonym adc_event = "adc \<times> nat \<times> (nat option \<Rightarrow> adcsample list)"

fun prox_running :: "adc \<Rightarrow> prox_state \<Rightarrow> adc_group option" where
  "prox_running ADCD1 s = None"
| "prox_running ADCD2 s = adc2_running s"
| "prox_running ADCD3 s = adc3_running s"

definition adc_irq :: "adc_event \<Rightarrow> prox_state \<Rightarrow> prox_state option" where
  "adc_irq e s = (case e of (a, n, sampled) \<Rightarrow>
     (case prox_running a s of None \<Rightarrow> Some s | Some g \<Rightarrow> adc_cb a g (sampled (pwm8_width s)) n s))"

text \<open>\<open>chBSemWait\<close> on the semaphore of a converter, while the interrupts of the list arrive.\<close>

fun prox_ready :: "adc \<Rightarrow> prox_state \<Rightarrow> bool" where
  "prox_ready ADCD1 s = False"
| "prox_ready ADCD2 s = adc2_ready s"
| "prox_ready ADCD3 s = adc3_ready s"

fun prox_take :: "adc \<Rightarrow> prox_state \<Rightarrow> prox_state" where
  "prox_take ADCD1 s = s"
| "prox_take ADCD2 s = s\<lparr>adc2_ready := False\<rparr>"
| "prox_take ADCD3 s = s\<lparr>adc3_ready := False\<rparr>"

fun prox_wait :: "adc \<Rightarrow> adc_event list \<Rightarrow> prox_state \<Rightarrow> (adc_event list \<times> prox_state) option" where
  "prox_wait a [] s = (if prox_ready a s then Some ([], prox_take a s) else None)"
| "prox_wait a (e # es) s =
     (if prox_ready a s then Some (e # es, prox_take a s) else Option.bind (adc_irq e s) (prox_wait a es))"

definition take_measurement ::
  "adc_event list \<Rightarrow> prox_state \<Rightarrow> (u32 list \<times> adc_event list \<times> prox_state) option" where
  "take_measurement es s =
     (let s = s\<lparr>adc3_running := Some adcgrpcfg3\<rparr>; s = s\<lparr>adc2_running := Some adcgrpcfg2\<rparr>
      in Option.bind (prox_wait ADCD3 es s) (\<lambda>(es, s).
         Option.bind (prox_wait ADCD2 es s) (\<lambda>(es, s).
         let result = map (\<lambda>i. if i = 8 then adc2_values s ! 0 else adc3_values s ! i) [0..<PROXIMITY_NB_CHANNELS]
         in Some (result, es, s))))"

text \<open>\<open>pos\<close> is a \<open>float\<close>, the width is truncated to an unsigned 32-bit value.\<close>

definition set_measurement_position :: "fp \<Rightarrow> prox_state \<Rightarrow> prox_state option" where
  "set_measurement_position pos s =
     Option.bind (f_to_range 0 (2 ^ 32 - 1) (fmul f32 (f_of_int f32 PWM_CYCLE) (f_conv f32 pos)))
       (\<lambda>w. Some (s\<lparr>pwm8_width := Some (nat w)\<rparr>))"

text \<open>One round of \<open>proximity_thd\<close>.\<close>

definition proximity_round ::
  "('t, 'b) msgbus \<Rightarrow> 't \<Rightarrow> adc_event list \<Rightarrow> prox_state \<times> 'b \<Rightarrow> (adc_event list \<times> prox_state \<times> 'b) option" where
  "proximity_round mb tp es = (\<lambda>(s, b).
     Option.bind (set_measurement_position OFF_MEASUREMENT_POS s) (\<lambda>s.
     Option.bind (take_measurement es s) (\<lambda>(ambient, es, s).
     Option.bind (set_measurement_position ON_MEASUREMENT_POS s) (\<lambda>s.
     Option.bind (take_measurement es s) (\<lambda>(reflected, es, s).
     let delta = map (\<lambda>i. reflected ! i - ambient ! i) [0..<PROXIMITY_NB_CHANNELS]
     in Some (es, s, mb_publish mb tp (Proximity_msg ambient reflected delta) b))))))"

text \<open>\<open>proximity_start\<close>: the width of the pulse that drives the infrared LEDs.\<close>

definition proximity_pulse :: "int option" where
  "proximity_pulse = f_to_range 0 (2 ^ 32 - 1) (fmul f64 (f_of_int f64 PWM_CYCLE) TCRT1000_DC)"

subsection \<open>Motor current\<close>

definition MOTOR_NB_CHANNELS :: nat where "MOTOR_NB_CHANNELS = 2"
definition MOTOR_DMA_BUFFER_SIZE :: nat where "MOTOR_DMA_BUFFER_SIZE = 16"
definition ADC_MAX :: int where "ADC_MAX = 4096"
definition EXTSEL_TIM4_CC4 :: nat where "EXTSEL_TIM4_CC4 = 0x9"

definition MOTOR_ADC_GAIN :: fp where
  "MOTOR_ADC_GAIN = fdiv f64 (f_const f64 (33 / 10))
     (fmul f64 (fmul f64 (f_of_int f64 4096) (f_const f64 (33 / 100))) (f_const f64 (515 / 100)))"

definition adcgrpcfg1 :: adc_group where
  "adcgrpcfg1 = \<lparr>group_circular = True, num_channels = MOTOR_NB_CHANNELS, group_end_cb = Motor_adc_cb,
     per_trigger = Some 2, group_trigger = External_trigger EXTSEL_TIM4_CC4,
     group_smpr = [(0, 15), (2, 15)], group_sequence = [0, 2]\<rparr>"

text \<open>The loop of \<open>adc_motor_cb\<close>: \<open>i\<close> goes up to \<open>n\<close> in steps of the number of channels.\<close>

function motor_acc :: "adcsample list \<Rightarrow> nat \<Rightarrow> nat \<Rightarrow> u32 \<times> u32 \<Rightarrow> u32 \<times> u32" where
  "motor_acc samples n i acc =
     (if i < n then motor_acc samples n (i + MOTOR_NB_CHANNELS)
        (fst acc + ucast (samples ! i), snd acc + ucast (samples ! (i + 1)))
      else acc)"
  by pat_completeness auto
termination by (relation "measure (\<lambda>(_, n, i, _). n - i)") (auto simp: MOTOR_NB_CHANNELS_def)

declare motor_acc.simps [simp del]

record motor_current_state =
  motor_value :: "u32 \<times> u32"  \<comment> \<open>two \<open>int32_t\<close>\<close>
  measurement_ready_sem :: bool

definition adc_motor_cb :: "adcsample list \<Rightarrow> nat \<Rightarrow> motor_current_state \<Rightarrow> motor_current_state option" where
  "adc_motor_cb samples n s =
     (let acc = motor_acc samples n 0 (0, 0)
      in if n div 2 = 0 then None
         else Some (s\<lparr>motor_value := (fst acc div of_nat (n div 2), snd acc div of_nat (n div 2)),
                measurement_ready_sem := True\<rparr>))"

definition motor_amperes :: "bool \<Rightarrow> u32 \<Rightarrow> fp" where
  "motor_amperes is_inverted v =
     (let m = f_of_int f32 (sint v);
          m = f_conv f32 (fmul f64 (f_conv f64 (fsub f32 m (f_of_int f32 (ADC_MAX div 2)))) MOTOR_ADC_GAIN)
      in if is_inverted then fneg m else m)"

text \<open>One round of \<open>adc_motor_current\<close>; \<open>None\<close> is a wait without a measurement.\<close>

definition motor_current_round ::
  "('t, 'b) msgbus \<Rightarrow> 't \<Rightarrow> bool \<Rightarrow> bool \<Rightarrow> motor_current_state \<times> 'b \<Rightarrow> (motor_current_state \<times> 'b) option" where
  "motor_current_round mb tp inv_left inv_right = (\<lambda>(s, b).
     if \<not> measurement_ready_sem s then None
     else Some (s\<lparr>measurement_ready_sem := False\<rparr>,
       mb_publish mb tp (Motor_current_msg (motor_amperes inv_left (fst (motor_value s)))
         (motor_amperes inv_right (snd (motor_value s)))) b))"

subsection \<open>Battery level and protection\<close>

definition BATTERY_DMA_BUFFER_SIZE :: nat where "BATTERY_DMA_BUFFER_SIZE = 16"

definition BATTERY_ADC_GAIN :: fp where
  "BATTERY_ADC_GAIN = fdiv f64 (fadd f64 (f_of_int f64 51) (f_of_int f64 33)) (f_of_int f64 33)"

definition BATT_ADC_GAIN :: fp where
  "BATT_ADC_GAIN = fdiv f64 (f_const f64 (33 / 10)) (f_of_int f64 4096)"

definition battery_group :: adc_group where
  "battery_group = \<lparr>group_circular = True, num_channels = 1, group_end_cb = Battery_adc_cb,
     per_trigger = None, group_trigger = Software_start, group_smpr = [(0, 480)], group_sequence = [3]\<rparr>"

text \<open>The callback: the new \<open>battery_value\<close>.\<close>

definition battery_adc_cb :: "adcsample list \<Rightarrow> nat \<Rightarrow> u32 option" where
  "battery_adc_cb samples n =
     (if n = 0 then None
      else Some (fold (\<lambda>i v. v + ucast (samples ! i)) [0..<n] 0 div of_nat n))"

definition battery_voltage :: "u32 \<Rightarrow> fp" where
  "battery_voltage v = f_conv f32 (fmul f64 (fmul f64 (f_of_int f64 (uint v)) BATT_ADC_GAIN) BATTERY_ADC_GAIN)"

text \<open>One round of \<open>battery_thd\<close>: the conversion ends with a callback of \<open>n\<close> samples.\<close>

definition battery_round :: "('t, 'b) msgbus \<Rightarrow> 't \<Rightarrow> adcsample list \<Rightarrow> nat \<Rightarrow> 'b \<Rightarrow> 'b option" where
  "battery_round mb tp samples n b =
     Option.bind (battery_adc_cb samples n) (\<lambda>v. Some (mb_publish mb tp (Battery_msg (battery_voltage v)) b))"

definition WARNING_LEVEL_V :: fp where "WARNING_LEVEL_V = f_of_int f64 7"
definition SHUTDOWN_LEVEL_V :: fp where "SHUTDOWN_LEVEL_V = f_const f64 (65 / 10)"

record board_pins =
  led_error :: bool
  poweron :: bool

definition board_shutdown :: "board_pins \<Rightarrow> board_pins" where
  "board_shutdown p = p\<lparr>poweron := False\<rparr>"

text \<open>One round of \<open>battery_protection_thd\<close>. The thread starts after a first publication; \<open>None\<close> is a
  topic that holds something else than a battery message.\<close>

definition battery_protection_round ::
  "('t, 'b) msgbus \<Rightarrow> 't \<Rightarrow> 'b \<Rightarrow> board_pins \<Rightarrow> board_pins option" where
  "battery_protection_round mb tp b p =
     (case mb_read mb b tp of
        Some (Battery_msg voltage) \<Rightarrow>
          (let p = (if flt (f_conv f64 voltage) WARNING_LEVEL_V then p\<lparr>led_error := \<not> led_error p\<rparr> else p);
               p = (if flt (f_conv f64 voltage) SHUTDOWN_LEVEL_V then board_shutdown p else p)
           in Some p)
      | _ \<Rightarrow> None)"

text \<open>Every channel is converted with the sampling time its group sets, but for two: the group of \<open>ADCD2\<close>
  in \<open>proximity.c\<close> and the battery group set the time of channel 0 and convert channels 14 and 3.\<close>

lemma adc_sample_times:
  "map (sample_cycles adcgrpcfg3) (group_sequence adcgrpcfg3) = replicate 13 112"
  "map (sample_cycles adcgrpcfg1) (group_sequence adcgrpcfg1) = [15, 15]"
  "map (sample_cycles adcgrpcfg2) (group_sequence adcgrpcfg2) = [3]"
  "map (sample_cycles battery_group) (group_sequence battery_group) = [3]"
  by (simp_all add: adcgrpcfg3_def adcgrpcfg1_def adcgrpcfg2_def battery_group_def sample_cycles_def numeral_eq_Suc)

lemma group_channels:
  "length (group_sequence adcgrpcfg3) = num_channels adcgrpcfg3" "length (group_sequence adcgrpcfg2) = num_channels adcgrpcfg2"
  "length (group_sequence adcgrpcfg1) = num_channels adcgrpcfg1" "length (group_sequence battery_group) = num_channels battery_group"
  by (simp_all add: adcgrpcfg3_def adcgrpcfg2_def adcgrpcfg1_def battery_group_def PROXIMITY_NB_CHANNELS_def
      ADC2_NB_CHANNELS_def MOTOR_NB_CHANNELS_def)

subsection \<open>What the averages are\<close>

definition channel_mean :: "nat \<Rightarrow> adcsample list \<Rightarrow> nat \<Rightarrow> nat \<Rightarrow> nat" where
  "channel_mean nc samples n i = (\<Sum>j<n. unat (samples ! (nc * j + i))) div n"

lemma acc_row_loop:
  assumes "k \<le> length vs"
  shows "length (fold (\<lambda>i vs. vs[i := vs ! i + f i]) [0..<k] vs) = length vs"
    "i < length vs \<Longrightarrow> fold (\<lambda>i vs. vs[i := vs ! i + f i]) [0..<k] vs ! i = (if i < k then vs ! i + f i else vs ! i)"
proof -
  have "length (fold (\<lambda>i vs. vs[i := vs ! i + f i]) [0..<k] vs) = length vs \<and>
      (\<forall>i < length vs. fold (\<lambda>i vs. vs[i := vs ! i + f i]) [0..<k] vs ! i = (if i < k then vs ! i + f i else vs ! i))"
    using assms
  proof (induction k)
    case (Suc k)
    then show ?case by (auto simp: nth_list_update less_Suc_eq)
  qed simp
  then show "length (fold (\<lambda>i vs. vs[i := vs ! i + f i]) [0..<k] vs) = length vs"
    "i < length vs \<Longrightarrow> fold (\<lambda>i vs. vs[i := vs ! i + f i]) [0..<k] vs ! i = (if i < k then vs ! i + f i else vs ! i)"
    by blast+
qed

lemma acc_rows_nth:
  assumes "length vs = nc"
  shows "length (acc_rows nc samples n vs) = nc"
    "i < nc \<Longrightarrow> acc_rows nc samples n vs ! i = vs ! i + of_nat (\<Sum>j<n. unat (samples ! (nc * j + i)))"
proof -
  have "length (acc_rows nc samples n vs) = nc \<and>
      (\<forall>i < nc. acc_rows nc samples n vs ! i = vs ! i + of_nat (\<Sum>j<n. unat (samples ! (nc * j + i))))"
  proof (induction n)
    case (Suc n)
    let ?w = "acc_rows nc samples n vs"
    have "acc_rows nc samples (Suc n) vs = acc_row nc samples n ?w" by (simp add: acc_rows_def)
    moreover have "length (acc_row nc samples n ?w) = nc"
      "\<And>i. i < nc \<Longrightarrow> acc_row nc samples n ?w ! i = ?w ! i + ucast (samples ! (nc * n + i))"
      using acc_row_loop[where k = nc and vs = ?w and f = "\<lambda>i. ucast (samples ! (nc * n + i))"] Suc.IH by (auto simp: acc_row_def)
    ultimately show ?case using Suc.IH by (simp add: add.assoc)
  qed (use assms in \<open>simp add: acc_rows_def\<close>)
  then show "length (acc_rows nc samples n vs) = nc"
    "i < nc \<Longrightarrow> acc_rows nc samples n vs ! i = vs ! i + of_nat (\<Sum>j<n. unat (samples ! (nc * j + i)))"
    by blast+
qed

lemma sum_samples_bound: "(\<Sum>j<n. unat (f j :: adcsample)) \<le> 65535 * n"
proof -
  have "(\<Sum>j<n. unat (f j)) \<le> (\<Sum>j<n. 65535)"
  proof (rule sum_mono)
    fix j show "unat (f j) \<le> 65535" using unsigned_less[of "f j", where ?'a = nat] by simp
  qed
  then show ?thesis by simp
qed

lemma mean_word:
  assumes "0 < n" "n \<le> 65536"
  shows "unat (of_nat (\<Sum>j<n. unat (f j :: adcsample)) div of_nat n :: u32) = (\<Sum>j<n. unat (f j)) div n"
    "(\<Sum>j<n. unat (f j)) div n < 65536"
proof -
  have b: "(\<Sum>j<n. unat (f j)) \<le> 65535 * n" by (rule sum_samples_bound)
  then show "(\<Sum>j<n. unat (f j)) div n < 65536"
    using assms by (simp add: less_mult_imp_div_less)
  have "(\<Sum>j<n. unat (f j)) < 2 ^ 32" using b assms by simp
  then show "unat (of_nat (\<Sum>j<n. unat (f j)) div of_nat n :: u32) = (\<Sum>j<n. unat (f j)) div n"
    using assms by (simp add: unat_div of_nat_inverse del: of_nat_sum)
qed

definition means :: "nat \<Rightarrow> adcsample list \<Rightarrow> nat \<Rightarrow> u32 list" where
  "means nc samples n = map (\<lambda>i. of_nat (channel_mean nc samples n i)) [0..<nc]"

lemma means_nth:
  assumes "0 < n" "n \<le> 65536" "i < nc"
  shows "unat (means nc samples n ! i) = channel_mean nc samples n i" "channel_mean nc samples n i < 65536"
proof -
  show "channel_mean nc samples n i < 65536" unfolding channel_mean_def by (rule mean_word(2)[OF assms(1,2)])
  then show "unat (means nc samples n ! i) = channel_mean nc samples n i"
    using assms by (simp add: means_def of_nat_inverse)
qed

lemma averaged_rows:
  assumes "0 < n" "n \<le> 65536"
  shows "map (\<lambda>v. v div of_nat n) (acc_rows nc samples n (replicate nc 0)) = means nc samples n" (is "?l = ?r")
proof (rule nth_equalityI)
  note a = acc_rows_nth[OF length_replicate[of nc "0 :: u32"]]
  show "length ?l = length ?r" using a(1) by (simp add: means_def)
  fix i assume "i < length ?l"
  then have i: "i < nc" using a(1) by simp
  have "unat (?l ! i) = unat (?r ! i)"
    using a(1) a(2)[OF i] i mean_word[OF assms, of "\<lambda>j. samples ! (nc * j + i)"] means_nth[OF assms i]
    by (simp add: channel_mean_def del: of_nat_sum)
  then show "?l ! i = ?r ! i" by (simp add: word_unat_eq_iff)
qed

subsection \<open>A measurement, whatever the order of the interrupts\<close>

text \<open>The interrupts left when both converters are done.\<close>

fun served :: "bool \<Rightarrow> bool \<Rightarrow> adc_event list \<Rightarrow> adc_event list" where
  "served True True es = es"
| "served d3 d2 [] = []"
| "served d3 d2 (e # es) = served (d3 \<or> fst e = ADCD3) (d2 \<or> fst e = ADCD2) es"

lemma adc_cb_done:
  assumes "0 < n" "n \<le> 65536"
  shows "adc_cb ADCD3 g samples n s = Some (s\<lparr>adc3_values := means (num_channels g) samples n @ drop (num_channels g) (adc3_values s),
      adc3_running := None, adc3_ready := True\<rparr>)"
    "adc_cb ADCD2 g samples n s = Some (s\<lparr>adc2_values := means (num_channels g) samples n @ drop (num_channels g) (adc2_values s),
      adc2_running := None, adc2_ready := True\<rparr>)"
  using assms by (simp_all add: adc_cb_def averaged_rows Let_def)

lemma prox_wait_ready [simp]: "prox_ready a s \<Longrightarrow> prox_wait a es s = Some (es, prox_take a s)"
  by (cases es) auto

text \<open>Only the converter \<open>ADCD2\<close> is awaited.\<close>

lemma wait_adc2:
  assumes "adc2_running s = Some g" "\<not> adc2_ready s" "adc3_running s = None"
    "map_of es ADCD2 = Some (n, f)" "0 < n" "n \<le> 65536"
  shows "prox_wait ADCD2 es s = Some (served True False es,
    s\<lparr>adc2_values := means (num_channels g) (f (pwm8_width s)) n @ drop (num_channels g) (adc2_values s), adc2_running := None\<rparr>)"
  using assms
proof (induction es)
  case (Cons e es)
  obtain a m h where e: "e = (a, m, h)" by (cases e)
  show ?case
  proof (cases a)
    case ADCD2
    then show ?thesis using Cons.prems e by (simp add: adc_irq_def adc_cb_done)
  qed (use Cons e in \<open>simp_all add: adc_irq_def\<close>)
qed simp

text \<open>\<open>ADCD2\<close> was done before \<open>ADCD3\<close>.\<close>

lemma wait_adc3:
  assumes "adc3_running s = Some g" "\<not> adc3_ready s" "adc2_running s = None"
    "map_of es ADCD3 = Some (n, f)" "0 < n" "n \<le> 65536"
  shows "prox_wait ADCD3 es s = Some (served False True es,
    s\<lparr>adc3_values := means (num_channels g) (f (pwm8_width s)) n @ drop (num_channels g) (adc3_values s), adc3_running := None\<rparr>)"
  using assms
proof (induction es)
  case (Cons e es)
  obtain a m h where e: "e = (a, m, h)" by (cases e)
  show ?case
  proof (cases a)
    case ADCD3
    then show ?thesis using Cons.prems e by (simp add: adc_irq_def adc_cb_done)
  qed (use Cons e in \<open>simp_all add: adc_irq_def\<close>)
qed simp

lemma wait_both:
  assumes "adc3_running s = Some g3" "\<not> adc3_ready s" "adc2_running s = Some g2" "\<not> adc2_ready s"
    "map_of es ADCD3 = Some (n3, f3)" "0 < n3" "n3 \<le> 65536"
    "map_of es ADCD2 = Some (n2, f2)" "0 < n2" "n2 \<le> 65536"
  shows "Option.bind (prox_wait ADCD3 es s) (\<lambda>(es, s). prox_wait ADCD2 es s) = Some (served False False es,
    s\<lparr>adc3_values := means (num_channels g3) (f3 (pwm8_width s)) n3 @ drop (num_channels g3) (adc3_values s), adc3_running := None,
      adc2_values := means (num_channels g2) (f2 (pwm8_width s)) n2 @ drop (num_channels g2) (adc2_values s), adc2_running := None\<rparr>)"
  using assms
proof (induction es)
  case (Cons e es)
  obtain a m h where e: "e = (a, m, h)" by (cases e)
  show ?case
  proof (cases a)
    case ADCD1
    then show ?thesis using Cons e by (simp add: adc_irq_def)
  next
    case ADCD2
    then show ?thesis using Cons.prems e by (simp add: adc_irq_def adc_cb_done wait_adc3)
  next
    case ADCD3
    then show ?thesis using Cons.prems e by (simp add: adc_irq_def adc_cb_done wait_adc2)
  qed
qed simp

definition prox_idle :: "prox_state \<Rightarrow> bool" where
  "prox_idle s \<longleftrightarrow> adc3_running s = None \<and> adc2_running s = None \<and> \<not> adc3_ready s \<and> \<not> adc2_ready s
     \<and> length (adc3_values s) = PROXIMITY_NB_CHANNELS \<and> length (adc2_values s) = ADC2_NB_CHANNELS"

text \<open>The two converters answer a measurement: their first interrupts carry \<open>n3\<close> and \<open>n2\<close> rows.\<close>

definition answers :: "adc_event list \<Rightarrow> (nat \<times> (nat option \<Rightarrow> adcsample list)) \<Rightarrow> (nat \<times> (nat option \<Rightarrow> adcsample list)) \<Rightarrow> bool" where
  "answers es r3 r2 \<longleftrightarrow> map_of es ADCD3 = Some r3 \<and> map_of es ADCD2 = Some r2
     \<and> fst r3 \<in> {1..65536} \<and> fst r2 \<in> {1..65536}"

definition prox_values :: "(nat \<times> (nat option \<Rightarrow> adcsample list)) \<Rightarrow> (nat \<times> (nat option \<Rightarrow> adcsample list)) \<Rightarrow> nat \<Rightarrow> nat \<Rightarrow> nat" where
  "prox_values r3 r2 w i =
     (if i = 8 then channel_mean 1 (snd r2 (Some w)) (fst r2) 0 else channel_mean 13 (snd r3 (Some w)) (fst r3) i)"

lemma prox_values_bound: "answers es r3 r2 \<Longrightarrow> i < 13 \<Longrightarrow> prox_values r3 r2 w i < 65536"
  by (auto simp: prox_values_def answers_def intro!: means_nth(2))

lemma take_measurement_values:
  assumes "prox_idle s" "answers es r3 r2" "pwm8_width s = Some w"
  obtains s' where "take_measurement es s =
      Some (map (\<lambda>i. of_nat (prox_values r3 r2 w i)) [0..<13], served False False es, s')"
    "prox_idle s'" "pwm8_width s' = Some w"
proof -
  obtain n3 f3 n2 f2 where r: "r3 = (n3, f3)" "r2 = (n2, f2)" by (cases r3, cases r2)
  let ?s = "s\<lparr>adc3_running := Some adcgrpcfg3, adc2_running := Some adcgrpcfg2\<rparr>"
  let ?s' = "s\<lparr>adc3_values := means 13 (f3 (Some w)) n3, adc2_values := means 1 (f2 (Some w)) n2\<rparr>"
  have b: "Option.bind (prox_wait ADCD3 es ?s) (\<lambda>(es, s). prox_wait ADCD2 es s) = Some (served False False es, ?s')"
    using assms r wait_both[of ?s adcgrpcfg3 adcgrpcfg2 es n3 f3 n2 f2]
    by (simp add: prox_idle_def answers_def adcgrpcfg3_def adcgrpcfg2_def PROXIMITY_NB_CHANNELS_def ADC2_NB_CHANNELS_def)
  have "take_measurement es s = Some (map (\<lambda>i. of_nat (prox_values r3 r2 w i)) [0..<13], served False False es, ?s')"
    using b r unfolding take_measurement_def Let_def
    by (auto simp: Option.bind_eq_Some_conv prox_values_def means_def PROXIMITY_NB_CHANNELS_def simp del: upt_rec_numeral)
  moreover have "prox_idle ?s'" "pwm8_width ?s' = Some w"
    using assms by (auto simp: prox_idle_def means_def PROXIMITY_NB_CHANNELS_def ADC2_NB_CHANNELS_def)
  ultimately show ?thesis by (rule that)
qed

lemma measurement_positions:
  "set_measurement_position OFF_MEASUREMENT_POS s = Some (s\<lparr>pwm8_width := Some 21000\<rparr>)"
  "set_measurement_position ON_MEASUREMENT_POS s = Some (s\<lparr>pwm8_width := Some 840\<rparr>)"
proof -
  have "f_to_range 0 (2 ^ 32 - 1) (fmul f32 (f_of_int f32 PWM_CYCLE) (f_conv f32 OFF_MEASUREMENT_POS)) = Some 21000" by code_simp
  then show "set_measurement_position OFF_MEASUREMENT_POS s = Some (s\<lparr>pwm8_width := Some 21000\<rparr>)"
    by (simp add: set_measurement_position_def)
  have "f_to_range 0 (2 ^ 32 - 1) (fmul f32 (f_of_int f32 PWM_CYCLE) (f_conv f32 ON_MEASUREMENT_POS)) = Some 840" by code_simp
  then show "set_measurement_position ON_MEASUREMENT_POS s = Some (s\<lparr>pwm8_width := Some 840\<rparr>)"
    by (simp add: set_measurement_position_def)
qed

lemma sint_sub16:
  assumes "a < 65536" "b < 65536"
  shows "sint (of_nat a - of_nat b :: u32) = int a - int b"
proof -
  have "(of_nat a - of_nat b :: u32) = word_of_int (int a - int b)" by simp
  then show ?thesis using assms sint_of_int32[of "int a - int b"] by simp
qed

lemma sum_upto_2: "(\<Sum>j<(2 :: nat). f j) = f 0 + (f 1 :: nat)"
  by (simp add: numeral_2_eq_2)

lemma unat_of_nat16: "k < 65536 \<Longrightarrow> unat (of_nat k :: u32) = k"
  by (simp add: of_nat_inverse)

text \<open>C19. Whatever the order in which the two converters interrupt, a round of the proximity thread
  measures all thirteen sensors first in the dark part of the LED waveform and then inside the LED
  pulse, and publishes the exact means of each channel and their differences, the ninth channel from the
  second converter; the differences are correct as signed numbers.\<close>
theorem proximity_measures:
  assumes "prox_idle s" "answers es a3 a2" "answers (served False False es) r3 r2"
  shows "\<exists>s' ambient reflected delta.
    proximity_round mb tp es (s, b) = Some (served False False (served False False es), s',
      mb_publish mb tp (Proximity_msg ambient reflected delta) b)
    \<and> prox_idle s' \<and> map unat ambient = map (prox_values a3 a2 21000) [0..<13]
    \<and> map unat reflected = map (prox_values r3 r2 840) [0..<13]
    \<and> map sint delta = map (\<lambda>i. int (prox_values r3 r2 840 i) - int (prox_values a3 a2 21000 i)) [0..<13]"
proof -
  obtain s1 where 1: "take_measurement es (s\<lparr>pwm8_width := Some 21000\<rparr>) =
      Some (map (\<lambda>i. of_nat (prox_values a3 a2 21000 i)) [0..<13], served False False es, s1)" "prox_idle s1"
    using take_measurement_values[of "s\<lparr>pwm8_width := Some 21000\<rparr>" es a3 a2 21000] assms(1,2)
    by (auto simp: prox_idle_def)
  obtain s2 where 2: "take_measurement (served False False es) (s1\<lparr>pwm8_width := Some 840\<rparr>) =
      Some (map (\<lambda>i. of_nat (prox_values r3 r2 840 i)) [0..<13], served False False (served False False es), s2)" "prox_idle s2"
    using take_measurement_values[of "s1\<lparr>pwm8_width := Some 840\<rparr>" "served False False es" r3 r2 840] 1(2) assms(3)
    by (auto simp: prox_idle_def)
  note bd = prox_values_bound[OF assms(2), of _ 21000] prox_values_bound[OF assms(3), of _ 840]
  let ?A = "map (\<lambda>i. of_nat (prox_values a3 a2 21000 i) :: u32) [0..<13]"
  let ?R = "map (\<lambda>i. of_nat (prox_values r3 r2 840 i) :: u32) [0..<13]"
  let ?D = "map (\<lambda>i. of_nat (prox_values r3 r2 840 i) - of_nat (prox_values a3 a2 21000 i) :: u32) [0..<13]"
  have d: "map (\<lambda>i. ?R ! i - ?A ! i) [0..<13] = ?D" by (simp del: upt_rec_numeral)
  show ?thesis
  proof (intro exI conjI)
    show "proximity_round mb tp es (s, b) = Some (served False False (served False False es), s2,
        mb_publish mb tp (Proximity_msg ?A ?R ?D) b)"
      using 1 2 by (simp add: d proximity_round_def measurement_positions PROXIMITY_NB_CHANNELS_def del: upt_rec_numeral)
    show "prox_idle s2" by (rule 2)
    show "map unat ?A = map (prox_values a3 a2 21000) [0..<13]" "map unat ?R = map (prox_values r3 r2 840) [0..<13]"
      using bd by (auto simp: unat_of_nat16 simp del: upt_rec_numeral)
    show "map sint ?D = map (\<lambda>i. int (prox_values r3 r2 840 i) - int (prox_values a3 a2 21000 i)) [0..<13]"
      using bd by (auto simp: sint_sub16 simp del: upt_rec_numeral)
  qed
qed

theorem proximity_measures_witness:
  "\<exists>s' ambient reflected delta.
    proximity_round ref_msgbus ''/proximity''
      [(ADCD2, 2, \<lambda>_. [300, 301]), (ADCD3, 1, \<lambda>_. replicate 13 50), (ADCD3, 1, \<lambda>w. if w = Some 840 then replicate 13 20 else []),
       (ADCD2, 1, \<lambda>_. [310])] (prox_boot, \<lparr>rb_topics = [], rb_values = []\<rparr>)
    = Some ([], s', mb_publish ref_msgbus ''/proximity'' (Proximity_msg ambient reflected delta) \<lparr>rb_topics = [], rb_values = []\<rparr>)
    \<and> map sint delta = [-30, -30, -30, -30, -30, -30, -30, -30, 10, -30, -30, -30, -30]"
proof -
  have e: "map (\<lambda>i. int (prox_values (1, \<lambda>w. if w = Some 840 then replicate 13 20 else []) (1, \<lambda>_. [310]) 840 i)
        - int (prox_values (1, \<lambda>_. replicate 13 50) (2, \<lambda>_. [300, 301]) 21000 i)) [0..<13]
      = [-30, -30, -30, -30, -30, -30, -30, -30, 10, -30, -30, -30, -30]" by code_simp
  show ?thesis
    using proximity_measures[of prox_boot "[(ADCD2, 2, \<lambda>_. [300, 301]), (ADCD3, 1, \<lambda>_. replicate 13 50),
      (ADCD3, 1, \<lambda>w. if w = Some 840 then replicate 13 20 else []), (ADCD2, 1, \<lambda>_. [310])]"
    "(1, \<lambda>_. replicate 13 50)" "(2, \<lambda>_. [300, 301])" "(1, \<lambda>w. if w = Some 840 then replicate 13 20 else [])" "(1, \<lambda>_. [310])"
    ref_msgbus "''/proximity''" "\<lparr>rb_topics = [], rb_values = []\<rparr>"]
      e
    by (simp add: prox_idle_def prox_boot_def PROXIMITY_NB_CHANNELS_def ADC2_NB_CHANNELS_def answers_def
        del: upt_rec_numeral) (elim exE conjE, intro exI conjI, assumption+)
qed


subsection \<open>Motor current\<close>

lemma motor_acc_sum:
  "motor_acc samples (2 * m) (2 * k) (of_nat a, of_nat b) =
    (of_nat (a + (\<Sum>j\<in>{k..<m}. unat (samples ! (2 * j)))), of_nat (b + (\<Sum>j\<in>{k..<m}. unat (samples ! (2 * j + 1)))))"
proof (induction "m - k" arbitrary: k a b)
  case 0
  then show ?case by (subst motor_acc.simps) simp
next
  case (Suc d)
  then have k: "k < m" "d = m - Suc k" by simp_all
  have s: "motor_acc samples (2 * m) (2 * k) (of_nat a, of_nat b)
      = motor_acc samples (2 * m) (2 * Suc k) (of_nat (a + unat (samples ! (2 * k))), of_nat (b + unat (samples ! (2 * k + 1))))"
    by (subst motor_acc.simps) (use k in \<open>simp add: MOTOR_NB_CHANNELS_def\<close>)
  show ?case
    unfolding s Suc.hyps(1)[OF k(2)] using k(1)
    by (simp add: sum.atLeast_Suc_lessThan add.assoc del: of_nat_add of_nat_sum)
qed

definition row_mean :: "adcsample list \<Rightarrow> nat \<Rightarrow> nat \<Rightarrow> nat" where
  "row_mean samples m i = (\<Sum>j<m. unat (samples ! (2 * j + i))) div m"

lemma adc_motor_cb_means:
  assumes "0 < m" "m \<le> 65536"
  shows "adc_motor_cb samples (2 * m) s = Some (s\<lparr>motor_value := (of_nat (row_mean samples m 0), of_nat (row_mean samples m 1)),
    measurement_ready_sem := True\<rparr>)"
proof -
  have a: "motor_acc samples (2 * m) 0 (0, 0) = (of_nat (\<Sum>j<m. unat (samples ! (2 * j))), of_nat (\<Sum>j<m. unat (samples ! (2 * j + 1))))"
    using motor_acc_sum[of samples m 0 0 0] by (simp add: lessThan_atLeast0 del: of_nat_sum)
  have w: "of_nat (\<Sum>j<m. unat (f j :: adcsample)) div of_nat m = (of_nat ((\<Sum>j<m. unat (f j)) div m) :: u32)" for f
  proof -
    have "unat (of_nat ((\<Sum>j<m. unat (f j)) div m) :: u32) = (\<Sum>j<m. unat (f j)) div m"
      using mean_word(2)[OF assms, of f] by (simp add: unat_of_nat16 del: of_nat_sum)
    then show ?thesis using mean_word(1)[OF assms, of f] by (simp add: word_unat_eq_iff del: of_nat_sum)
  qed
  show ?thesis
    using assms by (simp add: adc_motor_cb_def a w row_mean_def del: of_nat_sum)
qed

text \<open>C20. The converter delivers \<open>n\<close> rows of two samples, but the loop over \<open>n\<close> in steps of two reads
  only the first half of the rows: with \<open>2 m\<close> rows, the published currents are those of the means of
  the first \<open>m\<close> rows, each inverted when its parameter says so, and whatever the second half of the
  buffer holds.\<close>
theorem current_half_averaged:
  assumes "0 < m" "m \<le> 65536" "length rows = 2 * m"
  shows "Option.bind (adc_motor_cb (rows @ late) (2 * m) s) (\<lambda>s. motor_current_round mb tp inv_left inv_right (s, b))
    = Some (s\<lparr>motor_value := (of_nat (row_mean rows m 0), of_nat (row_mean rows m 1)), measurement_ready_sem := False\<rparr>,
        mb_publish mb tp (Motor_current_msg (motor_amperes inv_left (of_nat (row_mean rows m 0)))
          (motor_amperes inv_right (of_nat (row_mean rows m 1)))) b)"
proof -
  have "row_mean (rows @ late) m i = row_mean rows m i" if "i < 2" for i
    using that assms(3) by (auto simp: row_mean_def nth_append intro!: arg_cong2[where f = "(div)"] sum.cong)
  then show ?thesis
    using assms(1,2) by (simp add: adc_motor_cb_means motor_current_round_def)
qed

theorem current_half_averaged_witness:
  "Option.bind (adc_motor_cb [2048, 0, 2048, 4095, 9, 9, 9, 9] 4 \<lparr>motor_value = (0, 0), measurement_ready_sem = False\<rparr>) (\<lambda>s. motor_current_round ref_msgbus ''/motors/current'' False True (s, \<lparr>rb_topics = [], rb_values = []\<rparr>))
    = Some (\<lparr>motor_value = (2048, 2047), measurement_ready_sem = False\<rparr>,
        mb_publish ref_msgbus ''/motors/current'' (Motor_current_msg (motor_amperes False 2048) (motor_amperes True 2047)) \<lparr>rb_topics = [], rb_values = []\<rparr>)"
proof -
  have e: "row_mean [2048, 0, 2048, 4095] 2 0 = 2048" "row_mean [2048, 0, 2048, 4095] 2 1 = 2047"
    by (simp_all add: row_mean_def sum_upto_2)
  show ?thesis
    using current_half_averaged[of 2 "[2048, 0, 2048, 4095]" "[9, 9, 9, 9]" "\<lparr>motor_value = (0, 0), measurement_ready_sem = False\<rparr>" ref_msgbus "''/motors/current''" False True "\<lparr>rb_topics = [], rb_values = []\<rparr>"]
    by (simp add: e[simplified])
qed

subsection \<open>Battery\<close>

lemma battery_adc_cb_mean:
  assumes "0 < n" "n \<le> 65536"
  shows "battery_adc_cb samples n = Some (of_nat (channel_mean 1 samples n 0))"
proof -
  have f: "fold (\<lambda>i v. v + ucast (samples ! i)) [0..<k] (0 :: u32) = of_nat (\<Sum>j<k. unat (samples ! j))" for k
    by (induction k) (simp_all add: unsigned_ucast_eq)
  have "unat (of_nat ((\<Sum>j<n. unat (samples ! j)) div n) :: u32) = (\<Sum>j<n. unat (samples ! j)) div n"
    using mean_word(2)[OF assms, of "\<lambda>j. samples ! j"] by (simp add: unat_of_nat16 del: of_nat_sum)
  then have "of_nat (\<Sum>j<n. unat (samples ! j)) div of_nat n = (of_nat ((\<Sum>j<n. unat (samples ! j)) div n) :: u32)"
    using mean_word(1)[OF assms, of "\<lambda>j. samples ! j"] by (simp add: word_unat_eq_iff del: of_nat_sum)
  then show ?thesis
    using assms by (simp add: battery_adc_cb_def f channel_mean_def del: of_nat_sum)
qed

lemma channel_mean_bound:
  assumes "\<And>j. j < n \<Longrightarrow> samples ! j \<le> 4095" "0 < n"
  shows "channel_mean 1 samples n 0 \<le> 4095"
proof -
  have "(\<Sum>j<n. unat (samples ! j)) \<le> (\<Sum>j<n. 4095)"
    by (rule sum_mono) (use assms(1) in \<open>simp add: word_le_nat_alt\<close>)
  then have "(\<Sum>j<n. unat (samples ! j)) div n \<le> 4095 * n div n" by (intro div_le_mono) simp
  then show ?thesis using assms(2) by (simp add: channel_mean_def)
qed

text \<open>The published voltage grows with the converter value.\<close>

definition batt_gain1 :: rat where "batt_gain1 = 3715469692580659 / 4611686018427387904"
definition batt_gain2 :: rat where "batt_gain2 = 5731854071198813 / 2251799813685248"

definition volt_of :: "rat \<Rightarrow> rat" where
  "volt_of q = round_mag f64 (round_mag f32 (round_mag f64 (round_mag f64 (q * batt_gain1) * batt_gain2)))"

abbreviation volt_mag :: "nat \<Rightarrow> rat" where
  "volt_mag v \<equiv> volt_of (of_nat v)"

lemma fround_fin:
  assumes "0 < fprec F" "0 \<le> m" "m \<le> n" "round_mag F n \<le> fmax F"
  shows "fround F s m = FFin s (round_mag F m)" "0 \<le> round_mag F m" "round_mag F m \<le> round_mag F n"
proof -
  show r: "round_mag F m \<le> round_mag F n" by (rule round_mag_mono[OF assms(1-3)])
  show "fround F s m = FFin s (round_mag F m)" using r assms(4) by (simp add: fround_def Let_def)
  show "0 \<le> round_mag F m" by (rule round_mag_nonneg[OF assms(2)])
qed

lemma battery_gains:
  "BATT_ADC_GAIN = FFin False batt_gain1"
  "BATTERY_ADC_GAIN = FFin False batt_gain2"
  "WARNING_LEVEL_V = FFin False 7" "SHUTDOWN_LEVEL_V = FFin False (13 / 2)"
  by code_simp+

lemma round_16: "round_mag f64 4 = 4" "round_mag f64 16 = 16" "round_mag f32 16 = 16" "16 \<le> fmax f64" "16 \<le> fmax f32"
  by code_simp+

lemma volt_mag_voltage:
  assumes "v \<le> 4095"
  shows "f_conv f64 (battery_voltage (of_nat v)) = FFin False (volt_mag v)"
proof -
  have v: "f_of_int f64 (uint (of_nat v :: u32)) = FFin False (of_nat v)"
  proof -
    have "uint (of_nat v :: u32) = int v" using assms uint_of_int32[of "int v"] by simp
    moreover have "f_of_int f64 (int v) = FFin (int v < 0) (of_int \<bar>int v\<bar>)"
      by (rule f_of_int_exact) (use assms in \<open>simp_all add: f64_def fmax_def pow2_def\<close>)
    ultimately show ?thesis by simp
  qed
  have m: "(of_nat v :: rat) \<le> 4095" using assms of_nat_mono[of v 4095, where ?'a = rat] by simp
  have g: "0 \<le> of_nat v * batt_gain1" "of_nat v * batt_gain1 \<le> 4"
    using m by (simp_all add: batt_gain1_def)
  have a: "fround f64 s (of_nat v * batt_gain1) = FFin s (round_mag f64 (of_nat v * batt_gain1))"
    "0 \<le> round_mag f64 (of_nat v * batt_gain1)" "round_mag f64 (of_nat v * batt_gain1) \<le> 4" for s
    using fround_fin[OF _ g, of f64, unfolded round_16] round_16(4) by simp_all
  let ?r1 = "round_mag f64 (of_nat v * batt_gain1)"
  have h: "0 \<le> ?r1 * batt_gain2" "?r1 * batt_gain2 \<le> 16"
    using a(2,3) by (simp_all add: batt_gain2_def)
  have b: "fround f64 s (?r1 * batt_gain2) = FFin s (round_mag f64 (?r1 * batt_gain2))"
    "0 \<le> round_mag f64 (?r1 * batt_gain2)" "round_mag f64 (?r1 * batt_gain2) \<le> 16" for s
    using fround_fin[OF _ h, of f64, unfolded round_16] round_16(4) by simp_all
  let ?r2 = "round_mag f64 (?r1 * batt_gain2)"
  have c: "fround f32 s ?r2 = FFin s (round_mag f32 ?r2)" "0 \<le> round_mag f32 ?r2" "round_mag f32 ?r2 \<le> 16" for s
    using fround_fin[of f32 ?r2 16, unfolded round_16] b(2,3) round_16(5) by simp_all
  have d: "fround f64 s (round_mag f32 ?r2) = FFin s (round_mag f64 (round_mag f32 ?r2))" for s
    using fround_fin[of f64 "round_mag f32 ?r2" 16, unfolded round_16] c(2,3) round_16(4) by simp
  show ?thesis
    by (simp add: battery_voltage_def battery_gains v a b c d volt_of_def)
qed

lemma volt_mag_mono:
  assumes "v \<le> w"
  shows "volt_mag v \<le> volt_mag w"
proof -
  have n: "0 \<le> of_nat u * batt_gain1" for u :: nat by (simp add: batt_gain1_def)
  have g: "of_nat v * batt_gain1 \<le> of_nat w * batt_gain1"
    using assms by (simp add: batt_gain1_def divide_right_mono)
  note 1 = round_mag_mono[OF fprec_pos(2) n g]
  have m: "0 \<le> round_mag f64 (of_nat u * batt_gain1) * batt_gain2" for u :: nat
    using round_mag_nonneg[OF n, of f64 u] by (simp add: batt_gain2_def)
  have h: "round_mag f64 (of_nat v * batt_gain1) * batt_gain2 \<le> round_mag f64 (of_nat w * batt_gain1) * batt_gain2"
    using 1 by (intro mult_right_mono) (simp_all add: batt_gain2_def)
  note 2 = round_mag_mono[OF fprec_pos(2) m h]
  note 3 = round_mag_mono[OF fprec_pos(1) round_mag_nonneg[OF m] 2]
  show ?thesis
    unfolding volt_of_def by (rule round_mag_mono[OF fprec_pos(2) round_mag_nonneg[OF round_mag_nonneg[OF m]] 3])
qed

lemma battery_levels:
  assumes "v \<le> 4095"
  shows "flt (f_conv f64 (battery_voltage (of_nat v))) SHUTDOWN_LEVEL_V \<longleftrightarrow> v \<le> 3169"
    "flt (f_conv f64 (battery_voltage (of_nat v))) WARNING_LEVEL_V \<longleftrightarrow> v \<le> 3413"
proof -
  have "volt_of 3169 < 13 / 2" "13 / 2 \<le> volt_of 3170" "volt_of 3413 < 7" "7 \<le> volt_of 3414" by code_simp+
  then have "volt_mag v < 13 / 2 \<longleftrightarrow> v \<le> 3169" "volt_mag v < 7 \<longleftrightarrow> v \<le> 3413"
    using volt_mag_mono[of v 3169] volt_mag_mono[of 3170 v] volt_mag_mono[of v 3413] volt_mag_mono[of 3414 v]
    by (simp_all only: of_nat_numeral) linarith+
  then show "flt (f_conv f64 (battery_voltage (of_nat v))) SHUTDOWN_LEVEL_V \<longleftrightarrow> v \<le> 3169"
    "flt (f_conv f64 (battery_voltage (of_nat v))) WARNING_LEVEL_V \<longleftrightarrow> v \<le> 3413"
    by (simp_all add: volt_mag_voltage[OF assms] battery_gains)
qed



end
