(* ===== verification/Spi_I2c_Sensors.thy ===== *)
theory Spi_I2c_Sensors
  imports Msgbus
begin

section \<open>The range sensor and the inertial unit (\<open>range.c\<close>, \<open>vl6180x\<close>, \<open>imu.c\<close>, \<open>mpu60X0.c\<close>, \<open>exti.c\<close>)\<close>

text \<open>
  Both sensors are register files behind a serial bus. The bus drivers of the operating system are
  parameters: \<open>i2c_transmit\<close> sends bytes to an address and receives a number of bytes, or reports a
  failure (\<open>None\<close>) and then leaves the receive buffer as it was; \<open>spi_exchange\<close> is a transaction of
  select, send, receive and unselect. The state \<open>'d\<close> of the devices is opaque.
  \<^item> The drivers poll: their loops are \<open>partial_function\<close>s, and \<open>None\<close> is a loop that never ends, or the
    use of a byte that was never received.
  \<^item> The locale \<open>vl6180x_sensor\<close> states what the data sheet promises of the range sensor (it becomes
    ready, and a started measurement ends), \<open>mpu_device\<close> that the registers of the inertial unit keep
    what is written and that a reset ends. Both are interpreted on reference devices.
  \<^item> \<open>range_published\<close>: a round of the range thread ends and publishes the measured distance, whatever
    error code the sensor gives. \<open>imu_scales\<close>: the scale used for a reading is the full scale that was
    written to the device, for every configuration word.
\<close>

type_synonym 'd i2c_bus = "u8 \<Rightarrow> u8 list \<Rightarrow> nat \<Rightarrow> 'd \<Rightarrow> u8 list option \<times> 'd"
type_synonym 'd spi_bus = "u8 list \<Rightarrow> nat \<Rightarrow> 'd \<Rightarrow> u8 list \<times> 'd"

subsection \<open>The driver of the range sensor\<close>

definition VL6180X_SYSTEM_INTERRUPT_CLEAR :: u16 where "VL6180X_SYSTEM_INTERRUPT_CLEAR = 0x15"
definition VL6180X_SYSRANGE_START :: u16 where "VL6180X_SYSRANGE_START = 0x18"
definition VL6180X_RESULT_RANGE_STATUS :: u16 where "VL6180X_RESULT_RANGE_STATUS = 0x4d"
definition VL6180X_RESULT_INTERRUPT_STATUS_GPIO :: u16 where "VL6180X_RESULT_INTERRUPT_STATUS_GPIO = 0x4f"
definition VL6180X_RESULT_RANGE_VAL :: u16 where "VL6180X_RESULT_RANGE_VAL = 0x62"
definition VL6180X_DEFAULT_ADDRESS :: u8 where "VL6180X_DEFAULT_ADDRESS = 0x29"

record vl6180x =
  vl_address :: u8

definition vl6180x_init :: "u8 \<Rightarrow> vl6180x" where
  "vl6180x_init address = \<lparr>vl_address = address\<rparr>"

definition vl6180x_write_register :: "'d i2c_bus \<Rightarrow> vl6180x \<Rightarrow> u16 \<Rightarrow> u8 \<Rightarrow> 'd \<Rightarrow> 'd" where
  "vl6180x_write_register B dev reg val d =
     snd (B (vl_address dev) [ucast (drop_bit 8 reg), ucast (reg AND 0xff), val] 0 d)"

definition vl6180x_read_register :: "'d i2c_bus \<Rightarrow> vl6180x \<Rightarrow> u16 \<Rightarrow> 'd \<Rightarrow> (u8 \<times> 'd) option" where
  "vl6180x_read_register B dev reg d =
     (case B (vl_address dev) [ucast (drop_bit 8 reg), ucast (reg AND 0xff)] 1 d of
        (Some [ret], d) \<Rightarrow> Some (ret, d)
      | _ \<Rightarrow> None)"

text \<open>The three polling loops of \<open>vl6180x_measure_distance\<close>: read until a bit is set.\<close>

partial_function (option) vl6180x_poll :: "'d i2c_bus \<Rightarrow> vl6180x \<Rightarrow> u16 \<Rightarrow> u8 \<Rightarrow> 'd \<Rightarrow> (u8 \<times> 'd) option" where
  "vl6180x_poll B dev reg bits d =
     Option.bind (vl6180x_read_register B dev reg d) (\<lambda>(status, d).
       if status AND bits = 0 then vl6180x_poll B dev reg bits d else Some (status, d))"

text \<open>The results are the return value and \<open>*out_mm\<close>.\<close>

definition vl6180x_measure_distance :: "'d i2c_bus \<Rightarrow> vl6180x \<Rightarrow> 'd \<Rightarrow> (u8 \<times> u8 \<times> 'd) option" where
  "vl6180x_measure_distance B dev d =
     Option.bind (vl6180x_poll B dev VL6180X_RESULT_RANGE_STATUS (push_bit 0 1) d) (\<lambda>(status, d).
     let d = vl6180x_write_register B dev VL6180X_SYSRANGE_START 0x01 d in
     Option.bind (vl6180x_poll B dev VL6180X_RESULT_INTERRUPT_STATUS_GPIO (push_bit 2 1) d) (\<lambda>(status, d).
     Option.bind (vl6180x_read_register B dev VL6180X_RESULT_RANGE_VAL d) (\<lambda>(mm, d).
     let d = vl6180x_write_register B dev VL6180X_SYSTEM_INTERRUPT_CLEAR 0x07 d in
     Option.bind (vl6180x_poll B dev VL6180X_RESULT_RANGE_STATUS (push_bit 0 1) d) (\<lambda>(status, d).
     Some (drop_bit 4 status, mm, d)))))"

partial_function (option) vl6180x_wait_fresh :: "'d i2c_bus \<Rightarrow> vl6180x \<Rightarrow> 'd \<Rightarrow> 'd option" where
  "vl6180x_wait_fresh B dev d =
     Option.bind (vl6180x_read_register B dev 0x16 d) (\<lambda>(v, d).
       if v \<noteq> 0x01 then vl6180x_wait_fresh B dev d else Some d)"

definition vl6180x_settings :: "(u16 \<times> u8) list" where
  "vl6180x_settings = [(0x0207, 0x01), (0x0208, 0x01), (0x0096, 0x00), (0x0097, 0xfd), (0x00e3, 0x00),
     (0x00e4, 0x04), (0x00e5, 0x02), (0x00e6, 0x01), (0x00e7, 0x03), (0x00f5, 0x02), (0x00d9, 0x05),
     (0x00db, 0xce), (0x00dc, 0x03), (0x00dd, 0xf8), (0x009f, 0x00), (0x00a3, 0x3c), (0x00b7, 0x00),
     (0x00bb, 0x3c), (0x00b2, 0x09), (0x00ca, 0x09), (0x0198, 0x01), (0x01b0, 0x17), (0x01ad, 0x00),
     (0x00ff, 0x05), (0x0100, 0x05), (0x0199, 0x05), (0x01a6, 0x1b), (0x01ac, 0x3e), (0x01a7, 0x1f),
     (0x0030, 0x00),
     (0x0011, 0x10), (0x010a, 0x30), (0x003f, 0x46), (0x0031, 0xFF), (0x0040, 0x63), (0x002e, 0x01),
     (0x0014, 0x24)]"

definition vl6180x_configure :: "'d i2c_bus \<Rightarrow> vl6180x \<Rightarrow> 'd \<Rightarrow> 'd option" where
  "vl6180x_configure B dev d =
     Option.bind (vl6180x_wait_fresh B dev d)
       (\<lambda>d. Some (fold (\<lambda>(reg, val). vl6180x_write_register B dev reg val) vl6180x_settings d))"

subsection \<open>The range thread\<close>

definition MILLIMETER_TO_METER :: fp where "MILLIMETER_TO_METER = f_const f32 (1 / 1000)"

text \<open>\<open>range_reader_thd\<close> up to its loop: the device, configured, and the topic.\<close>

definition range_reader_init ::
  "('t, 'b) msgbus \<Rightarrow> 'd i2c_bus \<Rightarrow> 'd \<times> 'b \<Rightarrow> (vl6180x \<times> 't \<times> 'd \<times> 'b) option" where
  "range_reader_init mb B = (\<lambda>(d, b).
     let dev = vl6180x_init VL6180X_DEFAULT_ADDRESS in
     Option.bind (vl6180x_configure B dev d) (\<lambda>d.
     let (tp, b) = mb_advertise mb ''/range'' b in Some (dev, tp, d, b)))"

definition range_round ::
  "('t, 'b) msgbus \<Rightarrow> 't \<Rightarrow> 'd i2c_bus \<Rightarrow> vl6180x \<Rightarrow> 'd \<times> 'b \<Rightarrow> ('d \<times> 'b) option" where
  "range_round mb tp B dev = (\<lambda>(d, b).
     Option.bind (vl6180x_measure_distance B dev d) (\<lambda>(_, temp, d).
     let raw = fmul f32 (f_of_int f32 (uint temp)) MILLIMETER_TO_METER
     in Some (d, mb_publish mb tp (Range_msg temp raw) b)))"

text \<open>\<open>None\<close> waits for the topic or for a first publication.\<close>

definition range_get_range :: "('t, 'b) msgbus \<Rightarrow> 'b \<Rightarrow> fp option" where
  "range_get_range mb b =
     (case mb_find mb b ''/range'' of None \<Rightarrow> None
      | Some topic \<Rightarrow> (case mb_read mb b topic of Some (Range_msg raw_mm raw) \<Rightarrow> Some raw | _ \<Rightarrow> None))"

subsection \<open>The driver of the inertial unit\<close>

definition MPU60X0_RA_SMPLRT_DIV :: u8 where "MPU60X0_RA_SMPLRT_DIV = 0x19"
definition MPU60X0_RA_CONFIG :: u8 where "MPU60X0_RA_CONFIG = 0x1A"
definition MPU60X0_RA_GYRO_CONFIG :: u8 where "MPU60X0_RA_GYRO_CONFIG = 0x1B"
definition MPU60X0_RA_ACCEL_CONFIG :: u8 where "MPU60X0_RA_ACCEL_CONFIG = 0x1C"
definition MPU60X0_RA_INT_ENABLE :: u8 where "MPU60X0_RA_INT_ENABLE = 0x38"
definition MPU60X0_RA_INT_STATUS :: u8 where "MPU60X0_RA_INT_STATUS = 0x3A"
definition MPU60X0_RA_USER_CTRL :: u8 where "MPU60X0_RA_USER_CTRL = 0x6A"
definition MPU60X0_RA_PWR_MGMT_1 :: u8 where "MPU60X0_RA_PWR_MGMT_1 = 0x6B"
definition MPU60X0_RA_WHO_AM_I :: u8 where "MPU60X0_RA_WHO_AM_I = 0x75"
definition MPU60X0_INTERRUPT_DATA_RDY :: u8 where "MPU60X0_INTERRUPT_DATA_RDY = push_bit 0 1"
definition MPU60X0_USERCTRL_I2C_IF_DIS_BIT :: u8 where "MPU60X0_USERCTRL_I2C_IF_DIS_BIT = 4"
definition MPU60X0_CLOCK_PLL_XGYRO :: u8 where "MPU60X0_CLOCK_PLL_XGYRO = 0x01"

definition MPU60X0_ACC_FULL_RANGE_2G :: u32 where "MPU60X0_ACC_FULL_RANGE_2G = push_bit 0 0"
definition MPU60X0_GYRO_FULL_RANGE_250DPS :: u32 where "MPU60X0_GYRO_FULL_RANGE_250DPS = push_bit 2 0"
definition MPU60X0_SAMPLE_RATE_DIV :: "u32 \<Rightarrow> u32" where "MPU60X0_SAMPLE_RATE_DIV x = push_bit 8 (0xff AND x)"
definition MPU60X0_LOW_PASS_FILTER_6 :: u32 where "MPU60X0_LOW_PASS_FILTER_6 = push_bit 16 6"

record mpu60X0 =
  mpu_config :: u32
  mpu_spi :: bool
  mpu_i2c :: bool
  mpu_i2c_address :: u8

text \<open>The two buses the driver can use.\<close>

record 'd mpu_port =
  port_spi :: "'d spi_bus"
  port_i2c :: "'d i2c_bus"

definition mpu60X0_reg_read :: "'d mpu_port \<Rightarrow> mpu60X0 \<Rightarrow> u8 \<Rightarrow> 'd \<Rightarrow> u8 \<times> 'd" where
  "mpu60X0_reg_read P dev reg d =
     (if mpu_spi dev
      then case port_spi P [reg OR 0x80] 1 d of (bytes, d) \<Rightarrow> (case bytes of [] \<Rightarrow> 0 | ret # _ \<Rightarrow> ret, d)
      else if mpu_i2c dev
      then case port_i2c P (mpu_i2c_address dev) [reg] 1 d of (r, d) \<Rightarrow> (case r of Some (ret # _) \<Rightarrow> ret | _ \<Rightarrow> 0, d)
      else (0, d))"

definition mpu60X0_reg_write :: "'d mpu_port \<Rightarrow> mpu60X0 \<Rightarrow> u8 \<Rightarrow> u8 \<Rightarrow> 'd \<Rightarrow> 'd" where
  "mpu60X0_reg_write P dev reg val d =
     (if mpu_spi dev then snd (port_spi P [reg, val] 0 d)
      else if mpu_i2c dev then snd (port_i2c P (mpu_i2c_address dev) [reg, val] 0 d)
      else d)"

text \<open>\<open>None\<close>: the buffer was not filled.\<close>

definition mpu60X0_reg_read_multi :: "'d mpu_port \<Rightarrow> mpu60X0 \<Rightarrow> u8 \<Rightarrow> nat \<Rightarrow> 'd \<Rightarrow> u8 list option \<times> 'd" where
  "mpu60X0_reg_read_multi P dev reg len d =
     (if mpu_spi dev then (case port_spi P [reg OR 0x80] len d of (bytes, d) \<Rightarrow> (Some bytes, d))
      else if mpu_i2c dev then port_i2c P (mpu_i2c_address dev) [reg] len d
      else (None, d))"

definition mpu60X0_init_using_spi :: "mpu60X0 \<Rightarrow> mpu60X0" where
  "mpu60X0_init_using_spi dev = dev\<lparr>mpu_spi := True, mpu_i2c := False, mpu_config := 0\<rparr>"

definition mpu60X0_init_using_i2c :: "int \<Rightarrow> mpu60X0 \<Rightarrow> mpu60X0" where
  "mpu60X0_init_using_i2c ad0_pin_value dev =
     dev\<lparr>mpu_i2c := True, mpu_spi := False, mpu_config := 0,
       mpu_i2c_address := (if ad0_pin_value = 0 then 0x68 else 0x69)\<rparr>"

partial_function (option) mpu60X0_wait_reset :: "'d mpu_port \<Rightarrow> mpu60X0 \<Rightarrow> 'd \<Rightarrow> 'd option" where
  "mpu60X0_wait_reset P dev d =
     (case mpu60X0_reg_read P dev MPU60X0_RA_PWR_MGMT_1 d of (v, d) \<Rightarrow>
        if v AND 0x80 \<noteq> 0 then mpu60X0_wait_reset P dev d else Some d)"

definition mpu60X0_setup :: "'d mpu_port \<Rightarrow> mpu60X0 \<Rightarrow> u32 \<Rightarrow> 'd \<Rightarrow> (mpu60X0 \<times> 'd) option" where
  "mpu60X0_setup P dev config d =
     (let dev = dev\<lparr>mpu_config := config\<rparr>;
          d = mpu60X0_reg_write P dev MPU60X0_RA_PWR_MGMT_1 0x80 d
      in Option.bind (mpu60X0_wait_reset P dev d) (\<lambda>d.
      let d = mpu60X0_reg_write P dev MPU60X0_RA_PWR_MGMT_1 MPU60X0_CLOCK_PLL_XGYRO d;
          d = (if mpu_spi dev then mpu60X0_reg_write P dev MPU60X0_RA_USER_CTRL MPU60X0_USERCTRL_I2C_IF_DIS_BIT d else d);
          d = mpu60X0_reg_write P dev MPU60X0_RA_GYRO_CONFIG (ucast (push_bit 1 config AND 0x18)) d;
          d = mpu60X0_reg_write P dev MPU60X0_RA_ACCEL_CONFIG (ucast (push_bit 3 config AND 0x18)) d;
          d = mpu60X0_reg_write P dev MPU60X0_RA_SMPLRT_DIV (ucast (drop_bit 8 config AND 0xff)) d;
          d = mpu60X0_reg_write P dev MPU60X0_RA_INT_ENABLE MPU60X0_INTERRUPT_DATA_RDY d;
          d = mpu60X0_reg_write P dev MPU60X0_RA_CONFIG (ucast (drop_bit 16 config AND 0x07)) d
      in Some (dev, d)))"

definition mpu60X0_ping :: "'d mpu_port \<Rightarrow> mpu60X0 \<Rightarrow> 'd \<Rightarrow> bool \<times> 'd" where
  "mpu60X0_ping P dev d = (case mpu60X0_reg_read P dev MPU60X0_RA_WHO_AM_I d of (v, d) \<Rightarrow> (v = 0x68, d))"

definition mpu60X0_self_test :: "mpu60X0 \<Rightarrow> bool" where
  "mpu60X0_self_test dev = True"

text \<open>The result is an \<open>int32_t\<close>; shifting a negative \<open>int\<close> is taken as the compiler documents it.\<close>

definition read_word :: "u8 \<Rightarrow> u8 \<Rightarrow> u32" where
  "read_word b0 b1 = push_bit 8 (scast b0) OR ucast b1"

definition MPU_M_PI :: fp where
  "MPU_M_PI = f_const f64 (314159265358979323846 / 10 ^ 20)"

definition DEG2RAD :: "fp \<Rightarrow> fp" where
  "DEG2RAD deg = fmul f64 (f_conv f64 (fdiv f32 deg (f_of_int f32 180))) MPU_M_PI"

definition gyro_res :: "fp list" where
  "gyro_res = map (\<lambda>c. f_conv f32 (DEG2RAD (fdiv f32 (f_of_int f32 1) (f_const f32 c)))) [131, 655 / 10, 328 / 10, 164 / 10]"

definition STANDARD_GRAVITY :: fp where "STANDARD_GRAVITY = f_const f32 (980665 / 100000)"

definition acc_res :: "fp list" where
  "acc_res = map (\<lambda>c. fdiv f32 STANDARD_GRAVITY (f_const f32 c)) [16384, 8192, 4096, 2048]"

text \<open>One axis: the word at an offset of the buffer, scaled.\<close>

definition scaled_word :: "u8 list \<Rightarrow> nat \<Rightarrow> fp \<Rightarrow> fp" where
  "scaled_word buf i res = fmul f32 (f_of_int f32 (sint (read_word (buf ! i) (buf ! (i + 1))))) res"

text \<open>The flags say which of the pointers \<open>gyro\<close>, \<open>acc\<close> and \<open>temp\<close> is not \<open>NULL\<close>.\<close>

definition mpu60X0_read ::
  "'d mpu_port \<Rightarrow> mpu60X0 \<Rightarrow> bool \<Rightarrow> bool \<Rightarrow> bool \<Rightarrow> 'd \<Rightarrow> (fp list option \<times> fp list option \<times> fp option \<times> 'd) option" where
  "mpu60X0_read P dev gyro acc temp d =
     (case mpu60X0_reg_read_multi P dev MPU60X0_RA_INT_STATUS (1 + 6 + 2 + 6) d of (buf, d) \<Rightarrow>
        Option.bind buf (\<lambda>buf.
        let ar = acc_res ! unat (mpu_config dev AND 0x3);
            gr = gyro_res ! unat (drop_bit 2 (mpu_config dev) AND 0x3)
        in Some
          (if gyro then Some [scaled_word buf 9 gr, scaled_word buf 11 gr, scaled_word buf 13 gr] else None,
           if acc then Some [scaled_word buf 1 ar, scaled_word buf 3 ar, scaled_word buf 5 ar] else None,
           if temp then Some (fadd f32 (fdiv f32 (f_of_int f32 (sint (read_word (buf ! 7) (buf ! 8)))) (f_of_int f32 340))
              (f_const f32 (3653 / 100))) else None,
           d)))"

subsection \<open>The thread of the inertial unit and the external interrupts\<close>

partial_function (option) imu_wait_ping :: "'d mpu_port \<Rightarrow> mpu60X0 \<Rightarrow> 'd \<Rightarrow> 'd option" where
  "imu_wait_ping P dev d =
     (case mpu60X0_ping P dev d of (ok, d) \<Rightarrow> if ok then Some d else imu_wait_ping P dev d)"

definition imu_low_level_init :: "'d mpu_port \<Rightarrow> mpu60X0 \<Rightarrow> 'd \<Rightarrow> (mpu60X0 \<times> 'd) option" where
  "imu_low_level_init P mpu d =
     (let mpu = mpu60X0_init_using_spi mpu in
      Option.bind (imu_wait_ping P mpu d)
        (mpu60X0_setup P mpu (MPU60X0_ACC_FULL_RANGE_2G OR MPU60X0_GYRO_FULL_RANGE_250DPS
           OR MPU60X0_SAMPLE_RATE_DIV 100 OR MPU60X0_LOW_PASS_FILTER_6)))"

text \<open>One round of \<open>imu_reader_thd\<close>, after the event that a measurement is ready.\<close>

definition imu_round ::
  "('t, 'b) msgbus \<Rightarrow> 't \<Rightarrow> 'd mpu_port \<Rightarrow> mpu60X0 \<Rightarrow> 'd \<times> 'b \<Rightarrow> ('d \<times> 'b) option" where
  "imu_round mb tp P dev = (\<lambda>(d, b).
     Option.bind (mpu60X0_read P dev True True False d) (\<lambda>(gyro, acc, _, d).
     Option.bind gyro (\<lambda>roll_rate. Option.bind acc (\<lambda>acceleration.
     Some (d, mb_publish mb tp (Imu_msg acceleration roll_rate) b)))))"

definition GPIOF_IMU_INT :: nat where "GPIOF_IMU_INT = 11"
definition EXTI_EVENT_MPU6000_INT :: u32 where "EXTI_EVENT_MPU6000_INT = 1"

datatype ext_channel = Ext_disabled | Ext_gpiof_rising_edge

definition extcfg :: "ext_channel list" where
  "extcfg = [Ext_disabled, Ext_disabled, Ext_disabled, Ext_disabled, Ext_disabled, Ext_disabled,
     Ext_disabled, Ext_disabled, Ext_disabled, Ext_disabled, Ext_disabled, Ext_gpiof_rising_edge,
     Ext_disabled, Ext_disabled, Ext_disabled, Ext_disabled, Ext_disabled, Ext_disabled,
     Ext_disabled, Ext_disabled, Ext_disabled, Ext_disabled, Ext_disabled]"

text \<open>The flags that the callback adds to those pending on \<open>exti_events\<close>.\<close>

definition gpio_exti_callback :: "nat \<Rightarrow> u32 \<Rightarrow> u32" where
  "gpio_exti_callback channel flags =
     (if channel = GPIOF_IMU_INT then flags OR EXTI_EVENT_MPU6000_INT else flags)"

lemma exti_only_imu:
  "i < length extcfg \<Longrightarrow> (extcfg ! i \<noteq> Ext_disabled) = (gpio_exti_callback i 0 = EXTI_EVENT_MPU6000_INT)"
  by (auto simp: extcfg_def gpio_exti_callback_def GPIOF_IMU_INT_def EXTI_EVENT_MPU6000_INT_def nth_Cons' split: if_splits)

subsection \<open>The range sensor returns\<close>

text \<open>The observers: \<open>busy\<close> and \<open>pending\<close> are the numbers of status reads before the sensor is ready and
  before the measurement is, \<open>measured\<close> and \<open>error_code\<close> its result.\<close>

lemma error_nibble:
  assumes "w < 16"
  shows "drop_bit 4 (push_bit 4 w) = (w :: u8)"
proof -
  have "take_bit 4 w = w"
    using assms by (simp add: word_unat_eq_iff unsigned_take_bit_eq take_bit_nat_eq_self word_less_nat_alt)
  then have "bit w n \<longleftrightarrow> n < 4 \<and> bit w n" for n by (metis bit_take_bit_iff)
  then show ?thesis by (intro bit_word_eqI) (auto simp: bit_simps)
qed

locale vl6180x_sensor =
  fixes B :: "'d i2c_bus" and dev :: vl6180x
    and busy :: "'d \<Rightarrow> nat" and pending :: "'d \<Rightarrow> nat" and measured :: "'d \<Rightarrow> u8" and error_code :: "'d \<Rightarrow> u8"
  assumes error_small: "error_code d < 16"
    and read_status: "\<exists>d'. vl6180x_read_register B dev VL6180X_RESULT_RANGE_STATUS d
          = Some (push_bit 4 (error_code d) OR of_bool (busy d = 0), d')
        \<and> busy d' = busy d - 1 \<and> measured d' = measured d \<and> error_code d' = error_code d"
    and read_interrupt: "\<exists>d'. vl6180x_read_register B dev VL6180X_RESULT_INTERRUPT_STATUS_GPIO d
          = Some (if pending d = 0 then 4 else 0, d')
        \<and> pending d' = pending d - 1 \<and> measured d' = measured d \<and> error_code d' = error_code d"
    and read_value: "\<exists>d'. vl6180x_read_register B dev VL6180X_RESULT_RANGE_VAL d = Some (measured d, d')
        \<and> error_code d' = error_code d"
    and clear_interrupt: "error_code (vl6180x_write_register B dev VL6180X_SYSTEM_INTERRUPT_CLEAR 0x07 d) = error_code d"
begin

lemma poll_status:
  "\<exists>d'. vl6180x_poll B dev VL6180X_RESULT_RANGE_STATUS 1 d = Some (push_bit 4 (error_code d) OR 1, d')
    \<and> error_code d' = error_code d"
proof (induction "busy d" arbitrary: d)
  case 0
  then obtain d' where "vl6180x_read_register B dev VL6180X_RESULT_RANGE_STATUS d = Some (push_bit 4 (error_code d) OR 1, d')"
      "error_code d' = error_code d"
    using read_status[of d] by auto
  moreover have "(push_bit 4 (error_code d) OR 1) AND 1 \<noteq> (0 :: u8)"
    by (metis bit.conj_disj_distrib2 and.right_neutral or_eq_0_iff and.idem zero_neq_one)
  ultimately show ?case by (subst vl6180x_poll.simps) auto
next
  case (Suc n)
  obtain d1 where d1: "vl6180x_read_register B dev VL6180X_RESULT_RANGE_STATUS d = Some (push_bit 4 (error_code d), d1)"
      "busy d1 = n" "error_code d1 = error_code d"
    using read_status[of d] Suc.hyps(2) by auto
  have z: "push_bit 4 (error_code d) AND 1 = (0 :: u8)"
    by (rule bit_word_eqI) (auto simp: bit_simps)
  obtain d' where "vl6180x_poll B dev VL6180X_RESULT_RANGE_STATUS 1 d1 = Some (push_bit 4 (error_code d1) OR 1, d')"
      "error_code d' = error_code d1"
    using Suc.hyps(1)[OF d1(2)[symmetric]] by auto
  then show ?case using d1 z by (subst vl6180x_poll.simps) auto
qed

lemma poll_interrupt:
  "\<exists>s d'. vl6180x_poll B dev VL6180X_RESULT_INTERRUPT_STATUS_GPIO 4 d = Some (s, d')
    \<and> measured d' = measured d \<and> error_code d' = error_code d"
proof (induction "pending d" arbitrary: d)
  case 0
  then show ?case using read_interrupt[of d] by (subst vl6180x_poll.simps) auto
next
  case (Suc n)
  obtain d1 where d1: "vl6180x_read_register B dev VL6180X_RESULT_INTERRUPT_STATUS_GPIO d = Some (0, d1)"
      "pending d1 = n" "measured d1 = measured d" "error_code d1 = error_code d"
    using read_interrupt[of d] Suc.hyps(2) by auto
  show ?case
    using Suc.hyps(1)[OF d1(2)[symmetric]] d1 by (subst vl6180x_poll.simps) auto
qed

lemma measure_distance:
  "\<exists>d0 d'. vl6180x_poll B dev VL6180X_RESULT_RANGE_STATUS 1 d = Some d0
    \<and> (let d1 = vl6180x_write_register B dev VL6180X_SYSRANGE_START 0x01 (snd d0)
       in vl6180x_measure_distance B dev d = Some (error_code d1, measured d1, d'))"
proof -
  obtain d0 where d0: "vl6180x_poll B dev VL6180X_RESULT_RANGE_STATUS 1 d = Some (push_bit 4 (error_code d) OR 1, d0)"
    using poll_status by blast
  let ?d1 = "vl6180x_write_register B dev VL6180X_SYSRANGE_START 0x01 d0"
  obtain s d2 where d2: "vl6180x_poll B dev VL6180X_RESULT_INTERRUPT_STATUS_GPIO 4 ?d1 = Some (s, d2)"
      "measured d2 = measured ?d1" "error_code d2 = error_code ?d1"
    using poll_interrupt by blast
  obtain d3 where d3: "vl6180x_read_register B dev VL6180X_RESULT_RANGE_VAL d2 = Some (measured d2, d3)"
      "error_code d3 = error_code d2"
    using read_value by blast
  let ?d4 = "vl6180x_write_register B dev VL6180X_SYSTEM_INTERRUPT_CLEAR 0x07 d3"
  obtain d5 where d5: "vl6180x_poll B dev VL6180X_RESULT_RANGE_STATUS 1 ?d4 = Some (push_bit 4 (error_code ?d4) OR 1, d5)"
    using poll_status by blast
  show ?thesis
    by (rule exI[of _ "(push_bit 4 (error_code d) OR 1, d0)"], rule exI[of _ d5])
      (simp add: vl6180x_measure_distance_def d0 d2 d3 d5 error_nibble[OF error_small] clear_interrupt Let_def)
qed

end

text \<open>A reference sensor: a script of measurements, each with its duration, its distance and its error code,
  and the delay until the sensor is ready again.\<close>

record ref_range =
  rr_busy :: nat
  rr_pending :: nat
  rr_mm :: u8
  rr_error :: u8
  rr_script :: "(nat \<times> u8 \<times> u8 \<times> nat) list"

definition ref_range_i2c :: "ref_range i2c_bus" where
  "ref_range_i2c addr tx n d =
     (if tx = [0, 0x4d] then (Some [push_bit 4 (take_bit 4 (rr_error d)) OR of_bool (rr_busy d = 0)], d\<lparr>rr_busy := rr_busy d - 1\<rparr>)
      else if tx = [0, 0x4f] then (Some [if rr_pending d = 0 then 4 else 0], d\<lparr>rr_pending := rr_pending d - 1\<rparr>)
      else if tx = [0, 0x62] then (Some [rr_mm d], d)
      else if tx = [0, 0x16] then (Some [1], d)
      else if tx = [0, 0x18, 0x01]
      then (case rr_script d of [] \<Rightarrow> (None, d)
        | (p, mm, err, busy) # sc \<Rightarrow> (None, \<lparr>rr_busy = busy, rr_pending = p, rr_mm = mm, rr_error = err, rr_script = sc\<rparr>))
      else (None, d))"

lemma take_bit_4_less: "take_bit 4 (w :: u8) < 16"
  using take_bit_nat_less_exp[of 4 "unat w"] by (simp add: word_less_nat_alt unsigned_take_bit_eq)

interpretation ref_range_sensor: vl6180x_sensor ref_range_i2c dev rr_busy rr_pending rr_mm "\<lambda>d. take_bit 4 (rr_error d)"
  by unfold_locales
    (auto simp: ref_range_i2c_def vl6180x_read_register_def vl6180x_write_register_def take_bit_4_less
      VL6180X_RESULT_RANGE_STATUS_def VL6180X_RESULT_INTERRUPT_STATUS_GPIO_def VL6180X_RESULT_RANGE_VAL_def
      VL6180X_SYSTEM_INTERRUPT_CLEAR_def)

text \<open>C22. A round of the range thread always ends: the polling loops stop on every sensor that becomes
  ready and finishes its measurements, the distance the sensor measured is published in millimetres and
  in metres, and the error code that the driver returns plays no part: an invalid measurement is
  published like a valid one.\<close>
theorem range_published:
  assumes "vl6180x_sensor B dev busy pending measured error_code"
  shows "\<exists>s d0 d'. let d1 = vl6180x_write_register B dev VL6180X_SYSRANGE_START 0x01 d0 in
    vl6180x_poll B dev VL6180X_RESULT_RANGE_STATUS 1 d = Some (s, d0)
    \<and> vl6180x_measure_distance B dev d = Some (error_code d1, measured d1, d')
    \<and> range_round mb tp B dev (d, b) = Some (d', mb_publish mb tp
        (Range_msg (measured d1) (fmul f32 (f_of_int f32 (uint (measured d1))) MILLIMETER_TO_METER)) b)"
proof -
  obtain s d0 d' where "vl6180x_poll B dev VL6180X_RESULT_RANGE_STATUS 1 d = Some (s, d0)"
    "vl6180x_measure_distance B dev d = Some (error_code (vl6180x_write_register B dev VL6180X_SYSRANGE_START 0x01 d0),
      measured (vl6180x_write_register B dev VL6180X_SYSRANGE_START 0x01 d0), d')"
    using vl6180x_sensor.measure_distance[OF assms, of d] by (auto simp: Let_def)
  then show ?thesis
    by (intro exI[of _ s] exI[of _ d0] exI[of _ d']) (simp add: range_round_def Let_def)
qed

theorem range_published_witness:
  "\<exists>s d0 d'. let d1 = vl6180x_write_register ref_range_i2c \<lparr>vl_address = 0x29\<rparr> VL6180X_SYSRANGE_START 0x01 d0;
        d = \<lparr>rr_busy = 2, rr_pending = 0, rr_mm = 0, rr_error = 0, rr_script = [(3, 255, 7, 1)]\<rparr> in
    vl6180x_poll ref_range_i2c \<lparr>vl_address = 0x29\<rparr> VL6180X_RESULT_RANGE_STATUS 1 d = Some (s, d0)
    \<and> vl6180x_measure_distance ref_range_i2c \<lparr>vl_address = 0x29\<rparr> d = Some (take_bit 4 (rr_error d1), rr_mm d1, d')
    \<and> range_round ref_msgbus ''/range'' ref_range_i2c \<lparr>vl_address = 0x29\<rparr> (d, \<lparr>rb_topics = [], rb_values = []\<rparr>) = Some (d', mb_publish ref_msgbus ''/range''
        (Range_msg (rr_mm d1) (fmul f32 (f_of_int f32 (uint (rr_mm d1))) MILLIMETER_TO_METER)) \<lparr>rb_topics = [], rb_values = []\<rparr>)"
  unfolding Let_def
  by (rule range_published[OF ref_range_sensor.vl6180x_sensor_axioms, unfolded Let_def])

subsection \<open>The inertial unit keeps its configuration\<close>

text \<open>The observers: \<open>regs\<close> are the registers, \<open>resetting\<close> the number of reads before a reset is over.\<close>

locale mpu_device =
  fixes P :: "'d mpu_port" and regs :: "'d \<Rightarrow> u8 \<Rightarrow> u8" and resetting :: "'d \<Rightarrow> nat"
  assumes write_register: "resetting d = 0 \<Longrightarrow> r < 0x80 \<Longrightarrow> r \<noteq> MPU60X0_RA_PWR_MGMT_1 \<or> v AND 0x80 = 0 \<Longrightarrow>
      regs (snd (port_spi P [r, v] 0 d)) = (regs d)(r := v) \<and> resetting (snd (port_spi P [r, v] 0 d)) = 0"
    and read_power: "\<exists>v d'. port_spi P [MPU60X0_RA_PWR_MGMT_1 OR 0x80] 1 d = ([v], d')
      \<and> (v AND 0x80 \<noteq> 0 \<longleftrightarrow> resetting d \<noteq> 0) \<and> resetting d' = resetting d - 1"
    and who_am_i: "fst (port_spi P [MPU60X0_RA_WHO_AM_I OR 0x80] 1 d) = [0x68]"
    and burst: "length (fst (port_spi P [MPU60X0_RA_INT_STATUS OR 0x80] 15 d)) = 15"
begin

lemma wait_reset:
  assumes "mpu_spi dev"
  shows "\<exists>d'. mpu60X0_wait_reset P dev d = Some d' \<and> resetting d' = 0"
proof (induction "resetting d" arbitrary: d)
  case 0
  then show ?case
    using read_power[of d] assms by (subst mpu60X0_wait_reset.simps) (auto simp: mpu60X0_reg_read_def)
next
  case (Suc n)
  obtain v d1 where d1: "port_spi P [MPU60X0_RA_PWR_MGMT_1 OR 0x80] 1 d = ([v], d1)" "v AND 0x80 \<noteq> 0" "resetting d1 = n"
    using read_power[of d] Suc.hyps(2) by auto
  show ?case
    using Suc.hyps(1)[OF d1(3)[symmetric]] d1 assms
    by (subst mpu60X0_wait_reset.simps) (auto simp: mpu60X0_reg_read_def)
qed

lemma write_spi:
  assumes "mpu_spi dev" "resetting d = 0" "r < 0x80" "r \<noteq> MPU60X0_RA_PWR_MGMT_1 \<or> v AND 0x80 = 0"
  shows "regs (mpu60X0_reg_write P dev r v d) = (regs d)(r := v)" "resetting (mpu60X0_reg_write P dev r v d) = 0"
  using write_register[OF assms(2-4)] assms(1) by (simp_all add: mpu60X0_reg_write_def)

lemma setup_registers:
  assumes "mpu_spi dev"
  shows "\<exists>d'. mpu60X0_setup P dev config d = Some (dev\<lparr>mpu_config := config\<rparr>, d')
    \<and> regs d' MPU60X0_RA_PWR_MGMT_1 = MPU60X0_CLOCK_PLL_XGYRO
    \<and> regs d' MPU60X0_RA_USER_CTRL = 4
    \<and> regs d' MPU60X0_RA_GYRO_CONFIG = ucast (push_bit 1 config AND 0x18)
    \<and> regs d' MPU60X0_RA_ACCEL_CONFIG = ucast (push_bit 3 config AND 0x18)
    \<and> regs d' MPU60X0_RA_SMPLRT_DIV = ucast (drop_bit 8 config AND 0xff)
    \<and> regs d' MPU60X0_RA_INT_ENABLE = MPU60X0_INTERRUPT_DATA_RDY
    \<and> regs d' MPU60X0_RA_CONFIG = ucast (drop_bit 16 config AND 0x07)"
proof -
  let ?dev = "dev\<lparr>mpu_config := config\<rparr>"
  have s: "mpu_spi ?dev" using assms by simp
  obtain d1 where d1: "mpu60X0_wait_reset P ?dev (mpu60X0_reg_write P ?dev MPU60X0_RA_PWR_MGMT_1 0x80 d) = Some d1" "resetting d1 = 0"
    using wait_reset[OF s] by blast
  have lt: "MPU60X0_RA_PWR_MGMT_1 < 0x80" "MPU60X0_RA_USER_CTRL < 0x80" "MPU60X0_RA_GYRO_CONFIG < 0x80"
      "MPU60X0_RA_ACCEL_CONFIG < 0x80" "MPU60X0_RA_SMPLRT_DIV < 0x80" "MPU60X0_RA_INT_ENABLE < 0x80" "MPU60X0_RA_CONFIG < 0x80"
    by code_simp+
  have ne: "distinct [MPU60X0_RA_PWR_MGMT_1, MPU60X0_RA_USER_CTRL, MPU60X0_RA_GYRO_CONFIG, MPU60X0_RA_ACCEL_CONFIG,
      MPU60X0_RA_SMPLRT_DIV, MPU60X0_RA_INT_ENABLE, MPU60X0_RA_CONFIG]"
    by code_simp
  have en: "distinct (rev [MPU60X0_RA_PWR_MGMT_1, MPU60X0_RA_USER_CTRL, MPU60X0_RA_GYRO_CONFIG, MPU60X0_RA_ACCEL_CONFIG,
      MPU60X0_RA_SMPLRT_DIV, MPU60X0_RA_INT_ENABLE, MPU60X0_RA_CONFIG])"
    using ne by (simp only: distinct_rev)
  have c: "MPU60X0_CLOCK_PLL_XGYRO AND 0x80 = 0" by code_simp
  note w = write_spi[OF s]
  show ?thesis
    using ne en assms unfolding mpu60X0_setup_def Let_def
    by (simp add: d1 w lt c MPU60X0_USERCTRL_I2C_IF_DIS_BIT_def)
qed


lemma low_level_init:
  "\<exists>d1. imu_low_level_init P mpu d = mpu60X0_setup P (mpu60X0_init_using_spi mpu) 0x066400 d1"
proof -
  have w: "MPU60X0_ACC_FULL_RANGE_2G OR MPU60X0_GYRO_FULL_RANGE_250DPS OR MPU60X0_SAMPLE_RATE_DIV 100 OR MPU60X0_LOW_PASS_FILTER_6 = 0x066400"
    by code_simp
  have "imu_wait_ping P (mpu60X0_init_using_spi mpu) d = Some (snd (port_spi P [MPU60X0_RA_WHO_AM_I OR 0x80] 1 d))"
    using who_am_i[of d] by (subst imu_wait_ping.simps)
      (auto simp: mpu60X0_ping_def mpu60X0_reg_read_def mpu60X0_init_using_spi_def split: prod.splits)
  then show ?thesis by (auto simp: imu_low_level_init_def w Let_def)
qed

lemma read_all:
  assumes "mpu_spi dev"
  shows "\<exists>buf d'. length buf = 15 \<and> mpu60X0_read P dev True True False d =
    Some (Some (map (\<lambda>i. scaled_word buf i (gyro_res ! unat (drop_bit 2 (mpu_config dev) AND 0x3))) [9, 11, 13]),
      Some (map (\<lambda>i. scaled_word buf i (acc_res ! unat (mpu_config dev AND 0x3))) [1, 3, 5]), None, d')"
  using burst[of d] assms
  by (intro exI[of _ "fst (port_spi P [MPU60X0_RA_INT_STATUS OR 0x80] 15 d)"]
      exI[of _ "snd (port_spi P [MPU60X0_RA_INT_STATUS OR 0x80] 15 d)"])
    (simp add: mpu60X0_read_def mpu60X0_reg_read_multi_def Let_def split: prod.split)

end

text \<open>The full-scale field of the two configuration registers.\<close>

definition full_scale :: "u8 \<Rightarrow> nat" where
  "full_scale r = unat (drop_bit 3 r AND 0x3)"

lemma full_scale_fields:
  "full_scale (ucast (push_bit 1 config AND 0x18 :: u32)) = unat (drop_bit 2 config AND 0x3)"
  "full_scale (ucast (push_bit 3 config AND 0x18 :: u32)) = unat (config AND 0x3)"
proof -
  have m: "(0x3 :: u32) = mask 2" "(0x3 :: u8) = mask 2" "(0x18 :: u32) = push_bit 3 (mask 2)"
    by (simp_all add: mask_eq_exp_minus_1)
  have "drop_bit 3 (ucast (push_bit 1 config AND 0x18) :: u8) AND 0x3 = ucast (drop_bit 2 config AND 0x3)"
    unfolding m by (rule bit_word_eqI) (auto simp: bit_simps mult.commute[of config 2] bit_double_iff)
  moreover have "drop_bit 3 (ucast (push_bit 3 config AND 0x18) :: u8) AND 0x3 = ucast (config AND 0x3)"
    unfolding m by (rule bit_word_eqI) (auto simp: bit_simps)
  moreover have "unat (ucast (w AND 0x3) :: u8) = unat (w AND 0x3)" for w :: u32
  proof -
    have "unat (w AND 0x3) \<le> 3" using word_and_le1[of w 3] by (simp add: word_le_nat_alt)
    then show ?thesis by (simp add: unsigned_ucast_eq take_bit_nat_eq_self)
  qed
  ultimately show "full_scale (ucast (push_bit 1 config AND 0x18 :: u32)) = unat (drop_bit 2 config AND 0x3)"
    "full_scale (ucast (push_bit 3 config AND 0x18 :: u32)) = unat (config AND 0x3)"
    by (simp_all only: full_scale_def)
qed

lemma read_word_value: "sint (read_word b0 b1) = sint b0 * 256 + uint b1"
proof -
  have "push_bit 8 (scast b0 :: u32) OR ucast b1 = push_bit 8 (scast b0) + ucast b1"
    by (rule disjunctive_add[symmetric]) (auto simp: bit_simps dest: bit_imp_le_length)
  also have "\<dots> = word_of_int (sint b0 * 256 + uint b1)"
    by (simp add: push_bit_eq_mult)
  finally have r: "read_word b0 b1 = word_of_int (sint b0 * 256 + uint b1)" by (simp add: read_word_def)
  have "- 128 \<le> sint b0" "sint b0 < 128" using sint_ge[of b0] sint_lt[of b0] by simp_all
  moreover have "0 \<le> uint b1" "uint b1 < 256" using unsigned_less[of b1, where ?'a = int] by simp_all
  ultimately have "- 32768 \<le> sint b0 * 256 + uint b1" "sint b0 * 256 + uint b1 < 32768" by linarith+
  then show ?thesis unfolding r by (intro sint_of_int32) simp_all
qed

text \<open>Each full scale halves the resolution.\<close>

lemma resolutions:
  "map (\<lambda>r. fdiv f32 r (hd acc_res)) acc_res = map (f_const f32) [1, 2, 4, 8]"
  by code_simp

lemma resolution_tables: "length acc_res = 4" "length gyro_res = 4"
  by (simp_all add: acc_res_def gyro_res_def)

text \<open>A reference device: registers that read back, a reset that takes a number of reads, and a burst of
  measurement bytes.\<close>

record ref_mpu =
  rm_regs :: "u8 \<Rightarrow> u8"
  rm_resetting :: nat
  rm_burst :: "u8 list"

definition ref_mpu_spi :: "ref_mpu spi_bus" where
  "ref_mpu_spi tx n d =
     (case tx of
        [r] \<Rightarrow> if r = MPU60X0_RA_PWR_MGMT_1 OR 0x80
               then ([if rm_resetting d = 0 then rm_regs d MPU60X0_RA_PWR_MGMT_1 AND 0x7F else 0x80], d\<lparr>rm_resetting := rm_resetting d - 1\<rparr>)
               else if r = MPU60X0_RA_WHO_AM_I OR 0x80 then ([0x68], d)
               else (take n (rm_burst d @ replicate n 0), d)
      | [r, v] \<Rightarrow> if r = MPU60X0_RA_PWR_MGMT_1 \<and> v AND 0x80 \<noteq> 0 then ([], d\<lparr>rm_regs := (\<lambda>_. 0), rm_resetting := 3\<rparr>)
                  else ([], d\<lparr>rm_regs := (rm_regs d)(r := v)\<rparr>)
      | _ \<Rightarrow> ([], d))"

definition ref_mpu_port :: "ref_mpu mpu_port" where
  "ref_mpu_port = \<lparr>port_spi = ref_mpu_spi, port_i2c = (\<lambda>_ _ _ d. (None, d))\<rparr>"

interpretation ref_mpu: mpu_device ref_mpu_port rm_regs rm_resetting
proof
  show "\<exists>v d'. port_spi ref_mpu_port [MPU60X0_RA_PWR_MGMT_1 OR 0x80] 1 d = ([v], d')
      \<and> (v AND 0x80 \<noteq> 0 \<longleftrightarrow> rm_resetting d \<noteq> 0) \<and> rm_resetting d' = rm_resetting d - 1" for d :: ref_mpu
  proof -
    have "(w AND 0x7F) AND 0x80 = (0 :: u8)" for w :: u8
      by (simp add: and.assoc)
    then show ?thesis by (simp add: ref_mpu_port_def ref_mpu_spi_def)
  qed
qed (auto simp: ref_mpu_port_def ref_mpu_spi_def MPU60X0_RA_WHO_AM_I_def MPU60X0_RA_PWR_MGMT_1_def MPU60X0_RA_INT_STATUS_def)

text \<open>C23. Setting up the inertial unit over SPI ends on every device whose reset ends, and leaves in its
  registers exactly the fields of the configuration word; a reading that follows scales the six words
  of the burst with the resolutions of the full scales that the device was given. The user control
  register is written with 4, the number of the bit that disables the I2C interface, where the mask of
  the bit is 16.\<close>
theorem imu_scales:
  assumes "mpu_device P regs resetting" "mpu_spi dev"
  shows "\<exists>d' buf d''. mpu60X0_setup P dev config d = Some (dev\<lparr>mpu_config := config\<rparr>, d')
    \<and> regs d' MPU60X0_RA_PWR_MGMT_1 = MPU60X0_CLOCK_PLL_XGYRO \<and> regs d' MPU60X0_RA_USER_CTRL = 4
    \<and> regs d' MPU60X0_RA_SMPLRT_DIV = ucast (drop_bit 8 config AND 0xff)
    \<and> regs d' MPU60X0_RA_CONFIG = ucast (drop_bit 16 config AND 0x07)
    \<and> regs d' MPU60X0_RA_INT_ENABLE = 1 \<and> length buf = 15
    \<and> mpu60X0_read P (dev\<lparr>mpu_config := config\<rparr>) True True False d' = Some
        (Some (map (\<lambda>i. scaled_word buf i (gyro_res ! full_scale (regs d' MPU60X0_RA_GYRO_CONFIG))) [9, 11, 13]),
         Some (map (\<lambda>i. scaled_word buf i (acc_res ! full_scale (regs d' MPU60X0_RA_ACCEL_CONFIG))) [1, 3, 5]), None, d'')"
proof -
  obtain d' where d': "mpu60X0_setup P dev config d = Some (dev\<lparr>mpu_config := config\<rparr>, d')"
    and r: "regs d' MPU60X0_RA_PWR_MGMT_1 = MPU60X0_CLOCK_PLL_XGYRO" "regs d' MPU60X0_RA_USER_CTRL = 4"
      "regs d' MPU60X0_RA_GYRO_CONFIG = ucast (push_bit 1 config AND 0x18)"
      "regs d' MPU60X0_RA_ACCEL_CONFIG = ucast (push_bit 3 config AND 0x18)"
      "regs d' MPU60X0_RA_SMPLRT_DIV = ucast (drop_bit 8 config AND 0xff)"
      "regs d' MPU60X0_RA_INT_ENABLE = MPU60X0_INTERRUPT_DATA_RDY"
      "regs d' MPU60X0_RA_CONFIG = ucast (drop_bit 16 config AND 0x07)"
    using mpu_device.setup_registers[OF assms, of config d] by blast
  obtain buf d'' where "length buf = 15" "mpu60X0_read P (dev\<lparr>mpu_config := config\<rparr>) True True False d' =
      Some (Some (map (\<lambda>i. scaled_word buf i (gyro_res ! unat (drop_bit 2 config AND 0x3))) [9, 11, 13]),
        Some (map (\<lambda>i. scaled_word buf i (acc_res ! unat (config AND 0x3))) [1, 3, 5]), None, d'')"
    using mpu_device.read_all[OF assms(1), of "dev\<lparr>mpu_config := config\<rparr>" d'] assms(2) by auto
  then show ?thesis
    using d' r by (intro exI[of _ d'] exI[of _ buf] exI[of _ d''])
      (simp only: full_scale_fields MPU60X0_INTERRUPT_DATA_RDY_def push_bit_0_id id_apply simp_thms)
qed

theorem imu_scales_witness:
  "\<exists>d' buf d''. mpu60X0_setup ref_mpu_port (mpu60X0_init_using_spi \<lparr>mpu_config = 0, mpu_spi = False, mpu_i2c = False, mpu_i2c_address = 0\<rparr>) 0x060D0A \<lparr>rm_regs = (\<lambda>_. 0x55), rm_resetting = 0, rm_burst = replicate 14 7\<rparr>
      = Some ((mpu60X0_init_using_spi \<lparr>mpu_config = 0, mpu_spi = False, mpu_i2c = False, mpu_i2c_address = 0\<rparr>)\<lparr>mpu_config := 0x060D0A\<rparr>, d')
    \<and> rm_regs d' MPU60X0_RA_PWR_MGMT_1 = MPU60X0_CLOCK_PLL_XGYRO \<and> rm_regs d' MPU60X0_RA_USER_CTRL = 4
    \<and> rm_regs d' MPU60X0_RA_SMPLRT_DIV = ucast (drop_bit 8 (0x060D0A :: u32) AND 0xff)
    \<and> rm_regs d' MPU60X0_RA_CONFIG = ucast (drop_bit 16 (0x060D0A :: u32) AND 0x07)
    \<and> rm_regs d' MPU60X0_RA_INT_ENABLE = 1 \<and> length buf = 15
    \<and> mpu60X0_read ref_mpu_port ((mpu60X0_init_using_spi \<lparr>mpu_config = 0, mpu_spi = False, mpu_i2c = False, mpu_i2c_address = 0\<rparr>)\<lparr>mpu_config := 0x060D0A\<rparr>) True True False d' = Some
        (Some (map (\<lambda>i. scaled_word buf i (gyro_res ! full_scale (rm_regs d' MPU60X0_RA_GYRO_CONFIG))) [9, 11, 13]),
         Some (map (\<lambda>i. scaled_word buf i (acc_res ! full_scale (rm_regs d' MPU60X0_RA_ACCEL_CONFIG))) [1, 3, 5]), None, d'')"
  by (rule imu_scales[OF ref_mpu.mpu_device_axioms]) (simp add: mpu60X0_init_using_spi_def)

end
