(* ===== verification/Body_Leds.thy ===== *)
theory Body_Leds
  imports Spi_I2c_Sensors Aseba_Vars
begin

section \<open>The body LEDs (\<open>src/body_leds.c\<close>)\<close>

text \<open>
  Twelve topics \<open>/body_leds/0\<close> to \<open>/body_leds/11\<close> hold the brightness of a LED between 0 and 1. A thread
  polls them and writes the current of the LED to the register of its output in the LED driver, over
  I2C. The driver chip is a parameter: the locale \<open>led_driver\<close> says that a write of two bytes sets a
  register, and is interpreted on a register file. A topic that holds no LED message, and a brightness
  whose current does not fit an \<open>int\<close>, are undefined (\<open>None\<close>). \<open>body_led_currents\<close> states which registers
  a round writes and with what.
\<close>

definition LED_DRIVER_ADDRESS :: u8 where "LED_DRIVER_ADDRESS = 0x1c"
definition LED_BRIGHNESS_MAX_VALUE :: int where "LED_BRIGHNESS_MAX_VALUE = 31"

definition led_output_mapping :: "int list" where
  "led_output_mapping = [16, 17, 4, 5, 6, 13, 14, 15, 0, 1, 2, 3]"

definition led_set :: "'d i2c_bus \<Rightarrow> int \<Rightarrow> int \<Rightarrow> 'd \<Rightarrow> 'd" where
  "led_set B led val d =
     (let reg = [word_of_int (led + 1), word_of_int val] in snd (B LED_DRIVER_ADDRESS reg 0 d))"

text \<open>\<open>body_led_thd\<close> up to its loop: all outputs off, then the topics, the last one first.\<close>

definition body_led_init :: "('t, 'b) msgbus \<Rightarrow> 'd i2c_bus \<Rightarrow> 'd \<times> 'b \<Rightarrow> 't list \<times> 'd \<times> 'b" where
  "body_led_init mb B = (\<lambda>(d, b).
     let d = fold (\<lambda>i. led_set B i 0) [0..17] d;
         (topics, b) = fold (\<lambda>i (ts, b). case mb_advertise mb (led_topic_name i) b of (t, b) \<Rightarrow> (t # ts, b))
           (rev [0..<BODY_LED_COUNT]) ([], b)
     in (topics, d, b))"

definition body_led_value :: "fp \<Rightarrow> int option" where
  "body_led_value v = f_to_range (- (2 ^ 31)) (2 ^ 31 - 1) (fmul f32 v (f_of_int f32 LED_BRIGHNESS_MAX_VALUE))"

text \<open>One pass of the loop over the topics.\<close>

definition body_led_update :: "('t, 'b) msgbus \<Rightarrow> 'd i2c_bus \<Rightarrow> 't list \<Rightarrow> 'b \<Rightarrow> nat \<Rightarrow> 'd \<Rightarrow> 'd option" where
  "body_led_update mb B topics b i d =
     (case mb_read mb b (topics ! i) of
        None \<Rightarrow> Some d
      | Some (Body_led_msg v) \<Rightarrow>
          Option.bind (body_led_value v) (\<lambda>val. Some (led_set B (led_output_mapping ! i) val d))
      | _ \<Rightarrow> None)"

fun body_led_loop :: "('t, 'b) msgbus \<Rightarrow> 'd i2c_bus \<Rightarrow> 't list \<Rightarrow> 'b \<Rightarrow> nat list \<Rightarrow> 'd \<Rightarrow> 'd option" where
  "body_led_loop mb B topics b [] d = Some d"
| "body_led_loop mb B topics b (i # is) d =
     Option.bind (body_led_update mb B topics b i d) (body_led_loop mb B topics b is)"

definition body_led_round :: "('t, 'b) msgbus \<Rightarrow> 'd i2c_bus \<Rightarrow> 't list \<Rightarrow> 'b \<Rightarrow> 'd \<Rightarrow> 'd option" where
  "body_led_round mb B topics b d = body_led_loop mb B topics b [0..<BODY_LED_COUNT] d"

subsection \<open>The driver chip\<close>

text \<open>The register of a LED.\<close>

definition led_register :: "nat \<Rightarrow> u8" where
  "led_register i = word_of_int (led_output_mapping ! i + 1)"

lemma led_registers: "map led_register [0..<12] = [17, 18, 5, 6, 7, 14, 15, 16, 1, 2, 3, 4]"
  by code_simp

lemma led_register_inj: "inj_on led_register {0..<12}"
proof -
  have "distinct (map led_register [0..<12])" unfolding led_registers by simp
  then show ?thesis by (simp add: distinct_map del: upt_rec_numeral)
qed

locale led_driver =
  fixes B :: "'d i2c_bus" and outputs :: "'d \<Rightarrow> u8 \<Rightarrow> u8"
  assumes set_register: "outputs (snd (B LED_DRIVER_ADDRESS [r, v] 0 d)) = (outputs d)(r := v)"
begin

lemma outputs_led_set: "outputs (led_set B led val d) = (outputs d)(word_of_int (led + 1) := word_of_int val)"
  by (simp add: led_set_def set_register)

text \<open>A pass changes the registers of the published LEDs and no other.\<close>

lemma loop_outputs:
  assumes "distinct is" "inj_on led_register (set is)"
    "\<And>i. i \<in> set is \<Longrightarrow> mb_read mb b (topics ! i) = map_option Body_led_msg (bright i)"
    "\<And>i v. i \<in> set is \<Longrightarrow> bright i = Some v \<Longrightarrow> body_led_value v = Some (val v)"
  shows "\<exists>d'. body_led_loop mb B topics b is d = Some d'
    \<and> (\<forall>i \<in> set is. outputs d' (led_register i) = (case bright i of None \<Rightarrow> outputs d (led_register i) | Some v \<Rightarrow> word_of_int (val v)))
    \<and> (\<forall>r. r \<notin> led_register ` set is \<longrightarrow> outputs d' r = outputs d r)"
  using assms
proof (induction "is" arbitrary: d)
  case (Cons i "is")
  define d1 where "d1 = (case bright i of None \<Rightarrow> d | Some v \<Rightarrow> led_set B (led_output_mapping ! i) (val v) d)"
  have u: "body_led_update mb B topics b i d = Some d1"
    using Cons.prems(3,4)[of i] by (auto simp: body_led_update_def d1_def split: option.splits)
  have o: "outputs d1 = (case bright i of None \<Rightarrow> outputs d | Some v \<Rightarrow> (outputs d)(led_register i := word_of_int (val v)))"
    by (simp add: d1_def outputs_led_set led_register_def split: option.splits)
  have n: "led_register i \<notin> led_register ` set is" using Cons.prems(1,2) by (auto dest: inj_onD)
  obtain d' where d': "body_led_loop mb B topics b is d1 = Some d'"
    "\<forall>i \<in> set is. outputs d' (led_register i) = (case bright i of None \<Rightarrow> outputs d1 (led_register i) | Some v \<Rightarrow> word_of_int (val v))"
    "\<forall>r. r \<notin> led_register ` set is \<longrightarrow> outputs d' r = outputs d1 r"
    using Cons.IH[of d1] Cons.prems by auto
  have "outputs d' (led_register i) = (case bright i of None \<Rightarrow> outputs d (led_register i) | Some v \<Rightarrow> word_of_int (val v))"
    using d'(3) n o by (simp split: option.splits)
  moreover have "outputs d' (led_register j) = (case bright j of None \<Rightarrow> outputs d (led_register j) | Some v \<Rightarrow> word_of_int (val v))"
    if "j \<in> set is" for j
  proof -
    have "led_register j \<noteq> led_register i" using n that by (metis imageI)
    then show ?thesis using d'(2) that o by (auto split: option.splits)
  qed
  moreover have "outputs d' r = outputs d r" if "r \<notin> led_register ` set (i # is)" for r
    using that d'(3) o by (auto split: option.splits)
  ultimately show ?case using u d'(1) by (intro exI[of _ d']) auto
qed simp

end

definition ref_led_i2c :: "(u8 \<Rightarrow> u8) i2c_bus" where
  "ref_led_i2c addr tx n d = (case tx of [r, v] \<Rightarrow> (Some [], d(r := v)) | _ \<Rightarrow> (None, d))"

interpretation ref_leds: led_driver ref_led_i2c "\<lambda>d. d"
  by unfold_locales (simp add: ref_led_i2c_def)

text \<open>The current of a brightness between 0 and 1.\<close>

definition led_current :: "rat \<Rightarrow> int" where
  "led_current q = \<lfloor>round_mag f32 (q * 31)\<rfloor>"

lemma led_current_value:
  assumes "0 \<le> q" "q \<le> 1"
  shows "body_led_value (FFin False q) = Some (led_current q)" "0 \<le> led_current q" "led_current q \<le> 31"
proof -
  have k: "round_mag f32 31 = 31" "31 \<le> fmax f32" "f_of_int f32 LED_BRIGHNESS_MAX_VALUE = FFin False 31" by code_simp+
  have n: "0 \<le> q * 31" and m: "q * 31 \<le> 31" using assms by simp_all
  have r: "round_mag f32 (q * 31) \<le> 31" using round_mag_mono[OF fprec_pos(1) n m] k(1) by simp
  then show l: "led_current q \<le> 31" by (simp add: led_current_def floor_le_iff)
  show z: "0 \<le> led_current q" using round_mag_nonneg[OF n] by (simp add: led_current_def)
  show "body_led_value (FFin False q) = Some (led_current q)"
    using r k l z by (simp add: body_led_value_def f_to_range_def fround_def led_current_def)
qed

text \<open>C24. When every published brightness lies between 0 and 1, a pass of the LED thread sets the driver
  register of each published LED to its brightness times 31 rounded down, at most 31, and leaves every
  other register as it was; no two LEDs share a register.\<close>
theorem body_led_currents:
  assumes "led_driver B outputs"
    "\<And>i. i < 12 \<Longrightarrow> mb_read mb b (topics ! i) = map_option (\<lambda>q. Body_led_msg (FFin False q)) (bright i)"
    "\<And>i q. i < 12 \<Longrightarrow> bright i = Some q \<Longrightarrow> 0 \<le> q \<and> q \<le> 1"
  shows "\<exists>d'. body_led_round mb B topics b d = Some d' \<and>
    outputs d' = (\<lambda>r. case map_of (map (\<lambda>i. (led_register i, i)) [0..<12]) r of
        None \<Rightarrow> outputs d r
      | Some i \<Rightarrow> (case bright i of None \<Rightarrow> outputs d r | Some q \<Rightarrow> word_of_int (led_current q)))"
proof -
  let ?v = "\<lambda>v. case v of FFin s q \<Rightarrow> led_current q | _ \<Rightarrow> 0"
  have "\<exists>d'. body_led_loop mb B topics b [0..<12] d = Some d'
    \<and> (\<forall>i \<in> set [0..<12]. outputs d' (led_register i) = (case map_option (FFin False) (bright i) of
          None \<Rightarrow> outputs d (led_register i) | Some v \<Rightarrow> word_of_int (?v v)))
    \<and> (\<forall>r. r \<notin> led_register ` set [0..<12] \<longrightarrow> outputs d' r = outputs d r)"
    by (rule led_driver.loop_outputs[OF assms(1)])
      (use assms(2,3) led_register_inj in \<open>auto simp: option.map_comp o_def led_current_value simp del: upt_rec_numeral\<close>)
  then obtain d' where d': "body_led_loop mb B topics b [0..<12] d = Some d'"
    "\<And>i. i < 12 \<Longrightarrow> outputs d' (led_register i) = (case bright i of
          None \<Rightarrow> outputs d (led_register i) | Some q \<Rightarrow> word_of_int (led_current q))"
    "\<And>r. r \<notin> led_register ` {0..<12} \<Longrightarrow> outputs d' r = outputs d r"
  proof (elim exE conjE)
    fix d'
    assume d': "body_led_loop mb B topics b [0..<12] d = Some d'"
      "\<forall>i \<in> set [0..<12]. outputs d' (led_register i) = (case map_option (FFin False) (bright i) of
          None \<Rightarrow> outputs d (led_register i) | Some v \<Rightarrow> word_of_int (?v v))"
      "\<forall>r. r \<notin> led_register ` set [0..<12] \<longrightarrow> outputs d' r = outputs d r"
    show thesis
    proof (rule that[OF d'(1)])
      show "outputs d' (led_register i) = (case bright i of None \<Rightarrow> outputs d (led_register i) | Some q \<Rightarrow> word_of_int (led_current q))"
        if "i < 12" for i
        using d'(2)[rule_format, of i] that by (cases "bright i") (simp_all del: upt_rec_numeral)
      show "outputs d' r = outputs d r" if "r \<notin> led_register ` {0..<12}" for r
        using d'(3) that by (simp del: upt_rec_numeral)
    qed
  qed
  have "outputs d' r = (case map_of (map (\<lambda>i. (led_register i, i)) [0..<12]) r of
        None \<Rightarrow> outputs d r
      | Some i \<Rightarrow> (case bright i of None \<Rightarrow> outputs d r | Some q \<Rightarrow> word_of_int (led_current q)))" for r
  proof (cases "map_of (map (\<lambda>i. (led_register i, i)) [0..<12]) r")
    case None
    then have "r \<notin> led_register ` {0..<12}"
      by (auto simp: map_of_eq_None_iff image_image simp del: upt_rec_numeral)
    then show ?thesis using None d'(3) by simp
  next
    case (Some i)
    then have "i < 12" "r = led_register i"
      by (auto dest!: map_of_SomeD simp del: upt_rec_numeral)
    then show ?thesis using Some d'(2) by (cases "bright i") simp_all
  qed
  then show ?thesis using d'(1) by (auto simp: body_led_round_def BODY_LED_COUNT_def simp del: upt_rec_numeral)
qed

theorem body_led_currents_witness:
  "\<exists>d'. body_led_round ref_msgbus ref_led_i2c (map led_topic_name [0..<12])
      \<lparr>rb_topics = map led_topic_name [0..<12], rb_values = [(''/body_leds/1'', Body_led_msg (FFin False (1 / 2)))]\<rparr> (\<lambda>_. 0) = Some d'
    \<and> d' = (\<lambda>r. case map_of (map (\<lambda>i. (led_register i, i)) [0..<12]) r of
        None \<Rightarrow> 0
      | Some i \<Rightarrow> (case if i = 1 then Some (1 / 2) else None of None \<Rightarrow> 0 | Some q \<Rightarrow> word_of_int (led_current q)))"
proof (rule body_led_currents[OF ref_leds.led_driver_axioms])
  have "list_all (\<lambda>i. (led_topic_name i = ''/body_leds/1'') = (i = 1)) [0..<12]" by code_simp
  then have n: "led_topic_name i = ''/body_leds/1'' \<longleftrightarrow> i = 1" if "i < 12" for i
    using that by (simp add: list_all_iff del: upt_rec_numeral)
  show "mb_read ref_msgbus \<lparr>rb_topics = map led_topic_name [0..<12], rb_values = [(''/body_leds/1'', Body_led_msg (FFin False (1 / 2)))]\<rparr>
      (map led_topic_name [0..<12] ! i)
    = map_option (\<lambda>q. Body_led_msg (FFin False q)) (if i = 1 then Some (1 / 2) else None)" if "i < 12" for i
    using that n[OF that] by (simp add: ref_msgbus_def del: upt_rec_numeral)
qed (auto split: if_splits)

end
