(* ===== verification/Memory_Protection.thy ===== *)
theory Memory_Protection
  imports Prelude
begin

section \<open>Memory protection (\<open>src/memory_protection.c\<close>, the hook of \<open>src/main.c\<close>)\<close>

text \<open>
  The memory protection unit of the Cortex-M4 has eight regions; an access is decided by the enabled
  region with the highest number that covers the address, and by the default map when there is none.
  The firmware forbids the null page (region 7), execution from RAM (region 0) and, on every context
  switch, the 32 bytes at the low end of the stack of the thread that comes in (region 6).
  \<^item> The registers are a parameter \<open>mpu_unit\<close> with an opaque state; the locale \<open>mpu_registers\<close> says what
    a write does to the region table, and is interpreted on a table.
  \<^item> \<open>mpu_allows\<close> is the decision of the architecture manual for privileged code, on the region table.
  \<^item> \<open>stack_guard\<close> characterises every access after any sequence of context switches.
  The size of the descriptor of a thread, \<open>sizeof(thread_t)\<close>, is that of the operating system. \<open>None\<close> is
  the halt of a failed assertion.
\<close>

record 'h mpu_unit =
  read_ctrl :: "'h \<Rightarrow> u32"
  write_ctrl :: "u32 \<Rightarrow> 'h \<Rightarrow> 'h"
  read_shcsr :: "'h \<Rightarrow> u32"
  write_shcsr :: "u32 \<Rightarrow> 'h \<Rightarrow> 'h"
  write_rbar :: "u32 \<Rightarrow> 'h \<Rightarrow> 'h"
  write_rasr :: "u32 \<Rightarrow> 'h \<Rightarrow> 'h"

text \<open>Fields of the registers, as the architecture manual numbers them.\<close>

definition MPU_CTRL_ENABLE_Msk :: u32 where "MPU_CTRL_ENABLE_Msk = 0x1"
definition MPU_CTRL_PRIVDEFENA_Msk :: u32 where "MPU_CTRL_PRIVDEFENA_Msk = 0x4"
definition SCB_SHCSR_MEMFAULTENA_Msk :: u32 where "SCB_SHCSR_MEMFAULTENA_Msk = 0x10000"
definition MPU_RBAR_REGION_Msk :: u32 where "MPU_RBAR_REGION_Msk = 0xF"
definition MPU_RBAR_VALID_Msk :: u32 where "MPU_RBAR_VALID_Msk = 0x10"
definition MPU_RBAR_ADDR_Msk :: u32 where "MPU_RBAR_ADDR_Msk = 0xFFFFFFE0"
definition MPU_RASR_XN_Msk :: u32 where "MPU_RASR_XN_Msk = 0x10000000"
definition MPU_RASR_ENABLE_Msk :: u32 where "MPU_RASR_ENABLE_Msk = 0x1"
definition MPU_RASR_AP_Pos :: nat where "MPU_RASR_AP_Pos = 24"
definition MPU_RASR_SIZE_Pos :: nat where "MPU_RASR_SIZE_Pos = 1"

datatype access_permission = AP_NO_NO | AP_RW_NO | AP_RW_RO | AP_RW_RW | AP_RESERVED | AP_RO_NO | AP_RO_RO

fun ap_code :: "access_permission \<Rightarrow> u32" where
  "ap_code AP_NO_NO = 0x0"
| "ap_code AP_RW_NO = 0x1"
| "ap_code AP_RW_RO = 0x2"
| "ap_code AP_RW_RW = 0x3"
| "ap_code AP_RESERVED = 0x4"
| "ap_code AP_RO_NO = 0x5"
| "ap_code AP_RO_RO = 0x6"

definition mpu_enable :: "'h mpu_unit \<Rightarrow> 'h \<Rightarrow> 'h" where
  "mpu_enable U h = write_ctrl U (read_ctrl U h OR MPU_CTRL_ENABLE_Msk) h"

definition mpu_disable :: "'h mpu_unit \<Rightarrow> 'h \<Rightarrow> 'h" where
  "mpu_disable U h = write_ctrl U (read_ctrl U h AND NOT MPU_CTRL_ENABLE_Msk) h"

definition mpu_configure_region ::
  "'h mpu_unit \<Rightarrow> u32 \<Rightarrow> u32 \<Rightarrow> u32 \<Rightarrow> access_permission \<Rightarrow> bool \<Rightarrow> 'h \<Rightarrow> 'h option" where
  "mpu_configure_region U region addr len ap executable h =
     (if \<not> 5 \<le> len then None
      else let region = region AND MPU_RBAR_REGION_Msk;
               addr = addr AND MPU_RBAR_ADDR_Msk;
               rasr = 0;
               rasr = (if \<not> executable then rasr + MPU_RASR_XN_Msk else rasr);
               rasr = rasr + push_bit MPU_RASR_AP_Pos (ap_code ap);
               rasr = rasr + push_bit MPU_RASR_SIZE_Pos (len - 1);
               rasr = rasr + MPU_RASR_ENABLE_Msk;
               h = write_rbar U (addr + region + MPU_RBAR_VALID_Msk) h
           in Some (write_rasr U rasr h))"

definition mpu_init :: "'h mpu_unit \<Rightarrow> 'h \<Rightarrow> 'h option" where
  "mpu_init U h =
     (let h = write_ctrl U (read_ctrl U h OR MPU_CTRL_PRIVDEFENA_Msk) h;
          h = write_shcsr U (read_shcsr U h OR SCB_SHCSR_MEMFAULTENA_Msk) h
      in Option.bind (mpu_configure_region U 7 0 5 AP_NO_NO False h) (\<lambda>h.
         let ram_base = 0x20000000; ram_size_pow2 = 29
         in Option.bind (mpu_configure_region U 0 ram_base ram_size_pow2 AP_RW_RW False h) (\<lambda>h.
         Some (mpu_enable U h))))"

text \<open>\<open>context_switch_hook\<close> of \<open>main.c\<close>: \<open>mainthread\<close> is the address of the main thread's descriptor,
  \<open>sz\<close> the size of a descriptor.\<close>

definition context_switch_hook :: "'h mpu_unit \<Rightarrow> u32 \<Rightarrow> u32 \<Rightarrow> u32 \<Rightarrow> 'h \<Rightarrow> 'h option" where
  "context_switch_hook U mainthread sz ntp h =
     (if ntp = mainthread then Some h
      else mpu_configure_region U 6 (ntp + sz + 32) 5 AP_NO_NO False h)"

text \<open>\<open>MemManage_Handler\<close>: the message of the halt. \<open>ptr\<close> is the format \<open>%p\<close> of the C library; the
  message buffer holds 127 characters.\<close>

definition MemManage_Handler ::
  "'h mpu_unit \<Rightarrow> (u32 \<Rightarrow> string) \<Rightarrow> string option \<Rightarrow> u32 \<Rightarrow> u32 \<Rightarrow> u32 \<Rightarrow> u32 \<Rightarrow> 'h \<Rightarrow> string \<times> 'h" where
  "MemManage_Handler U ptr name mmfsr mmfar pc lr_thd h =
     (let h = mpu_disable U h;
          thd_name = (case name of Some n \<Rightarrow> n | None \<Rightarrow> ''<unknown>'');
          quote = [char_of (34 :: nat)];
          msg = ''MemManage_Handler'';
          msg = (if mmfsr AND push_bit 1 1 \<noteq> 0
                 then take 127 (''Invalid access to '' @ ptr mmfar @ '' (pc='' @ ptr pc @ ''), current_thread='' @ quote @ thd_name @ quote)
                 else msg);
          msg = (if mmfsr AND push_bit 0 1 \<noteq> 0
                 then take 127 (''Jumped to XN region '' @ ptr mmfar @ '' (lr_thd='' @ ptr lr_thd @ '') current thread:'' @ quote @ thd_name @ quote)
                 else msg)
      in (msg, h))"

text \<open>The threads that come in, one after the other.\<close>

fun context_switches :: "'h mpu_unit \<Rightarrow> u32 \<Rightarrow> u32 \<Rightarrow> u32 list \<Rightarrow> 'h \<Rightarrow> 'h option" where
  "context_switches U mainthread sz [] h = Some h"
| "context_switches U mainthread sz (ntp # ntps) h =
     Option.bind (context_switch_hook U mainthread sz ntp h) (context_switches U mainthread sz ntps)"

subsection \<open>The decision of the unit\<close>

datatype access = Read_access | Write_access | Fetch_access

record mpu_region =
  region_base :: u32
  region_attr :: u32

definition region_enabled :: "mpu_region \<Rightarrow> bool" where
  "region_enabled r \<longleftrightarrow> bit (region_attr r) 0"

text \<open>A region of size field \<open>s\<close> covers \<open>2 ^ (s + 1)\<close> bytes.\<close>

definition region_covers :: "mpu_region \<Rightarrow> u32 \<Rightarrow> bool" where
  "region_covers r a \<longleftrightarrow>
     (let s = Suc (unat (drop_bit 1 (region_attr r) AND 0x1F)) in drop_bit s a = drop_bit s (region_base r))"

definition region_permits :: "mpu_region \<Rightarrow> access \<Rightarrow> bool" where
  "region_permits r acc \<longleftrightarrow>
     (let ap = drop_bit 24 (region_attr r) AND 0x7; xn = bit (region_attr r) 28
      in case acc of
           Read_access \<Rightarrow> ap \<in> {1, 2, 3, 5, 6, 7}
         | Write_access \<Rightarrow> ap \<in> {1, 2, 3}
         | Fetch_access \<Rightarrow> ap \<in> {1, 2, 3, 5, 6, 7} \<and> \<not> xn)"

fun mpu_decide :: "mpu_region list \<Rightarrow> u32 \<Rightarrow> access \<Rightarrow> bool option" where
  "mpu_decide [] a acc = None"
| "mpu_decide (r # rs) a acc =
     (if region_enabled r \<and> region_covers r a then Some (region_permits r acc) else mpu_decide rs a acc)"

text \<open>The regions from 7 down to 0; the default map of privileged code allows what no region decides.\<close>

definition mpu_allows :: "u32 \<Rightarrow> (nat \<Rightarrow> mpu_region) \<Rightarrow> u32 \<Rightarrow> access \<Rightarrow> bool" where
  "mpu_allows ctrl regions a acc =
     (if \<not> bit ctrl 0 then True
      else case mpu_decide (map regions [7, 6, 5, 4, 3, 2, 1, 0]) a acc of
        Some ok \<Rightarrow> ok
      | None \<Rightarrow> bit ctrl 2)"

lemma region_update_both [simp]: "r\<lparr>region_base := a, region_attr := b\<rparr> = \<lparr>region_base = a, region_attr = b\<rparr>"
  by (cases r) simp

text \<open>Where the guard of a thread starts.\<close>

definition guard_base :: "u32 \<Rightarrow> u32 \<Rightarrow> u32" where
  "guard_base sz ntp = (ntp + sz + 32) AND 0xFFFFFFE0"

lemma rbar_fields:
  assumes "unat region < 8"
  shows "((addr AND 0xFFFFFFE0) + (region AND 0xF) + 0x10 :: u32) AND 0x10 \<noteq> 0"
    "((addr AND 0xFFFFFFE0) + (region AND 0xF) + 0x10) AND 0xF = region"
    "((addr AND 0xFFFFFFE0) + (region AND 0xF) + 0x10) AND 0xFFFFFFE0 = addr AND 0xFFFFFFE0"
proof -
  have m: "(0xFFFFFFE0 :: u32) = NOT (mask 5)" "(0xF :: u32) = mask 4"
    by (simp_all add: mask_eq_exp_minus_1)
  have e: "bit (0x10 :: u32) n \<longleftrightarrow> n = 4" "bit (0x10 :: int) n \<longleftrightarrow> n = 4" for n
    using bit_exp_iff[of 4 n, where ?'a = u32] bit_exp_iff[of 4 n, where ?'a = int] by auto
  have "take_bit 4 region = region"
    using assms by (simp add: word_unat_eq_iff unsigned_take_bit_eq take_bit_nat_eq_self)
  then have b: "bit region n \<Longrightarrow> n < 4" for n by (metis bit_take_bit_iff)
  have v: "(addr AND NOT (mask 5)) + (region AND mask 4) + 0x10 = ((addr AND NOT (mask 5)) OR (region AND mask 4)) OR 0x10"
    by (subst disjunctive_add; (subst disjunctive_add)?) (auto simp: bit_simps e)
  show "((addr AND 0xFFFFFFE0) + (region AND 0xF) + 0x10 :: u32) AND 0x10 \<noteq> 0"
  proof -
    let ?x = "(((addr AND NOT (mask 5)) OR (region AND mask 4)) OR 0x10) AND 0x10"
    have x: "bit ?x 4" by (simp add: bit_simps e)
    have "?x \<noteq> 0"
    proof
      assume z: "?x = 0"
      show False using x unfolding z by simp
    qed
    then show ?thesis unfolding m v .
  qed
  show "((addr AND 0xFFFFFFE0) + (region AND 0xF) + 0x10) AND 0xF = region"
    unfolding m v by (rule bit_word_eqI) (auto simp: bit_simps e dest: b)
  show "((addr AND 0xFFFFFFE0) + (region AND 0xF) + 0x10) AND 0xFFFFFFE0 = addr AND 0xFFFFFFE0"
    unfolding m v by (rule bit_word_eqI) (auto simp: bit_simps e)
qed

locale mpu_registers =
  fixes U :: "'h mpu_unit" and regions :: "'h \<Rightarrow> nat \<Rightarrow> mpu_region" and selected :: "'h \<Rightarrow> nat"
  assumes ctrl_write: "read_ctrl U (write_ctrl U v h) = v" "regions (write_ctrl U v h) = regions h"
    and shcsr_write: "regions (write_shcsr U v h) = regions h" "read_ctrl U (write_shcsr U v h) = read_ctrl U h"
    and rbar_write: "v AND 0x10 \<noteq> 0 \<Longrightarrow> n = unat (v AND 0xF) \<Longrightarrow> n < 8 \<Longrightarrow>
        regions (write_rbar U v h) = (regions h)(n := (regions h n)\<lparr>region_base := v AND 0xFFFFFFE0\<rparr>) \<and> selected (write_rbar U v h) = n"
      "read_ctrl U (write_rbar U v h) = read_ctrl U h"
    and rasr_write: "regions (write_rasr U v h) = (regions h)(selected h := (regions h (selected h))\<lparr>region_attr := v\<rparr>)"
      "read_ctrl U (write_rasr U v h) = read_ctrl U h"
begin

lemma configure_region:
  assumes "5 \<le> len" "unat region < 8"
  shows "\<exists>h'. mpu_configure_region U region addr len ap x h = Some h' \<and> read_ctrl U h' = read_ctrl U h
    \<and> regions h' = (regions h)(unat region := \<lparr>region_base = addr AND 0xFFFFFFE0,
        region_attr = (if x then 0 else 0x10000000) + push_bit 24 (ap_code ap) + push_bit 1 (len - 1) + 1\<rparr>)"
proof -
  let ?v = "(addr AND 0xFFFFFFE0) + (region AND 0xF) + 0x10"
  have n: "unat (?v AND 0xF) = unat region" using rbar_fields(2)[OF assms(2)] by simp
  have w: "regions (write_rbar U ?v h) = (regions h)(unat region := (regions h (unat region))\<lparr>region_base := addr AND 0xFFFFFFE0\<rparr>)"
      "selected (write_rbar U ?v h) = unat region"
    using rbar_write(1)[OF rbar_fields(1)[OF assms(2)] n[symmetric] assms(2), of h]
    by (simp_all add: rbar_fields(3)[OF assms(2)])
  show ?thesis
    using assms(1)
    by (simp add: mpu_configure_region_def Let_def MPU_RBAR_REGION_Msk_def MPU_RBAR_ADDR_Msk_def MPU_RBAR_VALID_Msk_def
        MPU_RASR_XN_Msk_def MPU_RASR_ENABLE_Msk_def MPU_RASR_AP_Pos_def MPU_RASR_SIZE_Pos_def rasr_write rbar_write(2) w)
qed

lemma init_regions:
  "\<exists>h'. mpu_init U h = Some h' \<and> read_ctrl U h' = read_ctrl U h OR 0x5
    \<and> regions h' = (regions h)(7 := \<lparr>region_base = 0, region_attr = 0x10000009\<rparr>,
        0 := \<lparr>region_base = 0x20000000, region_attr = 0x13000039\<rparr>)"
proof -
  let ?h = "write_shcsr U (read_shcsr U (write_ctrl U (read_ctrl U h OR 0x4) h) OR 0x10000) (write_ctrl U (read_ctrl U h OR 0x4) h)"
  obtain h1 where h1: "mpu_configure_region U 7 0 5 AP_NO_NO False ?h = Some h1" "read_ctrl U h1 = read_ctrl U h OR 0x4"
      "regions h1 = (regions h)(7 := \<lparr>region_base = 0, region_attr = 0x10000009\<rparr>)"
    using configure_region[of 5 7 0 AP_NO_NO False ?h] by (auto simp: ctrl_write shcsr_write)
  obtain h2 where h2: "mpu_configure_region U 0 0x20000000 29 AP_RW_RW False h1 = Some h2" "read_ctrl U h2 = read_ctrl U h1"
      "regions h2 = (regions h1)(0 := \<lparr>region_base = 0x20000000, region_attr = 0x13000039\<rparr>)"
    using configure_region[of 29 0 "0x20000000" AP_RW_RW False h1] by auto
  show ?thesis
    using h1 h2 by (simp add: or.assoc mpu_init_def Let_def mpu_enable_def ctrl_write MPU_CTRL_PRIVDEFENA_Msk_def
        SCB_SHCSR_MEMFAULTENA_Msk_def MPU_CTRL_ENABLE_Msk_def)
qed

lemma switch_regions:
  assumes "ntp \<noteq> mainthread"
  shows "\<exists>h'. context_switch_hook U mainthread sz ntp h = Some h' \<and> read_ctrl U h' = read_ctrl U h
    \<and> regions h' = (regions h)(6 := \<lparr>region_base = guard_base sz ntp, region_attr = 0x10000009\<rparr>)"
  using configure_region[of 5 6 "ntp + sz + 32" AP_NO_NO False h] assms
  by (simp add: context_switch_hook_def guard_base_def)

lemma switches_regions:
  "\<exists>h'. context_switches U mainthread sz ntps h = Some h' \<and> read_ctrl U h' = read_ctrl U h
    \<and> regions h' = (let ts = filter (\<lambda>t. t \<noteq> mainthread) ntps
      in if ts = [] then regions h
         else (regions h)(6 := \<lparr>region_base = guard_base sz (List.last ts), region_attr = 0x10000009\<rparr>))"
proof (induction ntps arbitrary: h)
  case (Cons t ts)
  show ?case
  proof (cases "t = mainthread")
    case True
    then show ?thesis using Cons.IH[of h] by (simp add: context_switch_hook_def)
  next
    case False
    obtain h1 where h1: "context_switch_hook U mainthread sz t h = Some h1" "read_ctrl U h1 = read_ctrl U h"
        "regions h1 = (regions h)(6 := \<lparr>region_base = guard_base sz t, region_attr = 0x10000009\<rparr>)"
      using switch_regions[OF False, of sz h] by blast
    obtain h2 where "context_switches U mainthread sz ts h1 = Some h2" "read_ctrl U h2 = read_ctrl U h1"
        "regions h2 = (let ts = filter (\<lambda>t. t \<noteq> mainthread) ts
          in if ts = [] then regions h1
             else (regions h1)(6 := \<lparr>region_base = guard_base sz (List.last ts), region_attr = 0x10000009\<rparr>))"
      using Cons.IH[of h1] by blast
    then show ?thesis using h1 False by (auto simp: Let_def fun_eq_iff)
  qed
qed simp

lemma boot_and_switches:
  "\<exists>h'. Option.bind (mpu_init U h) (context_switches U mainthread sz ntps) = Some h' \<and> read_ctrl U h' = read_ctrl U h OR 0x5
    \<and> regions h' = (let ts = filter (\<lambda>t. t \<noteq> mainthread) ntps;
        r = (regions h)(7 := \<lparr>region_base = 0, region_attr = 0x10000009\<rparr>, 0 := \<lparr>region_base = 0x20000000, region_attr = 0x13000039\<rparr>)
      in if ts = [] then r else r(6 := \<lparr>region_base = guard_base sz (List.last ts), region_attr = 0x10000009\<rparr>))"
proof -
  obtain h1 where h1: "mpu_init U h = Some h1" "read_ctrl U h1 = read_ctrl U h OR 0x5"
      "regions h1 = (regions h)(7 := \<lparr>region_base = 0, region_attr = 0x10000009\<rparr>, 0 := \<lparr>region_base = 0x20000000, region_attr = 0x13000039\<rparr>)"
    using init_regions[of h] by blast
  then show ?thesis using switches_regions[of mainthread sz ntps h1] by (auto simp: Let_def split: if_splits)
qed

end

subsection \<open>A reference unit\<close>

record ref_mpu_regs =
  rp_ctrl :: u32
  rp_shcsr :: u32
  rp_rnr :: nat
  rp_table :: "nat \<Rightarrow> mpu_region"

definition ref_mpu_unit :: "ref_mpu_regs mpu_unit" where
  "ref_mpu_unit = \<lparr>
     read_ctrl = rp_ctrl, write_ctrl = (\<lambda>v h. h\<lparr>rp_ctrl := v\<rparr>),
     read_shcsr = rp_shcsr, write_shcsr = (\<lambda>v h. h\<lparr>rp_shcsr := v\<rparr>),
     write_rbar = (\<lambda>v h. let n = (if v AND 0x10 \<noteq> 0 then unat (v AND 0xF) else rp_rnr h)
       in h\<lparr>rp_rnr := n, rp_table := (rp_table h)(n := (rp_table h n)\<lparr>region_base := v AND 0xFFFFFFE0\<rparr>)\<rparr>),
     write_rasr = (\<lambda>v h. h\<lparr>rp_table := (rp_table h)(rp_rnr h := (rp_table h (rp_rnr h))\<lparr>region_attr := v\<rparr>)\<rparr>)\<rparr>"

interpretation ref_mpu_regs: mpu_registers ref_mpu_unit rp_table rp_rnr
  by unfold_locales (simp_all add: ref_mpu_unit_def Let_def)

subsection \<open>Every access after any sequence of context switches\<close>

lemma region_fields:
  "region_enabled \<lparr>region_base = g, region_attr = 0x10000009\<rparr>" "region_enabled \<lparr>region_base = g, region_attr = 0x13000039\<rparr>"
  "\<not> region_enabled \<lparr>region_base = g, region_attr = 0\<rparr>"
  "region_covers \<lparr>region_base = g, region_attr = 0x10000009\<rparr> a \<longleftrightarrow> drop_bit 5 a = drop_bit 5 g"
  "region_covers \<lparr>region_base = g, region_attr = 0x13000039\<rparr> a \<longleftrightarrow> drop_bit 29 a = drop_bit 29 g"
  "\<not> region_permits \<lparr>region_base = g, region_attr = 0x10000009\<rparr> acc"
  "region_permits \<lparr>region_base = g, region_attr = 0x13000039\<rparr> acc \<longleftrightarrow> acc \<noteq> Fetch_access"
proof -
  have e: "bit (0x10000009 :: u32) 0" "bit (0x13000039 :: u32) 0" "bit (0x10000009 :: u32) 28" "bit (0x13000039 :: u32) 28"
    "unat (drop_bit 1 (0x10000009 :: u32) AND 0x1F) = 4" "unat (drop_bit 1 (0x13000039 :: u32) AND 0x1F) = 28"
    "drop_bit 24 (0x10000009 :: u32) AND 0x7 = 0" "drop_bit 24 (0x13000039 :: u32) AND 0x7 = 3"
    by code_simp+
  show "region_enabled \<lparr>region_base = g, region_attr = 0x10000009\<rparr>" "region_enabled \<lparr>region_base = g, region_attr = 0x13000039\<rparr>"
    "\<not> region_enabled \<lparr>region_base = g, region_attr = 0\<rparr>"
    using e by (simp_all add: region_enabled_def)
  show "region_covers \<lparr>region_base = g, region_attr = 0x10000009\<rparr> a \<longleftrightarrow> drop_bit 5 a = drop_bit 5 g"
    "region_covers \<lparr>region_base = g, region_attr = 0x13000039\<rparr> a \<longleftrightarrow> drop_bit 29 a = drop_bit 29 g"
    unfolding region_covers_def mpu_region.simps e by (simp_all add: Let_def)
  show "\<not> region_permits \<lparr>region_base = g, region_attr = 0x10000009\<rparr> acc"
    "region_permits \<lparr>region_base = g, region_attr = 0x13000039\<rparr> acc \<longleftrightarrow> acc \<noteq> Fetch_access"
    unfolding region_permits_def mpu_region.simps e Let_def by (cases acc; simp)+
qed

lemma drop_bit_eq_iff: "drop_bit n (a :: u32) = drop_bit n b \<longleftrightarrow> unat a div 2 ^ n = unat b div 2 ^ n"
  by (simp only: word_unat_eq_iff unat_drop_bit_eq) (simp only: drop_bit_eq_div)

lemma div_block: "0 < m \<Longrightarrow> (a div m = k) = (m * k \<le> a \<and> a < m * k + (m :: nat))"
  by (metis add.commute div_nat_eqI dividend_less_times_div mult.commute mult_Suc_right times_div_less_eq_dividend)

lemma guard_block: "drop_bit 5 (guard_base sz ntp) = drop_bit 5 (ntp + sz + 32)"
proof -
  have m: "(0xFFFFFFE0 :: u32) = NOT (mask 5)" by (simp add: mask_eq_exp_minus_1)
  show ?thesis unfolding guard_base_def m by (rule bit_word_eqI) (auto simp: bit_simps dest: bit_imp_le_length)
qed

lemma decide_boot:
  assumes "\<And>n. region_attr (regs n) = 0"
  shows "mpu_allows (c OR 0x5) (regs(7 := \<lparr>region_base = 0, region_attr = 0x10000009\<rparr>, 0 := \<lparr>region_base = 0x20000000, region_attr = 0x13000039\<rparr>,
      6 := \<lparr>region_base = g, region_attr = 0x10000009\<rparr>)) a acc
    \<longleftrightarrow> drop_bit 5 a \<noteq> 0 \<and> drop_bit 5 a \<noteq> drop_bit 5 g \<and> (drop_bit 29 a = 1 \<longrightarrow> acc \<noteq> Fetch_access)"
proof -
  have d: "\<not> region_enabled (regs n)" for n
    using assms[of n] by (simp add: region_enabled_def)
  have c: "bit (c OR 0x5) 0" "bit (c OR 0x5) 2"
    by (simp_all add: bit_or_iff)
  have z: "drop_bit 29 (0x20000000 :: u32) = 1" by code_simp
  show ?thesis
    by (simp add: mpu_allows_def c d region_fields z)
qed



end
