(* ===== verification/Lwip_Sys.thy ===== *)
theory Lwip_Sys
  imports Prelude
begin

section \<open>The operating-system layer of the IP stack (\<open>src/lwip/bindings/arch/sys_arch.c\<close>)\<close>

text \<open>
  The IP stack asks its host for semaphores and mailboxes; \<open>sys_arch.c\<close> maps them to those of the
  operating system. The kernel calls are a parameter \<open>kernel\<close> over an opaque world \<open>'w\<close>, which also holds
  the time and what the other threads do: a call that waits returns what happened meanwhile, and \<open>None\<close>
  when it waits for ever. A failed assertion of the stack halts (\<open>Inl\<close>).
  \<^item> The locale \<open>kernel_mailbox\<close> states the kernel's mailboxes: a bounded queue of messages. It is
    interpreted on lists.
  \<^item> \<open>mbox_refines_queue\<close>: through the wrappers, a mailbox behaves as a bounded queue for every sequence of
    posts and fetches that do not wait, with the error codes of the stack.
\<close>

datatype msg_code = MSG_OK | MSG_TIMEOUT | MSG_RESET

datatype err_t = ERR_OK | ERR_MEM

definition SYS_ARCH_TIMEOUT :: u32 where "SYS_ARCH_TIMEOUT = 0xffffffff"
definition SYS_MBOX_EMPTY :: u32 where "SYS_MBOX_EMPTY = SYS_ARCH_TIMEOUT"
definition TIME_IMMEDIATE :: u32 where "TIME_IMMEDIATE = 0"
definition TIME_INFINITE :: u32 where "TIME_INFINITE = 0xffffffff"

text \<open>Kernel objects are named by their address.\<close>

record 'w kernel =
  chVTGetSystemTimeX :: "'w \<Rightarrow> u32"
  chSemObjectInit :: "u32 \<Rightarrow> u8 \<Rightarrow> 'w \<Rightarrow> 'w"
  chSemWaitTimeout :: "u32 \<Rightarrow> u32 \<Rightarrow> 'w \<Rightarrow> (msg_code \<times> 'w) option"
  chSemSignal :: "u32 \<Rightarrow> 'w \<Rightarrow> 'w"
  chMBObjectInit :: "u32 \<Rightarrow> nat \<Rightarrow> 'w \<Rightarrow> 'w"
  chMBPost :: "u32 \<Rightarrow> u32 \<Rightarrow> u32 \<Rightarrow> 'w \<Rightarrow> (msg_code \<times> 'w) option"
  chMBFetch :: "u32 \<Rightarrow> u32 \<Rightarrow> 'w \<Rightarrow> (msg_code \<times> u32 \<times> 'w) option"
  MS2ST :: "u32 \<Rightarrow> u32"
  ST2MS :: "u32 \<Rightarrow> u32"

text \<open>\<open>sys_sem_t\<close> and \<open>sys_mbox_t\<close>: the kernel object and the flag.\<close>

record sys_sem =
  sem_addr :: u32
  sem_is_valid :: bool

record sys_mbox =
  mbox_addr :: u32
  mbox_is_valid :: bool

text \<open>A call ends with a value, waits for ever (\<open>None\<close>), or fails an assertion (\<open>Inl\<close>).\<close>

datatype assertion = Invalid_semaphore | Mailbox_too_big | Invalid_mailbox

type_synonym ('a, 'w) sys_result = "(assertion + 'a \<times> 'w) option"

subsection \<open>Semaphores\<close>

definition sys_sem_new :: "'w kernel \<Rightarrow> u8 \<Rightarrow> sys_sem \<Rightarrow> 'w \<Rightarrow> err_t \<times> sys_sem \<times> 'w" where
  "sys_sem_new K count pSem w = (ERR_OK, pSem\<lparr>sem_is_valid := True\<rparr>, chSemObjectInit K (sem_addr pSem) count w)"

definition sys_timeout :: "'w kernel \<Rightarrow> u32 \<Rightarrow> u32" where
  "sys_timeout K timeout = (if timeout \<le> 0 then TIME_INFINITE else MS2ST K timeout)"

definition sys_arch_sem_wait :: "'w kernel \<Rightarrow> sys_sem \<Rightarrow> u32 \<Rightarrow> 'w \<Rightarrow> (u32, 'w) sys_result" where
  "sys_arch_sem_wait K sem timeout w =
     (if \<not> sem_is_valid sem then Some (Inl Invalid_semaphore)
      else let time = chVTGetSystemTimeX K w in
        Option.bind (chSemWaitTimeout K (sem_addr sem) (sys_timeout K timeout) w) (\<lambda>(m, w).
        if m = MSG_TIMEOUT then Some (Inr (SYS_ARCH_TIMEOUT, w))
        else Some (Inr (ST2MS K (chVTGetSystemTimeX K w - time), w))))"

definition sys_sem_signal :: "'w kernel \<Rightarrow> sys_sem \<Rightarrow> 'w \<Rightarrow> (unit, 'w) sys_result" where
  "sys_sem_signal K sem w =
     (if \<not> sem_is_valid sem then Some (Inl Invalid_semaphore) else Some (Inr ((), chSemSignal K (sem_addr sem) w)))"

definition sys_sem_valid :: "sys_sem \<Rightarrow> bool" where
  "sys_sem_valid sem = sem_is_valid sem"

definition sys_sem_set_invalid :: "sys_sem \<Rightarrow> sys_sem" where
  "sys_sem_set_invalid sem = sem\<lparr>sem_is_valid := False\<rparr>"

definition sys_sem_free :: "sys_sem \<Rightarrow> sys_sem" where
  "sys_sem_free sem = sem"

subsection \<open>Mailboxes\<close>

text \<open>\<open>q\<close> is \<open>SYS_ARCH_Q_SIZE\<close>, which the configuration of the stack defines.\<close>

definition sys_mbox_new :: "'w kernel \<Rightarrow> int \<Rightarrow> sys_mbox \<Rightarrow> int \<Rightarrow> 'w \<Rightarrow> assertion + (err_t \<times> sys_mbox \<times> 'w)" where
  "sys_mbox_new K q mbox len w =
     (if \<not> len \<le> q then Inl Mailbox_too_big
      else Inr (ERR_OK, mbox\<lparr>mbox_is_valid := True\<rparr>, chMBObjectInit K (mbox_addr mbox) (nat len) w))"

definition sys_mbox_post :: "'w kernel \<Rightarrow> sys_mbox \<Rightarrow> u32 \<Rightarrow> 'w \<Rightarrow> (unit, 'w) sys_result" where
  "sys_mbox_post K mbox msg w =
     (if \<not> mbox_is_valid mbox then Some (Inl Invalid_mailbox)
      else Option.bind (chMBPost K (mbox_addr mbox) msg TIME_INFINITE w) (\<lambda>(_, w). Some (Inr ((), w))))"

definition sys_mbox_trypost :: "'w kernel \<Rightarrow> sys_mbox \<Rightarrow> u32 \<Rightarrow> 'w \<Rightarrow> (err_t, 'w) sys_result" where
  "sys_mbox_trypost K mbox msg w =
     (if \<not> mbox_is_valid mbox then Some (Inl Invalid_mailbox)
      else Option.bind (chMBPost K (mbox_addr mbox) msg TIME_IMMEDIATE w) (\<lambda>(ret, w).
        if ret = MSG_TIMEOUT then Some (Inr (ERR_MEM, w)) else Some (Inr (ERR_OK, w))))"

text \<open>The fetches also return the message, which the C code stores through its second argument.\<close>

definition sys_arch_mbox_fetch :: "'w kernel \<Rightarrow> sys_mbox \<Rightarrow> u32 \<Rightarrow> 'w \<Rightarrow> (u32 \<times> u32, 'w) sys_result" where
  "sys_arch_mbox_fetch K mbox timeout w =
     (if \<not> mbox_is_valid mbox then Some (Inl Invalid_mailbox)
      else let time = chVTGetSystemTimeX K w in
        Option.bind (chMBFetch K (mbox_addr mbox) (sys_timeout K timeout) w) (\<lambda>(ret, msg, w).
        if ret = MSG_TIMEOUT then Some (Inr ((SYS_ARCH_TIMEOUT, msg), w))
        else Some (Inr ((ST2MS K (chVTGetSystemTimeX K w - time), msg), w))))"

definition sys_arch_mbox_tryfetch :: "'w kernel \<Rightarrow> sys_mbox \<Rightarrow> 'w \<Rightarrow> (u32 \<times> u32, 'w) sys_result" where
  "sys_arch_mbox_tryfetch K mbox w =
     (if \<not> mbox_is_valid mbox then Some (Inl Invalid_mailbox)
      else Option.bind (chMBFetch K (mbox_addr mbox) TIME_IMMEDIATE w) (\<lambda>(ret, msg, w).
        if ret = MSG_TIMEOUT then Some (Inr ((SYS_MBOX_EMPTY, msg), w)) else Some (Inr ((0, msg), w))))"

definition sys_mbox_valid :: "sys_mbox \<Rightarrow> bool" where
  "sys_mbox_valid mbox = mbox_is_valid mbox"

definition sys_mbox_set_invalid :: "sys_mbox \<Rightarrow> sys_mbox" where
  "sys_mbox_set_invalid mbox = mbox\<lparr>mbox_is_valid := False\<rparr>"

definition sys_mbox_free :: "sys_mbox \<Rightarrow> sys_mbox" where
  "sys_mbox_free mbox = mbox"

subsection \<open>The kernel's mailboxes are bounded queues\<close>

locale kernel_mailbox =
  fixes K :: "'w kernel" and contents :: "'w \<Rightarrow> u32 \<Rightarrow> u32 list" and capacity :: "'w \<Rightarrow> u32 \<Rightarrow> nat"
  assumes mb_init: "0 < n \<Longrightarrow> contents (chMBObjectInit K a n w) = (contents w)(a := [])" "0 < n \<Longrightarrow> capacity (chMBObjectInit K a n w) = (capacity w)(a := n)"
    and post_room: "length (contents w a) < capacity w a \<Longrightarrow>
      \<exists>w'. chMBPost K a m TIME_IMMEDIATE w = Some (MSG_OK, w') \<and> contents w' = (contents w)(a := contents w a @ [m]) \<and> capacity w' = capacity w"
    and post_full: "capacity w a \<le> length (contents w a) \<Longrightarrow>
      \<exists>w'. chMBPost K a m TIME_IMMEDIATE w = Some (MSG_TIMEOUT, w') \<and> contents w' = contents w \<and> capacity w' = capacity w"
    and fetch_message: "contents w a = m # ms \<Longrightarrow>
      \<exists>w'. chMBFetch K a t w = Some (MSG_OK, m, w') \<and> contents w' = (contents w)(a := ms) \<and> capacity w' = capacity w"
    and fetch_empty: "contents w a = [] \<Longrightarrow>
      \<exists>m w'. chMBFetch K a TIME_IMMEDIATE w = Some (MSG_TIMEOUT, m, w') \<and> contents w' = contents w \<and> capacity w' = capacity w"
begin

lemma trypost_queue:
  assumes "mbox_is_valid mbox"
  shows "\<exists>w'. sys_mbox_trypost K mbox m w = Some (Inr (if length (contents w (mbox_addr mbox)) < capacity w (mbox_addr mbox) then ERR_OK else ERR_MEM, w'))
    \<and> contents w' = (if length (contents w (mbox_addr mbox)) < capacity w (mbox_addr mbox)
        then (contents w)(mbox_addr mbox := contents w (mbox_addr mbox) @ [m]) else contents w)
    \<and> capacity w' = capacity w"
proof (cases "length (contents w (mbox_addr mbox)) < capacity w (mbox_addr mbox)")
  case True
  then show ?thesis using post_room[OF True, of m] assms by (auto simp: sys_mbox_trypost_def)
next
  case False
  then show ?thesis using post_full[of w "mbox_addr mbox" m] assms by (auto simp: sys_mbox_trypost_def)
qed

lemma tryfetch_queue:
  assumes "mbox_is_valid mbox"
  shows "\<exists>r m w'. sys_arch_mbox_tryfetch K mbox w = Some (Inr ((r, m), w'))
    \<and> r = (if contents w (mbox_addr mbox) = [] then SYS_MBOX_EMPTY else 0)
    \<and> (contents w (mbox_addr mbox) \<noteq> [] \<longrightarrow> m = hd (contents w (mbox_addr mbox)))
    \<and> contents w' = (contents w)(mbox_addr mbox := tl (contents w (mbox_addr mbox))) \<and> capacity w' = capacity w"
proof (cases "contents w (mbox_addr mbox)")
  case Nil
  then have "(contents w)(mbox_addr mbox := tl (contents w (mbox_addr mbox))) = contents w" by (auto simp: fun_eq_iff)
  then show ?thesis using fetch_empty[OF Nil] Nil assms by (auto simp: sys_arch_mbox_tryfetch_def)
next
  case (Cons m ms)
  then show ?thesis using fetch_message[OF Cons, of TIME_IMMEDIATE] assms by (auto simp: sys_arch_mbox_tryfetch_def)
qed

lemma fetch_waiting_message:
  assumes "mbox_is_valid mbox" "contents w (mbox_addr mbox) = m # ms"
  shows "\<exists>r w'. sys_arch_mbox_fetch K mbox timeout w = Some (Inr ((r, m), w')) \<and> contents w' = (contents w)(mbox_addr mbox := ms)"
  using fetch_message[OF assms(2), of "sys_timeout K timeout"] assms(1) by (auto simp: sys_arch_mbox_fetch_def Let_def)

end

subsection \<open>A reference kernel\<close>

record ref_kernel_world =
  rk_time :: u32
  rk_contents :: "u32 \<Rightarrow> u32 list"
  rk_capacity :: "u32 \<Rightarrow> nat"

text \<open>Nothing else runs: a wait on an empty or full mailbox that is not immediate never ends.\<close>

definition ref_kernel :: "ref_kernel_world kernel" where
  "ref_kernel = \<lparr>
     chVTGetSystemTimeX = rk_time,
     chSemObjectInit = (\<lambda>a c w. w), chSemWaitTimeout = (\<lambda>a t w. Some (MSG_TIMEOUT, w)), chSemSignal = (\<lambda>a w. w),
     chMBObjectInit = (\<lambda>a n w. w\<lparr>rk_contents := (rk_contents w)(a := []), rk_capacity := (rk_capacity w)(a := n)\<rparr>),
     chMBPost = (\<lambda>a m t w. if length (rk_contents w a) < rk_capacity w a
        then Some (MSG_OK, w\<lparr>rk_contents := (rk_contents w)(a := rk_contents w a @ [m])\<rparr>)
        else if t = TIME_IMMEDIATE then Some (MSG_TIMEOUT, w) else None),
     chMBFetch = (\<lambda>a t w. case rk_contents w a of
          [] \<Rightarrow> if t = TIME_IMMEDIATE then Some (MSG_TIMEOUT, 0, w) else None
        | m # ms \<Rightarrow> Some (MSG_OK, m, w\<lparr>rk_contents := (rk_contents w)(a := ms)\<rparr>)),
     MS2ST = (\<lambda>t. t * 10), ST2MS = (\<lambda>t. t div 10)\<rparr>"

interpretation ref_mailboxes: kernel_mailbox ref_kernel rk_contents rk_capacity
  by unfold_locales (auto simp: ref_kernel_def)

subsection \<open>Sequences of posts and fetches\<close>

datatype mbox_op = Try_post u32 | Try_fetch

datatype mbox_answer = Posted err_t | Fetched u32 | Empty u32

fun mbox_step :: "'w kernel \<Rightarrow> sys_mbox \<Rightarrow> mbox_op \<Rightarrow> 'w \<Rightarrow> (mbox_answer \<times> 'w) option" where
  "mbox_step K mbox (Try_post m) w =
     (case sys_mbox_trypost K mbox m w of Some (Inr (e, w)) \<Rightarrow> Some (Posted e, w) | _ \<Rightarrow> None)"
| "mbox_step K mbox Try_fetch w =
     (case sys_arch_mbox_tryfetch K mbox w of Some (Inr ((r, m), w)) \<Rightarrow> Some (if r = 0 then Fetched m else Empty r, w) | _ \<Rightarrow> None)"

fun mbox_run :: "'w kernel \<Rightarrow> sys_mbox \<Rightarrow> mbox_op list \<Rightarrow> 'w \<Rightarrow> (mbox_answer list \<times> 'w) option" where
  "mbox_run K mbox [] w = Some ([], w)"
| "mbox_run K mbox (c # cs) w = Option.bind (mbox_step K mbox c w) (\<lambda>(a, w).
     Option.bind (mbox_run K mbox cs w) (\<lambda>(as, w). Some (a # as, w)))"

text \<open>The abstract queue of capacity \<open>n\<close>.\<close>

fun queue_step :: "nat \<Rightarrow> mbox_op \<Rightarrow> u32 list \<Rightarrow> mbox_answer \<times> u32 list" where
  "queue_step n (Try_post m) xs = (if length xs < n then (Posted ERR_OK, xs @ [m]) else (Posted ERR_MEM, xs))"
| "queue_step n Try_fetch [] = (Empty SYS_MBOX_EMPTY, [])"
| "queue_step n Try_fetch (x # xs) = (Fetched x, xs)"

fun queue_run :: "nat \<Rightarrow> mbox_op list \<Rightarrow> u32 list \<Rightarrow> mbox_answer list \<times> u32 list" where
  "queue_run n [] xs = ([], xs)"
| "queue_run n (c # cs) xs = (case queue_step n c xs of (a, xs) \<Rightarrow> case queue_run n cs xs of (as, xs) \<Rightarrow> (a # as, xs))"

context kernel_mailbox
begin

lemma step_queue:
  assumes "mbox_is_valid mbox"
  shows "\<exists>w'. mbox_step K mbox c w = Some (fst (queue_step (capacity w (mbox_addr mbox)) c (contents w (mbox_addr mbox))), w')
    \<and> contents w' = (contents w)(mbox_addr mbox := snd (queue_step (capacity w (mbox_addr mbox)) c (contents w (mbox_addr mbox))))
    \<and> capacity w' = capacity w"
proof (cases c)
  case (Try_post m)
  then show ?thesis using trypost_queue[OF assms, of m w] by (auto simp: fun_eq_iff)
next
  case Try_fetch
  have z: "SYS_MBOX_EMPTY \<noteq> 0" by (simp add: SYS_MBOX_EMPTY_def SYS_ARCH_TIMEOUT_def)
  show ?thesis
    using tryfetch_queue[OF assms, of w] Try_fetch z by (cases "contents w (mbox_addr mbox)") auto
qed

lemma run_queue:
  assumes "mbox_is_valid mbox"
  shows "\<exists>w'. mbox_run K mbox cs w = Some (fst (queue_run (capacity w (mbox_addr mbox)) cs (contents w (mbox_addr mbox))), w')
    \<and> contents w' = (contents w)(mbox_addr mbox := snd (queue_run (capacity w (mbox_addr mbox)) cs (contents w (mbox_addr mbox))))
    \<and> capacity w' = capacity w"
proof (induction cs arbitrary: w)
  case (Cons c cs)
  let ?a = "mbox_addr mbox"
  obtain w1 where w1: "mbox_step K mbox c w = Some (fst (queue_step (capacity w ?a) c (contents w ?a)), w1)"
      "contents w1 = (contents w)(?a := snd (queue_step (capacity w ?a) c (contents w ?a)))" "capacity w1 = capacity w"
    using step_queue[OF assms, of c w] by blast
  obtain w2 where w2: "mbox_run K mbox cs w1 = Some (fst (queue_run (capacity w1 ?a) cs (contents w1 ?a)), w2)"
      "contents w2 = (contents w1)(?a := snd (queue_run (capacity w1 ?a) cs (contents w1 ?a)))" "capacity w2 = capacity w1"
    using Cons.IH[of w1] by blast
  show ?case using w1 w2 by (simp add: case_prod_unfold fun_eq_iff)
qed (simp add: fun_eq_iff)

end

text \<open>C26. A mailbox made by \<open>sys_mbox_new\<close> is a bounded queue, through the wrappers, for every sequence of
  posts and fetches that do not wait: posts answer \<open>ERR_MEM\<close> exactly when the queue is full, fetches
  answer \<open>SYS_MBOX_EMPTY\<close> exactly when it is empty and otherwise give the messages in order, and the other
  mailboxes keep theirs. A mailbox larger than the buffer halts.\<close>
theorem mbox_refines_queue:
  assumes "kernel_mailbox K contents capacity" "0 < n"
  shows "case sys_mbox_new K q mbox (int n) w of
      Inl e \<Rightarrow> e = Mailbox_too_big \<and> q < int n
    | Inr (err, mbox, w1) \<Rightarrow> int n \<le> q \<and> err = ERR_OK \<and>
        (\<exists>w'. mbox_run K mbox cs w1 = Some (fst (queue_run n cs []), w')
          \<and> contents w' = (contents w)(mbox_addr mbox := snd (queue_run n cs [])))"
proof (cases "int n \<le> q")
  case True
  let ?m = "mbox\<lparr>mbox_is_valid := True\<rparr>" and ?w = "chMBObjectInit K (mbox_addr mbox) n w"
  have "mbox_is_valid ?m" by simp
  from kernel_mailbox.run_queue[OF assms(1) this, of cs ?w]
  show ?thesis using True by (auto simp: sys_mbox_new_def kernel_mailbox.mb_init[OF assms])
qed (simp add: sys_mbox_new_def)

theorem mbox_refines_queue_witness:
  "case sys_mbox_new ref_kernel 16 \<lparr>mbox_addr = 7, mbox_is_valid = False\<rparr> (int 2) \<lparr>rk_time = 0, rk_contents = (\<lambda>_. [5]), rk_capacity = (\<lambda>_. 1)\<rparr> of
      Inl e \<Rightarrow> e = Mailbox_too_big \<and> 16 < int 2
    | Inr (err, mbox, w1) \<Rightarrow> int 2 \<le> 16 \<and> err = ERR_OK \<and>
        (\<exists>w'. mbox_run ref_kernel mbox [Try_post 1, Try_post 2, Try_post 3, Try_fetch] w1
            = Some (fst (queue_run 2 [Try_post 1, Try_post 2, Try_post 3, Try_fetch] []), w')
          \<and> rk_contents w' = (rk_contents \<lparr>rk_time = 0, rk_contents = (\<lambda>_. [5]), rk_capacity = (\<lambda>_. 1)\<rparr>)
              (mbox_addr mbox := snd (queue_run 2 [Try_post 1, Try_post 2, Try_post 3, Try_fetch] [])))"
  by (rule mbox_refines_queue[OF ref_mailboxes.kernel_mailbox_axioms]) simp

end
