(* ===== verification/Can_Interface.thy ===== *)
theory Can_Interface
  imports Prelude
begin

section \<open>The CAN interface of Aseba (\<open>src/aseba_vm/aseba_can_interface.c\<close>)\<close>

text \<open>
  Robots on one CAN bus exchange the frames of the Aseba network. The driver of the operating system
  gives received frames (\<open>can_rx_frame\<close>) and takes frames to send (\<open>can_tx_frame\<close>); its registers hold an
  identifier of 11 bits and a length code of 4 bits. The network layer of Aseba is a parameter: what it
  does with a received frame and with the end of a transmission (\<open>aseba_net\<close>). The receiving thread drops
  extended and remote frames. \<open>None\<close> is undefined behaviour: an access past the eight data bytes.
\<close>

record can_frame =
  cf_id :: u32
  cf_len :: u32
  cf_data :: "u8 list"

record can_rx_frame =
  rx_IDE :: bool
  rx_RTR :: bool
  rx_SID :: u32
  rx_DLC :: u32
  rx_data8 :: "u8 list"

record can_tx_frame =
  tx_DLC :: u32
  tx_RTR :: bool
  tx_IDE :: bool
  tx_SID :: u32
  tx_data8 :: "u8 list"

text \<open>The copy loops over the data bytes; both arrays hold eight bytes.\<close>

fun copy_data :: "nat \<Rightarrow> nat \<Rightarrow> u8 list \<Rightarrow> u8 list \<Rightarrow> u8 list option" where
  "copy_data i 0 src dst = Some dst"
| "copy_data i (Suc n) src dst =
     (if i < length src \<and> i < length dst then copy_data (Suc i) n src (dst[i := src ! i]) else None)"

text \<open>What the thread makes of a received frame: nothing, or a frame for Aseba. \<open>junk\<close> is the content of
  the frame variable on the stack.\<close>

definition can_rx :: "u8 list \<Rightarrow> can_rx_frame \<Rightarrow> can_frame option option" where
  "can_rx junk rxf =
     (if rx_IDE rxf then Some None
      else if rx_RTR rxf then Some None
      else map_option (\<lambda>data. Some \<lparr>cf_id = rx_SID rxf, cf_len = rx_DLC rxf, cf_data = data\<rparr>)
        (copy_data 0 (unat (rx_DLC rxf)) (rx_data8 rxf) junk))"

text \<open>A round of \<open>can_rx_thd\<close>; the reception may have timed out.\<close>

record 'n aseba_net =
  AsebaCanFrameReceived :: "can_frame \<Rightarrow> 'n \<Rightarrow> 'n"
  AsebaCanFrameSent :: "'n \<Rightarrow> 'n"

definition can_rx_round :: "'n aseba_net \<Rightarrow> u8 list \<Rightarrow> can_rx_frame option \<Rightarrow> 'n \<Rightarrow> 'n option" where
  "can_rx_round N junk m n =
     (case m of None \<Rightarrow> Some n
      | Some rxf \<Rightarrow> Option.bind (can_rx junk rxf) (\<lambda>f.
          Some (case f of None \<Rightarrow> n | Some f \<Rightarrow> AsebaCanFrameReceived N f n)))"

definition can1_mcr :: u32 where "can1_mcr = push_bit 6 1 OR push_bit 2 1"
definition can1_btr :: u32 where "can1_btr = push_bit 0 1 OR push_bit 16 11 OR push_bit 20 7 OR push_bit 24 0"

text \<open>The frame given to the driver: the fields are bit fields of 11 and 4 bits.\<close>

definition can_tx :: "u8 list \<Rightarrow> can_frame \<Rightarrow> can_tx_frame option" where
  "can_tx junk frame =
     map_option (\<lambda>data. \<lparr>tx_DLC = take_bit 4 (cf_len frame), tx_RTR = False, tx_IDE = False,
         tx_SID = take_bit 11 (cf_id frame), tx_data8 = data\<rparr>)
       (copy_data 0 (unat (cf_len frame)) (cf_data frame) junk)"

text \<open>\<open>aseba_can_send_frame\<close>: \<open>transmit\<close> puts the frame on the bus or times out; its result is not used.
  The lock is held throughout.\<close>

record 'b can_world =
  can_bus :: 'b
  can_lock :: bool

definition aseba_can_lock :: "'b can_world \<Rightarrow> 'b can_world option" where
  "aseba_can_lock w = (if can_lock w then None else Some (w\<lparr>can_lock := True\<rparr>))"

definition aseba_can_unlock :: "'b can_world \<Rightarrow> 'b can_world" where
  "aseba_can_unlock w = w\<lparr>can_lock := False\<rparr>"

definition aseba_can_send_frame ::
  "'n aseba_net \<Rightarrow> (can_tx_frame \<Rightarrow> 'b \<Rightarrow> bool \<times> 'b) \<Rightarrow> u8 list \<Rightarrow> can_frame \<Rightarrow> 'n \<times> 'b can_world \<Rightarrow> ('n \<times> 'b can_world) option" where
  "aseba_can_send_frame N transmit junk frame = (\<lambda>(n, w).
     Option.bind (aseba_can_lock w) (\<lambda>w.
     Option.bind (can_tx junk frame) (\<lambda>txf.
     let w = w\<lparr>can_bus := snd (transmit txf (can_bus w))\<rparr>
     in Some (AsebaCanFrameSent N n, aseba_can_unlock w))))"

definition aseba_can_is_frame_room :: "('b \<Rightarrow> bool) \<Rightarrow> 'b can_world \<Rightarrow> bool" where
  "aseba_can_is_frame_room tx_empty w = tx_empty (can_bus w)"

definition aseba_can_rx_dropped :: "'n \<Rightarrow> 'n" where "aseba_can_rx_dropped n = n"
definition aseba_can_tx_dropped :: "'n \<Rightarrow> 'n" where "aseba_can_tx_dropped n = n"

subsection \<open>From robot to robot\<close>

text \<open>What the bus delivers of a transmitted frame.\<close>

definition can_wire :: "can_tx_frame \<Rightarrow> can_rx_frame" where
  "can_wire txf = \<lparr>rx_IDE = tx_IDE txf, rx_RTR = tx_RTR txf, rx_SID = tx_SID txf, rx_DLC = tx_DLC txf,
     rx_data8 = take (unat (tx_DLC txf)) (tx_data8 txf) @ replicate (8 - unat (tx_DLC txf)) 0\<rparr>"

lemma copy_data_spec:
  "i + n \<le> length src \<Longrightarrow> i + n \<le> length dst \<Longrightarrow>
    copy_data i n src dst = Some (take i dst @ take n (drop i src) @ drop (i + n) dst)"
proof (induction n arbitrary: i dst)
  case (Suc n)
  have "copy_data i (Suc n) src dst = copy_data (Suc i) n src (dst[i := src ! i])"
    using Suc.prems by simp
  also have "\<dots> = Some (take (Suc i) (dst[i := src ! i]) @ take n (drop (Suc i) src) @ drop (Suc i + n) (dst[i := src ! i]))"
    using Suc.prems by (intro Suc.IH) simp_all
  also have "take (Suc i) (dst[i := src ! i]) = take i dst @ [src ! i]"
    using Suc.prems by (simp add: take_Suc_conv_app_nth)
  also have "take (Suc n) (drop i src) = src ! i # take n (drop (Suc i) src)"
    using Suc.prems by (simp add: Cons_nth_drop_Suc[symmetric])
  ultimately show ?case by simp
qed simp

lemma copy_data_overrun: "min (length src) (length dst) < i + n \<Longrightarrow> i \<le> min (length src) (length dst) \<Longrightarrow> copy_data i n src dst = None"
proof (induction n arbitrary: i dst)
  case (Suc n)
  show ?case
  proof (cases "i < length src \<and> i < length dst")
    case True
    then show ?thesis using Suc.IH[of "dst[i := src ! i]" "Suc i"] Suc.prems by simp
  next
    case False
    then show ?thesis by auto
  qed
qed simp

lemma take_bit_small: "w < 2 ^ 4 \<Longrightarrow> take_bit 4 (w :: u32) = w" "w < 2 ^ 11 \<Longrightarrow> take_bit 11 (w :: u32) = w"
  by (simp_all add: word_unat_eq_iff unsigned_take_bit_eq take_bit_nat_eq_self word_less_nat_alt)

lemma can_tx_spec:
  assumes "length (cf_data f) = 8" "cf_len f \<le> 8" "cf_id f < 2 ^ 11" "length junk = 8"
  shows "can_tx junk f = Some \<lparr>tx_DLC = cf_len f, tx_RTR = False, tx_IDE = False, tx_SID = cf_id f,
    tx_data8 = take (unat (cf_len f)) (cf_data f) @ drop (unat (cf_len f)) junk\<rparr>"
proof -
  have l: "unat (cf_len f) \<le> 8" using assms(2) by (simp add: word_le_nat_alt)
  then have "cf_len f < 2 ^ 4" by (simp add: word_less_nat_alt)
  then show ?thesis
    using l assms by (simp add: can_tx_def copy_data_spec take_bit_small)
qed

text \<open>A network side that keeps the frames it was given and counts the ones sent.\<close>

definition ref_net :: "(can_frame list \<times> nat) aseba_net" where
  "ref_net = \<lparr>AsebaCanFrameReceived = (\<lambda>f (fs, n). (fs @ [f], n)), AsebaCanFrameSent = (\<lambda>(fs, n). (fs, n + 1))\<rparr>"

text \<open>C27. A frame of at most eight bytes with an identifier of 11 bits goes from robot to robot unchanged:
  the sender puts one frame on the bus under the lock, which it releases, and reports the frame as sent
  whether or not the driver took it; the receiver hands a frame with the same identifier, length and
  data to Aseba. A received data frame whose length code is above eight overruns the frame on the
  stack; extended and remote frames are dropped.\<close>
theorem can_frame_roundtrip:
  assumes "length (cf_data f) = 8" "cf_len f \<le> 8" "cf_id f < 2 ^ 11" "length junk = 8" "length junk' = 8" "\<not> can_lock w"
  shows "\<exists>t. aseba_can_send_frame N transmit junk f (n, w) = Some (AsebaCanFrameSent N n, w\<lparr>can_bus := snd (transmit t (can_bus w))\<rparr>)
    \<and> can_rx_round N junk' (Some (can_wire t)) n' = Some (AsebaCanFrameReceived N
        (f\<lparr>cf_data := take (unat (cf_len f)) (cf_data f) @ drop (unat (cf_len f)) junk'\<rparr>) n')
    \<and> (\<forall>rxf. length (rx_data8 rxf) = 8 \<longrightarrow> can_rx_round N junk' (Some rxf) n' =
        (if rx_IDE rxf \<or> rx_RTR rxf then Some n'
         else if 8 < rx_DLC rxf then None
         else Some (AsebaCanFrameReceived N \<lparr>cf_id = rx_SID rxf, cf_len = rx_DLC rxf,
             cf_data = take (unat (rx_DLC rxf)) (rx_data8 rxf) @ drop (unat (rx_DLC rxf)) junk'\<rparr> n')))"
proof -
  let ?t = "\<lparr>tx_DLC = cf_len f, tx_RTR = False, tx_IDE = False, tx_SID = cf_id f,
    tx_data8 = take (unat (cf_len f)) (cf_data f) @ drop (unat (cf_len f)) junk\<rparr>"
  have rx: "can_rx_round N junk' (Some rxf) n' =
      (if rx_IDE rxf \<or> rx_RTR rxf then Some n'
       else if 8 < rx_DLC rxf then None
       else Some (AsebaCanFrameReceived N \<lparr>cf_id = rx_SID rxf, cf_len = rx_DLC rxf,
           cf_data = take (unat (rx_DLC rxf)) (rx_data8 rxf) @ drop (unat (rx_DLC rxf)) junk'\<rparr> n'))"
    if "length (rx_data8 rxf) = 8" for rxf
    using that assms(5)
    by (auto simp: can_rx_round_def can_rx_def word_less_nat_alt copy_data_spec copy_data_overrun)
  have l: "unat (cf_len f) \<le> 8" using assms(2) by (simp add: word_le_nat_alt)
  have "aseba_can_send_frame N transmit junk f (n, w) = Some (AsebaCanFrameSent N n, w\<lparr>can_bus := snd (transmit ?t (can_bus w))\<rparr>)"
    using assms(6) by (cases w) (simp add: aseba_can_send_frame_def aseba_can_lock_def aseba_can_unlock_def can_tx_spec[OF assms(1-4)])
  moreover have "can_rx_round N junk' (Some (can_wire ?t)) n' = Some (AsebaCanFrameReceived N
      (f\<lparr>cf_data := take (unat (cf_len f)) (cf_data f) @ drop (unat (cf_len f)) junk'\<rparr>) n')"
    using l assms(1,2,4) rx[of "can_wire ?t"] by (cases f) (simp add: can_wire_def not_less)
  ultimately show ?thesis using rx by blast
qed

theorem can_frame_roundtrip_witness:
  "let f = \<lparr>cf_id = 0x123, cf_len = 3, cf_data = [1, 2, 3, 0, 0, 0, 0, 0]\<rparr> in
    \<exists>t. aseba_can_send_frame ref_net (\<lambda>t bus. (True, bus @ [t])) (replicate 8 0xAA) f (([], 0), \<lparr>can_bus = [], can_lock = False\<rparr>)
      = Some (([], 1), \<lparr>can_bus = [t], can_lock = False\<rparr>)
    \<and> can_rx_round ref_net (replicate 8 0x55) (Some (can_wire t)) ([], 0)
      = Some ([\<lparr>cf_id = 0x123, cf_len = 3, cf_data = [1, 2, 3, 0x55, 0x55, 0x55, 0x55, 0x55]\<rparr>], 0)
    \<and> can_rx_round ref_net (replicate 8 0x55) (Some \<lparr>rx_IDE = False, rx_RTR = False, rx_SID = 1, rx_DLC = 9, rx_data8 = replicate 8 0\<rparr>) ([], 0) = None"
proof -
  have e: "take (unat (3 :: u32)) [1, 2, 3, 0, 0, 0, 0, 0 :: u8] @ drop (unat (3 :: u32)) (replicate 8 0x55) = [1, 2, 3, 0x55, 0x55, 0x55, 0x55, 0x55]"
    by code_simp
  have n: "AsebaCanFrameSent ref_net ([], 0) = ([], 1)" "AsebaCanFrameReceived ref_net f ([], 0) = ([f], 0)" for f
    by (simp_all add: ref_net_def)
  show ?thesis
    using can_frame_roundtrip[of "\<lparr>cf_id = 0x123, cf_len = 3, cf_data = [1, 2, 3, 0, 0, 0, 0, 0]\<rparr>" "replicate 8 0xAA" "replicate 8 0x55"
      "\<lparr>can_bus = [], can_lock = False\<rparr>" ref_net "\<lambda>t bus. (True, bus @ [t])" "([], 0)" "([], 0)"]
    by (simp only: e n can_frame.simps can_world.simps length_replicate Let_def snd_conv append_Nil) fastforce
qed

end
