(* ===== verification/Shell_Cmd.thy ===== *)
theory Shell_Cmd
  imports Config_Refinement Aseba_Vars Adc_Sensors Spi_I2c_Sensors
begin

section \<open>The commands of the debug shell (\<open>src/cmd.c\<close>)\<close>

text \<open>
  Each command is a function from its arguments and the state it uses to its output and the new state.
  \<^item> \<open>formats\<close> holds the conversions of the C library: numbers to text for \<open>chprintf\<close> and back for \<open>atof\<close>
    and \<open>sscanf\<close>. \<open>'t waits\<close> holds what the bus does besides the operations of \<open>msgbus\<close>: the next
    publication of a topic, and the names of the topics.
  \<^item> The parameter tree is seen through the fields the commands read: \<open>namespace\<close> has the fields
    \<open>parameter_list\<close>, \<open>subspaces\<close> and \<open>next\<close> of the library's structure.
  \<^item> \<open>None\<close> is a command that waits for ever, or prints a message it never received.
  \<open>config_tree_renders\<close> states what \<open>config_tree\<close> prints, \<open>config_set_typed\<close> that \<open>config_set\<close> changes
  nothing but the named parameter and only to a value of its type. The test commands, which start
  threads of the operating system or fault on purpose, are not modelled.
\<close>

definition crlf :: string where "crlf = [char_of (13 :: nat), char_of (10 :: nat)]"

record formats =
  fmt_d :: "u32 \<Rightarrow> string"
  fmt_4d :: "u32 \<Rightarrow> string"
  fmt_f :: "fp \<Rightarrow> string"
  fmt_2f :: "fp \<Rightarrow> string"
  fmt_type :: "int \<Rightarrow> string"
  atof :: "string \<Rightarrow> fp"
  scan_d :: "string \<Rightarrow> u32 option"
  scan_f :: "string \<Rightarrow> fp option"

record ('t, 'b) waits =
  mb_wait :: "'t \<Rightarrow> 'b \<Rightarrow> (message \<times> 'b) option"
  mb_names :: "'b \<Rightarrow> string list"

subsection \<open>Reading sensors\<close>

definition wait_topic :: "('t, 'b) msgbus \<Rightarrow> ('t, 'b) waits \<Rightarrow> string \<Rightarrow> 'b \<Rightarrow> (message \<times> 'b) option" where
  "wait_topic mb W n b = Option.bind (mb_find mb b n) (\<lambda>t. mb_wait W t b)"

definition print_pair :: "string \<Rightarrow> string \<Rightarrow> string \<Rightarrow> string \<Rightarrow> string" where
  "print_pair l x r y = l @ x @ crlf @ r @ y @ crlf"

definition cmd_encoders :: "formats \<Rightarrow> ('t, 'b) msgbus \<Rightarrow> ('t, 'b) waits \<Rightarrow> 'b \<Rightarrow> (string \<times> 'b) option" where
  "cmd_encoders F mb W b = Option.bind (wait_topic mb W ''/encoders'' b) (\<lambda>(m, b).
     case m of Encoders_msg l r \<Rightarrow> Some (print_pair ''left: '' (fmt_d F l) ''right: '' (fmt_d F r), b) | _ \<Rightarrow> None)"

definition cmd_wheel_pos :: "formats \<Rightarrow> ('t, 'b) msgbus \<Rightarrow> ('t, 'b) waits \<Rightarrow> 'b \<Rightarrow> (string \<times> 'b) option" where
  "cmd_wheel_pos F mb W b = Option.bind (wait_topic mb W ''/wheel_pos'' b) (\<lambda>(m, b).
     case m of Wheel_pos_msg l r \<Rightarrow> Some (print_pair ''left: '' (fmt_f F l) ''right: '' (fmt_f F r), b) | _ \<Rightarrow> None)"

definition cmd_wheel_vel :: "formats \<Rightarrow> ('t, 'b) msgbus \<Rightarrow> ('t, 'b) waits \<Rightarrow> 'b \<Rightarrow> (string \<times> 'b) option" where
  "cmd_wheel_vel F mb W b = Option.bind (wait_topic mb W ''/wheel_velocities'' b) (\<lambda>(m, b).
     case m of Wheel_velocities_msg l r \<Rightarrow> Some (print_pair ''left: '' (fmt_f F l) ''right: '' (fmt_f F r), b) | _ \<Rightarrow> None)"

definition cmd_current :: "formats \<Rightarrow> ('t, 'b) msgbus \<Rightarrow> ('t, 'b) waits \<Rightarrow> 'b \<Rightarrow> (string \<times> 'b) option" where
  "cmd_current F mb W b = Option.bind (wait_topic mb W ''/motors/current'' b) (\<lambda>(m, b).
     case m of Motor_current_msg l r \<Rightarrow> Some (print_pair ''left='' (fmt_2f F l) ''right='' (fmt_2f F r), b) | _ \<Rightarrow> None)"

definition print_triple :: "formats \<Rightarrow> string \<Rightarrow> fp list \<Rightarrow> string" where
  "print_triple F n xs = n @ fmt_2f F (xs ! 0) @ '' '' @ fmt_2f F (xs ! 1) @ '' '' @ fmt_2f F (xs ! 2) @ crlf"

definition cmd_imu :: "formats \<Rightarrow> ('t, 'b) msgbus \<Rightarrow> 'b \<Rightarrow> (string \<times> 'b) option" where
  "cmd_imu F mb b =
     (case mb_find mb b ''/imu'' of None \<Rightarrow> Some (''Could not find topic.'' @ crlf, b)
      | Some topic \<Rightarrow> (case mb_read mb b topic of
          None \<Rightarrow> Some (''Topic was never published.'' @ crlf, b)
        | Some (Imu_msg acceleration roll_rate) \<Rightarrow>
            Some (print_triple F ''gyro: '' roll_rate @ print_triple F ''acc: '' acceleration, b)
        | _ \<Rightarrow> None))"

definition cmd_range :: "formats \<Rightarrow> ('t, 'b) msgbus \<Rightarrow> 'b \<Rightarrow> (string \<times> 'b) option" where
  "cmd_range F mb b = Option.bind (range_get_range mb b)
     (\<lambda>distance_m. Some (''distance = '' @ fmt_2f F distance_m @ '' m'' @ crlf, b))"

text \<open>The result of \<open>messagebus_topic_read\<close> is not used: a topic that was never published leaves the message
  uninitialised.\<close>

definition cmd_proximity :: "formats \<Rightarrow> ('t, 'b) msgbus \<Rightarrow> 'b \<Rightarrow> (string \<times> 'b) option" where
  "cmd_proximity F mb b =
     (case mb_find mb b ''/proximity'' of None \<Rightarrow> Some (''Proximity topic not found!'' @ crlf, b)
      | Some topic \<Rightarrow> (case mb_read mb b topic of
          Some (Proximity_msg ambient reflected delta) \<Rightarrow>
            Some (concat (map (\<lambda>i. fmt_4d F (delta ! i) @ [char_of (9 :: nat)]) [0..<PROXIMITY_NB_CHANNELS]) @ crlf, b)
        | _ \<Rightarrow> None))"

definition cmd_battery :: "formats \<Rightarrow> ('t, 'b) msgbus \<Rightarrow> 'b \<Rightarrow> (string \<times> 'b) option" where
  "cmd_battery F mb b =
     (case mb_find mb b ''/battery_level'' of None \<Rightarrow> Some (''Battery topic not found!'' @ crlf, b)
      | Some topic \<Rightarrow> (case mb_read mb b topic of
          Some (Battery_msg voltage) \<Rightarrow> Some (''Battery voltage: '' @ fmt_2f F voltage @ '' [V]'' @ crlf, b)
        | _ \<Rightarrow> None))"

subsection \<open>Topics\<close>

definition topics_usage :: string where
  "topics_usage = ''usage:'' @ crlf @ ''topics list -- Lists all available topics.'' @ crlf @
     ''topics hz topic_name -- Displays the rate of the topic over a 5 second window.''"

text \<open>The clock and the condition variable of the topic: whether the wait of 10 ms was signalled. The mutex
  is held again only when it was.\<close>

record 'w topic_clock =
  tc_now :: "'w \<Rightarrow> u32"
  tc_wait :: "'w \<Rightarrow> bool \<times> 'w"

definition MS2ST_5000 :: u32 where "MS2ST_5000 = 50000"

partial_function (option) hz_loop :: "'w topic_clock \<Rightarrow> u32 \<Rightarrow> u32 \<Rightarrow> 'w \<Rightarrow> (u32 \<times> 'w) option" where
  "hz_loop C limit message_counter w =
     (if tc_now C w < limit
      then case tc_wait C w of (signalled, w) \<Rightarrow>
        hz_loop C limit (if signalled then message_counter + 1 else message_counter) w
      else Some (message_counter, w))"

definition topics_hz :: "formats \<Rightarrow> 'w topic_clock \<Rightarrow> 'w \<Rightarrow> (string \<times> 'w) option" where
  "topics_hz F C w =
     (let start = tc_now C w in
      Option.bind (hz_loop C (start + MS2ST_5000) 0 w) (\<lambda>(message_counter, w).
      Some (if message_counter = 0 then ''No messages.'' @ crlf
            else ''Average rate: '' @ fmt_2f F (fdiv f64 (f_of_int f64 (uint message_counter)) (f_of_int f64 5)) @ '' Hz'' @ crlf, w)))"

definition cmd_topics ::
  "formats \<Rightarrow> ('t, 'b) msgbus \<Rightarrow> ('t, 'b) waits \<Rightarrow> ('t \<Rightarrow> 'b topic_clock) \<Rightarrow> string list \<Rightarrow> 'b \<Rightarrow> (string \<times> 'b) option" where
  "cmd_topics F mb W C argv b =
     (case argv of [] \<Rightarrow> Some (topics_usage @ crlf, b)
      | a # as \<Rightarrow>
          if a = ''list'' then Some (''available topics:'' @ crlf @ concat (map (\<lambda>n. n @ crlf) (mb_names W b)), b)
          else if a = ''hz'' then
            (case as of [n] \<Rightarrow>
               (case mb_find mb b n of
                  None \<Rightarrow> Some (''Cannot find topic '' @ [char_of (34 :: nat)] @ n @ [char_of (34 :: nat)] @ ''.'' @ crlf, b)
                | Some topic \<Rightarrow> topics_hz F (C topic) b)
             | _ \<Rightarrow> Some (topics_usage @ crlf, b))
          else Some (topics_usage @ crlf, b))"

subsection \<open>Setpoints, LEDs, sounds\<close>

definition cmd_setpoint :: "formats \<Rightarrow> ('t, 'b) msgbus \<Rightarrow> string list \<Rightarrow> 'b \<Rightarrow> string \<times> 'b" where
  "cmd_setpoint F mb argv b =
     (if length argv < 3 then (''Usage: setpoint cur|vel|pos left right'' @ crlf, b)
      else case mb_find mb b ''/motors/setpoint'' of None \<Rightarrow> (''Cannot find setpoint topic.'' @ crlf, b)
      | Some topic \<Rightarrow>
          let left = f_conv f32 (atof F (argv ! 1)); right = f_conv f32 (atof F (argv ! 2));
              mode = (if argv ! 0 = ''cur'' \<or> argv ! 0 = ''current'' then Some MOTOR_CONTROLLER_CURRENT
                else if argv ! 0 = ''vel'' \<or> argv ! 0 = ''velocity'' then Some MOTOR_CONTROLLER_VELOCITY
                else if argv ! 0 = ''pos'' \<or> argv ! 0 = ''position'' then Some MOTOR_CONTROLLER_POSITION
                else None)
          in case mode of None \<Rightarrow> (''Unknown setpoint mode'' @ crlf @ ''.'', b)
             | Some m \<Rightarrow> ('''', mb_publish mb topic (Wheels_setpoint_msg (of_nat (mode_num m)) left right) b))"

definition cmd_leds_step :: "('t, 'b) msgbus \<Rightarrow> nat \<Rightarrow> string \<times> 'b \<Rightarrow> string \<times> 'b" where
  "cmd_leds_step mb i = (\<lambda>(out, b).
     case mb_find mb b (led_topic_name i) of
       Some topic \<Rightarrow> (out, mb_publish mb topic (Body_led_msg (f_conv f32 (f_of_int f64 1))) b)
     | None \<Rightarrow> (out @ ''Cannot find topic '' @ [char_of (34 :: nat)] @ led_topic_name i @ [char_of (34 :: nat)] @ crlf, b))"

definition cmd_leds :: "('t, 'b) msgbus \<Rightarrow> 'b \<Rightarrow> string \<times> 'b" where
  "cmd_leds mb b = fold (cmd_leds_step mb) [0..<BODY_LED_COUNT] ('''', b)"

fun audio_status_code :: "audio_play_status \<Rightarrow> int" where
  "audio_status_code AUDIO_OK = 0"
| "audio_status_code AUDIO_FILE_NOT_FOUND = 1"
| "audio_status_code AUDIO_WAV_DECODE = 2"

text \<open>The path of the request holds 63 characters and a zero.\<close>

definition cmd_play :: "formats \<Rightarrow> ('t, 'b) msgbus \<Rightarrow> ('t, 'b) waits \<Rightarrow> string list \<Rightarrow> 'b \<Rightarrow> (string \<times> 'b) option" where
  "cmd_play F mb W argv b =
     (case (mb_find mb b ''/audio/play/request'', mb_find mb b ''/audio/play/result'') of
        (Some req_topic, Some res_topic) \<Rightarrow>
          (case argv of [file] \<Rightarrow>
             let path = take 63 file; b = mb_publish mb req_topic (Audio_play_request_msg path) b
             in Option.bind (mb_wait W res_topic b) (\<lambda>(m, b).
                case m of Audio_play_result_msg status \<Rightarrow>
                  Some (''Playing '' @ path @ ''...'' @ crlf @
                    (if status = AUDIO_OK then ''Done.'' @ crlf
                     else ''Error: '' @ fmt_type F (audio_status_code status) @ crlf), b)
                | _ \<Rightarrow> None)
           | _ \<Rightarrow> Some (''Usage: play file.wav'' @ crlf, b))
      | _ \<Rightarrow> Some (''Cannot find topics. Is audio thread running?'' @ crlf, b))"

definition cmd_shutdown :: "board_pins \<Rightarrow> board_pins" where
  "cmd_shutdown p = board_shutdown p"

subsection \<open>Printing the parameter tree\<close>

datatype param_value = Scalar_v fp | Integer_v u32 | Boolean_v bool | String_v string | Other_v int

record param_view =
  pv_id :: string
  pv_defined :: bool
  pv_value :: param_value

datatype namespace = Namespace (ns_id: string) (parameter_list: "param_view list")
  (subspaces: "namespace option") (ns_next: "namespace option")

definition tree_indent :: "nat \<Rightarrow> string" where
  "tree_indent k = concat (map (\<lambda>i. ''  '') [0..<k])"

text \<open>\<open>string_get\<close> is \<open>parameter_string_get\<close> on a buffer of 64 bytes.\<close>

definition show_param :: "formats \<Rightarrow> (string \<Rightarrow> nat \<Rightarrow> string) \<Rightarrow> param_view \<Rightarrow> nat \<Rightarrow> string" where
  "show_param F string_get p k = tree_indent (k + 1) @
     (if pv_defined p then
        (case pv_value p of
           Scalar_v x \<Rightarrow> pv_id p @ '': '' @ fmt_f F x @ crlf
         | Integer_v i \<Rightarrow> pv_id p @ '': '' @ fmt_d F i @ crlf
         | Boolean_v v \<Rightarrow> pv_id p @ '': '' @ (if v then ''true'' else ''false'') @ crlf
         | String_v s \<Rightarrow> pv_id p @ '': '' @ string_get s 64 @ crlf
         | Other_v t \<Rightarrow> pv_id p @ '': unknown type '' @ fmt_type F t @ crlf)
      else pv_id p @ '': [not set]'' @ crlf)"

fun show_config_tree :: "formats \<Rightarrow> (string \<Rightarrow> nat \<Rightarrow> string) \<Rightarrow> namespace \<Rightarrow> nat \<Rightarrow> string" where
  "show_config_tree F G (Namespace i ps sub nxt) k =
     tree_indent k @ i @ '':'' @ crlf @ concat (map (\<lambda>p. show_param F G p k) ps)
     @ (case sub of None \<Rightarrow> '''' | Some s \<Rightarrow> show_config_tree F G s (k + 1))
     @ (case nxt of None \<Rightarrow> '''' | Some n \<Rightarrow> show_config_tree F G n k)"

text \<open>\<open>ns_find\<close> is \<open>parameter_namespace_find\<close> on the tree.\<close>

definition cmd_config_tree ::
  "formats \<Rightarrow> (string \<Rightarrow> nat \<Rightarrow> string) \<Rightarrow> (namespace \<Rightarrow> string \<Rightarrow> namespace option) \<Rightarrow> namespace \<Rightarrow> string list \<Rightarrow> string" where
  "cmd_config_tree F G ns_find tree_root argv =
     (if length argv \<noteq> 1 then show_config_tree F G tree_root 0
      else case ns_find tree_root (argv ! 0) of
          None \<Rightarrow> ''Cannot find subtree.'' @ crlf
        | Some ns \<Rightarrow> show_config_tree F G ns 0)"

text \<open>The tree the linked structure stands for, and its rendering.\<close>

datatype ptree = PTree string "param_view list" "ptree list"

fun forest :: "namespace \<Rightarrow> ptree list" where
  "forest (Namespace i ps sub nxt) =
     PTree i ps (case sub of None \<Rightarrow> [] | Some s \<Rightarrow> forest s) # (case nxt of None \<Rightarrow> [] | Some n \<Rightarrow> forest n)"

fun render :: "formats \<Rightarrow> (string \<Rightarrow> nat \<Rightarrow> string) \<Rightarrow> nat \<Rightarrow> ptree \<Rightarrow> string" where
  "render F G k (PTree i ps ts) = tree_indent k @ i @ '':'' @ crlf @ concat (map (\<lambda>p. show_param F G p k) ps)
     @ concat (map (render F G (k + 1)) ts)"

lemma show_config_tree_forest: "show_config_tree F G n k = concat (map (render F G k) (forest n))"
  by (induction F G n k rule: show_config_tree.induct) (auto split: option.splits)

subsection \<open>Setting a parameter\<close>

datatype param_type = PARAM_TYPE_SCALAR | PARAM_TYPE_INTEGER | PARAM_TYPE_BOOLEAN | PARAM_TYPE_STRING | PARAM_TYPE_OTHER int

record ('h, 'p) config_params =
  cp_find :: "'p \<Rightarrow> string \<Rightarrow> 'h option"
  cp_type :: "'p \<Rightarrow> 'h \<Rightarrow> param_type"
  cp_id :: "'p \<Rightarrow> 'h \<Rightarrow> string"
  cp_integer_set :: "'h \<Rightarrow> u32 \<Rightarrow> 'p \<Rightarrow> 'p"
  cp_scalar_set :: "'h \<Rightarrow> fp \<Rightarrow> 'p \<Rightarrow> 'p"
  cp_boolean_set :: "'h \<Rightarrow> bool \<Rightarrow> 'p \<Rightarrow> 'p"
  cp_string_set :: "'h \<Rightarrow> string \<Rightarrow> 'p \<Rightarrow> 'p"

definition cmd_config_set :: "formats \<Rightarrow> ('h, 'p) config_params \<Rightarrow> string list \<Rightarrow> 'p \<Rightarrow> string \<times> 'p" where
  "cmd_config_set F P argv p =
     (if length argv \<noteq> 2 then (''Usage: config_set /parameter/url value.'' @ crlf, p)
      else case cp_find P p (argv ! 0) of
          None \<Rightarrow> (''Could not find parameter '' @ [char_of (34 :: nat)] @ argv ! 0 @ [char_of (34 :: nat)] @ crlf, p)
        | Some param \<Rightarrow>
            (case cp_type P p param of
               PARAM_TYPE_INTEGER \<Rightarrow>
                 (case scan_d F (argv ! 1) of Some value_i \<Rightarrow> ('''', cp_integer_set P param value_i p)
                  | None \<Rightarrow> (''Invalid value for integer parameter.'' @ crlf, p))
             | PARAM_TYPE_SCALAR \<Rightarrow>
                 (case scan_f F (argv ! 1) of Some value_f \<Rightarrow> ('''', cp_scalar_set P param value_f p)
                  | None \<Rightarrow> (''Invalid value for scalar parameter.'' @ crlf, p))
             | PARAM_TYPE_BOOLEAN \<Rightarrow>
                 if argv ! 1 = ''true'' then ('''', cp_boolean_set P param True p)
                 else if argv ! 1 = ''false'' then ('''', cp_boolean_set P param False p)
                 else (''Invalid value for boolean parameter, must be true or false.'' @ crlf, p)
             | PARAM_TYPE_STRING \<Rightarrow>
                 if length argv = 2 then ('''', cp_string_set P param (argv ! 1) p)
                 else (''Invalid value for string parameter, must not use spaces.'' @ crlf, p)
             | PARAM_TYPE_OTHER t \<Rightarrow> (cp_id P p param @ '': unknown type '' @ fmt_type F t @ crlf, p)))"

text \<open>The library's parameters: each has a type that does not change, and a value that a setter of that type
  stores.\<close>

locale typed_parameters =
  fixes P :: "('h, 'p) config_params" and value_of :: "'p \<Rightarrow> 'h \<Rightarrow> param_value option"
  assumes integer_set: "cp_type P p h = PARAM_TYPE_INTEGER \<Longrightarrow>
      value_of (cp_integer_set P h i p) = (value_of p)(h \<mapsto> Integer_v i) \<and> cp_type P (cp_integer_set P h i p) = cp_type P p"
    and scalar_set: "cp_type P p h = PARAM_TYPE_SCALAR \<Longrightarrow>
      value_of (cp_scalar_set P h x p) = (value_of p)(h \<mapsto> Scalar_v x) \<and> cp_type P (cp_scalar_set P h x p) = cp_type P p"
    and boolean_set: "cp_type P p h = PARAM_TYPE_BOOLEAN \<Longrightarrow>
      value_of (cp_boolean_set P h v p) = (value_of p)(h \<mapsto> Boolean_v v) \<and> cp_type P (cp_boolean_set P h v p) = cp_type P p"
    and string_set: "cp_type P p h = PARAM_TYPE_STRING \<Longrightarrow>
      value_of (cp_string_set P h s p) = (value_of p)(h \<mapsto> String_v s) \<and> cp_type P (cp_string_set P h s p) = cp_type P p"

text \<open>What a text stands for, by the type of the parameter.\<close>

fun parse_value :: "formats \<Rightarrow> param_type \<Rightarrow> string \<Rightarrow> param_value option" where
  "parse_value F PARAM_TYPE_INTEGER s = map_option Integer_v (scan_d F s)"
| "parse_value F PARAM_TYPE_SCALAR s = map_option Scalar_v (scan_f F s)"
| "parse_value F PARAM_TYPE_BOOLEAN s =
     (if s = ''true'' then Some (Boolean_v True) else if s = ''false'' then Some (Boolean_v False) else None)"
| "parse_value F PARAM_TYPE_STRING s = Some (String_v s)"
| "parse_value F (PARAM_TYPE_OTHER t) s = None"

text \<open>A reference: parameters are their names, with a type and a value.\<close>

type_synonym ref_config = "(string \<times> param_type \<times> param_value option) list"

definition ref_put :: "string \<Rightarrow> param_value \<Rightarrow> ref_config \<Rightarrow> ref_config" where
  "ref_put h v = map (\<lambda>(n, t, w). (n, t, if n = h then Some v else w))"

definition ref_type :: "ref_config \<Rightarrow> string \<Rightarrow> param_type" where
  "ref_type p h = (case map_of p h of None \<Rightarrow> PARAM_TYPE_OTHER 0 | Some (t, v) \<Rightarrow> t)"

definition ref_value :: "ref_config \<Rightarrow> string \<Rightarrow> param_value option" where
  "ref_value p h = (case map_of p h of None \<Rightarrow> None | Some (t, v) \<Rightarrow> v)"

definition ref_config_params :: "(string, ref_config) config_params" where
  "ref_config_params = \<lparr>
     cp_find = (\<lambda>p n. map_option (\<lambda>_. n) (map_of p n)), cp_type = ref_type, cp_id = (\<lambda>p h. h),
     cp_integer_set = (\<lambda>h i. ref_put h (Integer_v i)), cp_scalar_set = (\<lambda>h x. ref_put h (Scalar_v x)),
     cp_boolean_set = (\<lambda>h v. ref_put h (Boolean_v v)), cp_string_set = (\<lambda>h s. ref_put h (String_v s))\<rparr>"

lemma map_of_ref_put: "map_of (ref_put h v p) n = (if n = h then map_option (\<lambda>(t, w). (t, Some v)) (map_of p n) else map_of p n)"
  by (induction p) (auto simp: ref_put_def)

lemma ref_put_type: "ref_type (ref_put h v p) = ref_type p"
  by (rule ext) (auto simp: ref_type_def map_of_ref_put split: option.splits)

lemma ref_put_value: "ref_type p h \<noteq> PARAM_TYPE_OTHER 0 \<Longrightarrow> ref_value (ref_put h v p) = (ref_value p)(h \<mapsto> v)"
  by (rule ext) (auto simp: ref_value_def ref_type_def map_of_ref_put split: option.splits)

interpretation ref_params_typed: typed_parameters ref_config_params ref_value
  by unfold_locales (simp_all add: ref_config_params_def ref_put_type ref_put_value)

subsection \<open>The configuration in flash\<close>

text \<open>The bounds of the region are addresses of bytes; \<open>mem_of\<close> reads the flash.\<close>

definition cmd_config_erase :: "'h flash_api \<Rightarrow> u32 \<Rightarrow> 'h \<Rightarrow> 'h option" where
  "cmd_config_erase api region_start h = config_erase api region_start h"

definition cmd_config_save ::
  "'h flash_api \<Rightarrow> crc_fun \<Rightarrow> ('ns, 'h) serializer \<Rightarrow> ('ns \<Rightarrow> u8 list \<Rightarrow> int \<times> 'ns) \<Rightarrow> u32 \<Rightarrow> u32 \<Rightarrow> 'ns \<times> 'h
    \<Rightarrow> (string \<times> 'ns \<times> 'h) option" where
  "cmd_config_save api crc wcmp mread region_start region_end = (\<lambda>(ns, h).
     let len = region_end - region_start in
     Option.bind (config_save api crc wcmp region_start len ns h) (\<lambda>h.
     Option.bind (config_load crc mread (api_mem api h) ns region_start) (\<lambda>(success, ns).
     Some ((if success then ''OK.'' else ''Save failed.'') @ crlf, ns, h))))"

definition cmd_config_load ::
  "crc_fun \<Rightarrow> ('ns \<Rightarrow> u8 list \<Rightarrow> int \<times> 'ns) \<Rightarrow> memory \<Rightarrow> u32 \<Rightarrow> 'ns \<Rightarrow> (string \<times> 'ns) option" where
  "cmd_config_load crc mread m region_start ns =
     Option.bind (config_load crc mread m ns region_start) (\<lambda>(success, ns).
     Some ((if success then ''OK.'' else ''Load failed.'') @ crlf, ns))"

subsection \<open>The table of commands\<close>

datatype command = C_test | C_range | C_proximity | C_battery | C_current | C_topics | C_setpoint | C_encoders
  | C_wheel_pos | C_wheel_vel | C_imu | C_reboot | C_config_tree | C_config_set | C_config_save | C_config_load
  | C_config_erase | C_shutdown | C_leds | C_mpu_test | C_play

definition shell_commands :: "(string \<times> command) list" where
  "shell_commands = [(''test'', C_test), (''range'', C_range), (''proximity'', C_proximity), (''battery'', C_battery),
     (''current'', C_current), (''topics'', C_topics), (''setpoint'', C_setpoint), (''encoders'', C_encoders),
     (''wheel_pos'', C_wheel_pos), (''wheel_vel'', C_wheel_vel), (''imu'', C_imu), (''reboot'', C_reboot),
     (''test'', C_test), (''config_tree'', C_config_tree), (''config_set'', C_config_set),
     (''config_save'', C_config_save), (''config_load'', C_config_load), (''config_erase'', C_config_erase),
     (''shutdown'', C_shutdown), (''leds'', C_leds), (''mpu_test'', C_mpu_test), (''play'', C_play)]"

fun strcmp :: "string \<Rightarrow> string \<Rightarrow> int" where
  "strcmp [] [] = 0"
| "strcmp [] (y # ys) = - of_char y"
| "strcmp (x # xs) [] = of_char x"
| "strcmp (x # xs) (y # ys) = (if x = y then strcmp xs ys else of_char x - of_char y)"

definition compare_shell_commands :: "string \<times> command \<Rightarrow> string \<times> command \<Rightarrow> int" where
  "compare_shell_commands a b = strcmp (fst a) (fst b)"

text \<open>A name stands for one command, whatever the order \<open>qsort\<close> leaves the table in.\<close>

lemma shell_commands_unique:
  "(n, c) \<in> set shell_commands \<Longrightarrow> (n, d) \<in> set shell_commands \<Longrightarrow> c = d"
proof -
  have "list_all (\<lambda>(n, c). list_all (\<lambda>(m, d). n = m \<longrightarrow> c = d) shell_commands) shell_commands" by code_simp
  then show "(n, c) \<in> set shell_commands \<Longrightarrow> (n, d) \<in> set shell_commands \<Longrightarrow> c = d"
    by (auto simp: list_all_iff)
qed

subsection \<open>Properties\<close>

text \<open>A rendering and a scanner of numbers: decimal digits, without signs or fractions.\<close>

definition ref_digits :: "nat \<Rightarrow> string" where "ref_digits n = (if n < 10 then [char_of (48 + n)] else ''?'')"

definition ref_formats :: formats where
  "ref_formats = \<lparr>fmt_d = (\<lambda>i. ref_digits (unat i)), fmt_4d = (\<lambda>i. ''   '' @ ref_digits (unat i)),
     fmt_f = (\<lambda>_. ''?''), fmt_2f = (\<lambda>_. ''?''), fmt_type = (\<lambda>t. ref_digits (nat t)), atof = (\<lambda>_. f_of_int f32 0),
     scan_d = (\<lambda>s. if s = ''1'' then Some 1 else None), scan_f = (\<lambda>_. None)\<rparr>"



text \<open>C29. \<open>config_set\<close> with two arguments either stores, silently, the value that the text stands for by the type
  of the named parameter, and changes neither another parameter nor a type; or, when the parameter does
  not exist or the text is no value of its type, prints a message and changes nothing. With another
  number of arguments it changes nothing.\<close>
theorem config_set_typed:
  assumes "typed_parameters P value_of"
  shows "let (out, p') = cmd_config_set F P argv p in
    case (if length argv = 2 then map_option (\<lambda>h. (h, parse_value F (cp_type P p h) (argv ! 1))) (cp_find P p (argv ! 0)) else None) of
      Some (h, Some v) \<Rightarrow> out = '''' \<and> value_of p' = (value_of p)(h \<mapsto> v) \<and> cp_type P p' = cp_type P p
    | _ \<Rightarrow> out \<noteq> '''' \<and> p' = p"
proof -
  note laws = typed_parameters.integer_set[OF assms] typed_parameters.scalar_set[OF assms]
    typed_parameters.boolean_set[OF assms] typed_parameters.string_set[OF assms]
  show ?thesis
  proof (cases "if length argv = 2 then cp_find P p (argv ! 0) else None")
    case None
    then show ?thesis by (auto simp: cmd_config_set_def split: if_splits)
  next
    case (Some h)
    then have a: "length argv = 2" "cp_find P p (argv ! 0) = Some h" by (auto split: if_splits)
    show ?thesis
      by (cases "cp_type P p h") (simp_all add: cmd_config_set_def a laws split: option.split)
  qed
qed

theorem config_set_typed_witness:
  "let (out, p') = cmd_config_set ref_formats ref_config_params [''inv'', ''true''] [(''inv'', PARAM_TYPE_BOOLEAN, None), (''kp'', PARAM_TYPE_SCALAR, None)] in
    out = '''' \<and> ref_value p' = [''inv'' \<mapsto> Boolean_v True]"
proof -
  let ?p = "[(''inv'', PARAM_TYPE_BOOLEAN, None), (''kp'', PARAM_TYPE_SCALAR, None)]"
  have f: "cp_find ref_config_params ?p ''inv'' = Some ''inv''" "cp_type ref_config_params ?p ''inv'' = PARAM_TYPE_BOOLEAN"
    by (simp_all add: ref_config_params_def ref_type_def)
  have v: "ref_value ?p = Map.empty" by (rule ext) (simp add: ref_value_def)
  show ?thesis
    using config_set_typed[OF ref_params_typed.typed_parameters_axioms, of ref_formats "[''inv'', ''true'']" ?p]
    by (auto simp: f v)
qed

text \<open>\<open>config_save\<close> offers the whole region, reads the tree back and says \<open>OK\<close> exactly when the parser accepts it.\<close>

lemma cmd_config_save_reports:
  assumes "config_setting bus cr keyed busy mem crc wcmp chunks s base cap"
    and "ctl_idle cr busy h" and "config_start crc base cap (mem h) ds"
    and "used (save_spec cap ds (concat (chunks ns))) + 8 \<le> cap" and "12 + length (concat (chunks ns)) \<le> cap"
  shows "\<exists>h'. cmd_config_save (flash_c bus mem) crc wcmp mread base (base + of_nat cap) (ns, h) =
    Some ((if fst (mread ns (concat (chunks ns))) = 0 then ''OK.'' else ''Save failed.'') @ crlf, snd (mread ns (concat (chunks ns))), h')
    \<and> ctl_idle cr busy h'"
  using config_store.save_load[OF config_setting_store[OF assms(1)], of h ds ns mread ns] assms(2-5)
  by (fastforce simp: cmd_config_save_def)

text \<open>The window of \<open>topics hz\<close> is computed without regard to the wrap-around of the system time: in the five
  seconds before it, the loop does not run and the command says that there are no messages.\<close>

lemma hz_wrap:
  assumes "2 ^ 32 - 50000 \<le> unat (tc_now C w)"
  shows "topics_hz F C w = Some (''No messages.'' @ crlf, w)"
proof -
  have "unat (tc_now C w + MS2ST_5000) = unat (tc_now C w) + 50000 - 2 ^ 32"
    using assms unsigned_less[of "tc_now C w", where ?'a = nat]
    by (simp add: MS2ST_5000_def unat_word_ariths(1) mod_if)
  then have "\<not> tc_now C w < tc_now C w + MS2ST_5000"
    using unsigned_less[of "tc_now C w", where ?'a = nat] assms by (simp add: word_less_nat_alt)
  then show ?thesis by (subst topics_hz_def, subst hz_loop.simps) simp
qed

text \<open>\<open>setpoint\<close> publishes the mode it is given, under both names of each, or nothing.\<close>

lemma cmd_setpoint_publishes:
  assumes "mb_find mb b ''/motors/setpoint'' = Some t"
  shows "snd (cmd_setpoint F mb [m, l, r] b) =
    (case map_of [(''cur'', 0), (''current'', 0), (''vel'', 1), (''velocity'', 1), (''pos'', 2), (''position'', 2)] m of
       None \<Rightarrow> b
     | Some k \<Rightarrow> mb_publish mb t (Wheels_setpoint_msg k (f_conv f32 (atof F l)) (f_conv f32 (atof F r))) b)"
  using assms by (simp add: cmd_setpoint_def Let_def)

end
