(* ===== verification/Encoder_Timer.thy ===== *)
theory Encoder_Timer
  imports Encoder
begin

section \<open>The counters of the encoders (\<open>src/sensors/encoder.c\<close>)\<close>

text \<open>
  \<open>setup_timer\<close> makes a timer of the microcontroller count the edges of a quadrature encoder. The timer is
  hardware: registers that read back what was written (\<open>tim_unit\<close>), with the counting law of the
  reference manual as the locale \<open>quadrature_timer\<close>. The field macros of its registers belong to the
  drivers (\<open>tim_fields\<close>). The thread is put together from its start (topics, timers, first readings) and
  its rounds, and follows the wheels from whatever state the timers were in
  (\<open>encoder_thread_follows_wheels\<close>).
\<close>

datatype tim_reg = TIM_CR1 | TIM_CR2 | TIM_SMCR | TIM_DIER | TIM_SR | TIM_CCMR1 | TIM_CCER | TIM_CNT | TIM_PSC | TIM_ARR

record 'd tim_unit =
  tim_write :: "tim_reg \<Rightarrow> u32 \<Rightarrow> 'd \<Rightarrow> 'd"
  tim_read :: "'d \<Rightarrow> tim_reg \<Rightarrow> u32"
  rccEnableTIM :: "'d \<Rightarrow> 'd"
  rccResetTIM :: "'d \<Rightarrow> 'd"

record tim_fields =
  SMCR_SMS :: "u32 \<Rightarrow> u32"
  CCMR1_CC1S :: "u32 \<Rightarrow> u32"
  CCMR1_CC2S :: "u32 \<Rightarrow> u32"

definition setup_timer :: "tim_fields \<Rightarrow> 'd tim_unit \<Rightarrow> 'd \<Rightarrow> 'd" where
  "setup_timer F T d =
     (let d = tim_write T TIM_CR2 0 d;
          d = tim_write T TIM_PSC 0 d;
          d = tim_write T TIM_SR 0 d;
          d = tim_write T TIM_DIER 0 d;
          d = tim_write T TIM_SMCR (SMCR_SMS F 3) d;
          d = tim_write T TIM_CCMR1 (CCMR1_CC1S F 1) d;
          d = tim_write T TIM_CCMR1 (tim_read T d TIM_CCMR1 OR CCMR1_CC2S F 1) d;
          d = tim_write T TIM_CCER 0 d;
          d = tim_write T TIM_ARR 0xFFFF d
      in tim_write T TIM_CR1 1 d)"

definition encoder_get_left :: "'d tim_unit \<Rightarrow> 'd \<Rightarrow> u32" where
  "encoder_get_left TIM1 d = tim_read TIM1 d TIM_CNT"

definition encoder_get_right :: "'e tim_unit \<Rightarrow> 'e \<Rightarrow> u32" where
  "encoder_get_right TIM2 d = tim_read TIM2 d TIM_CNT"

text \<open>\<open>encoders_thd\<close> up to its loop.\<close>

definition encoders_thd_start ::
  "('t, 'b) msgbus \<Rightarrow> tim_fields \<Rightarrow> 'd tim_unit \<Rightarrow> 'e tim_unit \<Rightarrow> 'd \<times> 'e \<times> 'b
    \<Rightarrow> 't encoder_topics \<times> encoders_state \<times> 'd \<times> 'e \<times> 'b" where
  "encoders_thd_start mb F TIM1 TIM2 = (\<lambda>(d1, d2, b).
     let (t1, b) = mb_advertise mb ''/encoders'' b;
         (t2, b) = mb_advertise mb ''/wheel_pos'' b;
         (t3, b) = mb_advertise mb ''/wheel_velocities'' b;
         d1 = setup_timer F TIM1 (rccResetTIM TIM1 (rccEnableTIM TIM1 d1));
         d2 = setup_timer F TIM2 (rccResetTIM TIM2 (rccEnableTIM TIM2 d2))
     in (\<lparr>encoders_topic = t1, wheel_pos_topic = t2, wheel_velocities_topic = t3\<rparr>,
         encoders_init (encoder_get_left TIM1 d1) (encoder_get_right TIM2 d2), d1, d2, b))"

text \<open>The loop: between two rounds the wheels turn.\<close>

fun encoders_thd_loop ::
  "('t, 'b) msgbus \<Rightarrow> 't encoder_topics \<Rightarrow> 'd tim_unit \<Rightarrow> 'e tim_unit \<Rightarrow> bool \<Rightarrow> bool \<Rightarrow> (('d \<Rightarrow> 'd) \<times> ('e \<Rightarrow> 'e)) list
    \<Rightarrow> encoders_state \<times> 'd \<times> 'e \<times> 'b \<Rightarrow> encoders_state \<times> 'd \<times> 'e \<times> 'b" where
  "encoders_thd_loop mb tp TIM1 TIM2 il ir [] s = s"
| "encoders_thd_loop mb tp TIM1 TIM2 il ir ((m1, m2) # ms) (st, d1, d2, b) =
     (let d1 = m1 d1; d2 = m2 d2;
          (st, b) = encoders_thd_step mb tp il ir (encoder_get_left TIM1 d1) (encoder_get_right TIM2 d2) (st, b)
      in encoders_thd_loop mb tp TIM1 TIM2 il ir ms (st, d1, d2, b))"

subsection \<open>The timer as a quadrature counter\<close>

text \<open>\<open>turn k\<close> is the wheel moving by \<open>k\<close> edges. Enabled in encoder mode 3 with both channels as inputs and no
  prescaler, the counter counts modulo the reload value plus one.\<close>

locale quadrature_timer =
  fixes F :: tim_fields and T :: "'d tim_unit" and turn :: "int \<Rightarrow> 'd \<Rightarrow> 'd"
  assumes read_write: "r \<noteq> TIM_SR \<Longrightarrow> tim_read T (tim_write T r v d) r = v"
    and read_write_other: "r' \<noteq> r \<Longrightarrow> tim_read T (tim_write T r v d) r' = tim_read T d r'"
    and read_reset: "tim_read T (rccResetTIM T (rccEnableTIM T d)) TIM_CNT = 0"
    and turn_counts: "tim_read T d TIM_CR1 = 1 \<Longrightarrow> tim_read T d TIM_SMCR = SMCR_SMS F 3 \<Longrightarrow>
      tim_read T d TIM_CCMR1 = CCMR1_CC1S F 1 OR CCMR1_CC2S F 1 \<Longrightarrow> tim_read T d TIM_PSC = 0 \<Longrightarrow>
      tim_read T (turn k d) TIM_CNT = word_of_int ((uint (tim_read T d TIM_CNT) + k) mod (uint (tim_read T d TIM_ARR) + 1))"
    and turn_keeps: "r \<noteq> TIM_CNT \<Longrightarrow> tim_read T (turn k d) r = tim_read T d r"
begin

definition counts :: "int \<Rightarrow> 'd \<Rightarrow> bool" where
  "counts x d \<longleftrightarrow> tim_read T d TIM_CR1 = 1 \<and> tim_read T d TIM_SMCR = SMCR_SMS F 3
     \<and> tim_read T d TIM_CCMR1 = CCMR1_CC1S F 1 OR CCMR1_CC2S F 1 \<and> tim_read T d TIM_PSC = 0
     \<and> tim_read T d TIM_ARR = 0xFFFF \<and> tim_read T d TIM_CNT = counter_of x"

lemma counts_start: "counts 0 (setup_timer F T (rccResetTIM T (rccEnableTIM T d)))"
  by (simp add: counts_def setup_timer_def Let_def read_write read_write_other read_reset counter_of_def)

lemma counts_turn: "counts x d \<Longrightarrow> counts (x + k) (turn k d)"
  by (simp add: counts_def turn_counts turn_keeps) (simp add: counter_of_def mod_add_left_eq)

lemma counts_reads: "counts x d \<Longrightarrow> tim_read T d TIM_CNT = counter_of x"
  by (simp add: counts_def)

end

fun path :: "int \<Rightarrow> int list \<Rightarrow> int list" where
  "path x [] = []"
| "path x (k # ks) = (x + k) # path (x + k) ks"

lemma length_path [simp]: "length (path x ks) = length ks"
  by (induction ks arbitrary: x) auto

lemma slow_path: "list_all (\<lambda>k. \<bar>k\<bar> \<le> 32767) ks \<Longrightarrow> slow x (path x ks)"
  by (induction ks arbitrary: x) auto

lemma last_path: "ks \<noteq> [] \<Longrightarrow> last (path x ks) = x + sum_list ks"
proof (induction ks arbitrary: x)
  case (Cons k ks)
  then show ?case by (cases ks) auto
qed simp

lemma loop_is_run:
  assumes "quadrature_timer F T1 turn1" "quadrature_timer F T2 turn2" "length ks = length js"
    and "quadrature_timer.counts F T1 x d1" "quadrature_timer.counts F T2 y d2"
  shows "\<exists>d1' d2'. encoders_thd_loop mb tp T1 T2 il ir (map (\<lambda>(k, j). (turn1 k, turn2 j)) (zip ks js)) (st, d1, d2, b)
    = (let (st, b) = encoders_run mb tp il ir (map (\<lambda>(l, r). (counter_of l, counter_of r)) (zip (path x ks) (path y js))) (st, b)
       in (st, d1', d2', b))"
  using assms(3-5)
proof (induction ks js arbitrary: x y d1 d2 st b rule: list_induct2)
  case (Cons k ks j js)
  have c: "quadrature_timer.counts F T1 (x + k) (turn1 k d1)" "quadrature_timer.counts F T2 (y + j) (turn2 j d2)"
    using quadrature_timer.counts_turn[OF assms(1) Cons.prems(1)] quadrature_timer.counts_turn[OF assms(2) Cons.prems(2)] by auto
  have g: "encoder_get_left T1 (turn1 k d1) = counter_of (x + k)" "encoder_get_right T2 (turn2 j d2) = counter_of (y + j)"
    using quadrature_timer.counts_reads[OF assms(1) c(1)] quadrature_timer.counts_reads[OF assms(2) c(2)]
    by (simp_all add: encoder_get_left_def encoder_get_right_def)
  obtain st' b' where s: "encoders_thd_step mb tp il ir (counter_of (x + k)) (counter_of (y + j)) (st, b) = (st', b')" by fastforce
  show ?case using Cons.IH[OF c, of st' b'] by (simp add: g s)
qed simp

context message_bus
begin

lemma encoders_run_find: "mb_find mb (snd (encoders_run mb tp il ir cs (st, b))) n = mb_find mb b n"
proof (induction cs arbitrary: st b)
  case (Cons c cs)
  obtain l r where c: "c = (l, r)" by fastforce
  obtain st' b' where s: "encoders_thd_step mb tp il ir l r (st, b) = (st', b')" by fastforce
  have "mb_find mb b' n = mb_find mb b n" using s by (auto simp: encoders_thd_step_def Let_def find_publish)
  then show ?case using Cons.IH[of st' b'] by (simp add: c s)
qed simp

end

context topic_directory
begin

lemma start_topics:
  assumes "encoders_thd_start mb F T1 T2 (d1, d2, b) = (tp, st, d1', d2', b')"
  shows "distinct [encoders_topic tp, wheel_pos_topic tp, wheel_velocities_topic tp] \<and> mb_find mb b' ''/encoders'' = Some (encoders_topic tp)"
proof -
  obtain t1 b1 t2 b2 t3 where a: "mb_advertise mb ''/encoders'' b = (t1, b1)" "mb_advertise mb ''/wheel_pos'' b1 = (t2, b2)"
    "mb_advertise mb ''/wheel_velocities'' b2 = (t3, b')"
    and tp: "tp = \<lparr>encoders_topic = t1, wheel_pos_topic = t2, wheel_velocities_topic = t3\<rparr>"
    using assms by (auto simp: encoders_thd_start_def Let_def split: prod.splits)
  have "mb_find mb b' ''/encoders'' = Some t1" "mb_find mb b' ''/wheel_pos'' = Some t2" "mb_find mb b' ''/wheel_velocities'' = Some t3"
    by (simp_all add: advertise_find[OF a(1)] advertise_find[OF a(2)] advertise_find[OF a(3)])
  then show ?thesis using tp find_inject[of b'] by fastforce
qed

end

text \<open>A timer that is its registers.\<close>

definition ref_tim_fields :: tim_fields where
  "ref_tim_fields = \<lparr>SMCR_SMS = (\<lambda>n. n), CCMR1_CC1S = (\<lambda>n. n), CCMR1_CC2S = (\<lambda>n. push_bit 8 n)\<rparr>"

definition ref_tim :: "(tim_reg \<Rightarrow> u32) tim_unit" where
  "ref_tim = \<lparr>tim_write = (\<lambda>r v d. d(r := v)), tim_read = (\<lambda>d r. d r), rccEnableTIM = (\<lambda>d. d), rccResetTIM = (\<lambda>_ _. 0)\<rparr>"

definition ref_turn :: "int \<Rightarrow> (tim_reg \<Rightarrow> u32) \<Rightarrow> tim_reg \<Rightarrow> u32" where
  "ref_turn k d = (if d TIM_CR1 = 1 \<and> d TIM_SMCR = 3 then d(TIM_CNT := word_of_int ((uint (d TIM_CNT) + k) mod (uint (d TIM_ARR) + 1))) else d)"

interpretation ref_tim: quadrature_timer ref_tim_fields ref_tim ref_turn
  by unfold_locales (auto simp: ref_tim_def ref_tim_fields_def ref_turn_def)

text \<open>C6. The encoder thread, from its start on timers in any state: when no wheel turns by more than 32767 edges
  between two rounds, whoever finds \<open>/encoders\<close> on the bus after a round reads the sum of all turns of each
  wheel since the start (modulo the width of an \<open>int\<close>, negated for an inverted wheel), however often the
  16-bit counters wrapped.\<close>
theorem encoder_thread_follows_wheels:
  assumes "topic_directory mb" "quadrature_timer F T1 turn1" "quadrature_timer F T2 turn2"
    and "encoders_thd_start mb F T1 T2 (d1, d2, b) = (tp, st, d1', d2', b')"
    and "length ks = length js" "ks \<noteq> []" "list_all (\<lambda>k. \<bar>k\<bar> \<le> 32767) ks" "list_all (\<lambda>k. \<bar>k\<bar> \<le> 32767) js"
  shows "\<exists>st' e1 e2 b'' t. encoders_thd_loop mb tp T1 T2 il ir (map (\<lambda>(k, j). (turn1 k, turn2 j)) (zip ks js)) (st, d1', d2', b')
      = (st', e1, e2, b'')
    \<and> mb_find mb b'' ''/encoders'' = Some t
    \<and> mb_read mb b'' t = Some (Encoders_msg (signed_by il (sum_list ks)) (signed_by ir (sum_list js)))"
proof -
  have c: "quadrature_timer.counts F T1 0 d1'" "quadrature_timer.counts F T2 0 d2'"
    using assms(4) quadrature_timer.counts_start[OF assms(2)] quadrature_timer.counts_start[OF assms(3)]
    by (auto simp: encoders_thd_start_def Let_def split: prod.splits)
  have st: "st = encoders_init (counter_of 0) (counter_of 0)"
    using assms(4) quadrature_timer.counts_reads[OF assms(2) c(1)] quadrature_timer.counts_reads[OF assms(3) c(2)]
    by (auto simp: encoders_thd_start_def encoders_init_def encoder_get_left_def encoder_get_right_def Let_def split: prod.splits)
  have mb: "message_bus mb" using assms(1) by (simp add: topic_directory_def)
  note tp = topic_directory.start_topics[OF assms(1,4)]
  have "js \<noteq> []" using assms(5,6) by auto
  then have sums: "last (path 0 ks) = sum_list ks" "last (path 0 js) = sum_list js"
    using assms(6) by (simp_all add: last_path)
  have ne: "path 0 ks \<noteq> []" using assms(6) by (cases ks) auto
  obtain st' b'' where run: "encoders_run mb tp il ir (map (\<lambda>(l, r). (counter_of l, counter_of r)) (zip (path 0 ks) (path 0 js)))
      (encoders_init (counter_of 0) (counter_of 0), b') = (st', b'')"
    "enc_left st' = signed_by il (sum_list ks)" "enc_right st' = signed_by ir (sum_list js)"
    "mb_read mb b'' (encoders_topic tp) = Some (Encoders_msg (enc_left st') (enc_right st'))"
    using encoders_track_motion[OF mb conjunct1[OF tp] _ slow_path[OF assms(7)] slow_path[OF assms(8), of 0] ne, where il = il and ir = ir and b = b'] assms(5) sums
    by fastforce
  have "mb_find mb b'' ''/encoders'' = Some (encoders_topic tp)"
    using message_bus.encoders_run_find[OF mb, of tp il ir _ "encoders_init (counter_of 0) (counter_of 0)" b'] run(1) tp by (metis snd_conv)
  then show ?thesis
    using loop_is_run[OF assms(2,3,5) c, of mb tp il ir st b'] run st by auto
qed

theorem encoder_thread_follows_wheels_witness:
  "let (tp, st, d1, d2, b) = encoders_thd_start ref_msgbus ref_tim_fields ref_tim ref_tim (\<lambda>_. 7, \<lambda>_. 9, \<lparr>rb_topics = [], rb_values = []\<rparr>)
   in \<exists>st' e1 e2 b'' t. encoders_thd_loop ref_msgbus tp ref_tim ref_tim False True
        (map (\<lambda>(k, j). (ref_turn k, ref_turn j)) (zip [30000, 30000, 30000] [-5, 4, -1])) (st, d1, d2, b) = (st', e1, e2, b'')
    \<and> mb_find ref_msgbus b'' ''/encoders'' = Some t
    \<and> mb_read ref_msgbus b'' t = Some (Encoders_msg 90000 2)"
proof -
  obtain tp st d1 d2 b where s: "encoders_thd_start ref_msgbus ref_tim_fields ref_tim ref_tim (\<lambda>_. 7, \<lambda>_. 9, \<lparr>rb_topics = [], rb_values = []\<rparr>)
      = (tp, st, d1, d2, b)" by (metis prod_cases5)
  have v: "signed_by False (sum_list [30000, 30000, 30000]) = 90000" "signed_by True (sum_list [-5, 4, -1]) = 2"
    by (simp_all add: signed_by_def)
  show ?thesis
    using encoder_thread_follows_wheels[OF ref_directory.topic_directory_axioms ref_tim.quadrature_timer_axioms
        ref_tim.quadrature_timer_axioms s, of "[30000, 30000, 30000]" "[-5, 4, -1]" False True]
    unfolding s v by simp
qed


end
