(* ===== verification/Topic_Types.thy ===== *)
theory Topic_Types
  imports Encoder Shell_Cmd Aseba_Natives Audio_Wav Body_Leds
begin

section \<open>The types of the topics, over all threads\<close>

text \<open>
  \<open>messagebus_topic_publish\<close> and \<open>messagebus_topic_read\<close> copy \<open>sizeof\<close> bytes of whatever struct the caller
  passes: nothing in C ties the struct to the topic, but the code of the threads. This theory puts the
  publishers of all components together: \<open>topic_decls\<close> lists the struct each topic is declared with,
  \<open>message_ok\<close> says what a value of a struct is (a \<open>float\<close> is a number of \<open>binary32\<close>, arrays have their length),
  and \<open>robot_step\<close> is one step of the robot: a thread advertises a topic, or runs one round. The
  laws of the bus a start-up needs are the locale \<open>topic_directory\<close>. The typing is an invariant of every interleaving, and the readers that would be
  undefined on another struct are defined.
\<close>

subsection \<open>Numbers of a format\<close>

fun proper :: "fp \<Rightarrow> bool" where
  "proper (FFin s m) = (0 \<le> m)"
| "proper x = True"

named_theorems fmt_closed \<open>results of operations are numbers of the format\<close>

lemma proper_fmt [fmt_closed]: "in_fmt F x \<Longrightarrow> proper x"
  by (cases x) auto

lemma fadd_fmt: "0 < fprec F \<Longrightarrow> in_fmt F (fadd F x y)"
  by (cases x; cases y) (auto simp: Let_def)

lemma fsub_fmt: "0 < fprec F \<Longrightarrow> in_fmt F (fsub F x y)"
  by (cases x; cases y) (auto simp: Let_def)

lemma fmul_fmt: "0 < fprec F \<Longrightarrow> proper x \<Longrightarrow> proper y \<Longrightarrow> in_fmt F (fmul F x y)"
  by (cases x; cases y) (auto intro: in_fmt_fround)

lemma fdiv_fmt: "0 < fprec F \<Longrightarrow> proper x \<Longrightarrow> proper y \<Longrightarrow> in_fmt F (fdiv F x y)"
  by (cases x; cases y) (auto intro!: in_fmt_fround divide_nonneg_nonneg)

lemma f_conv_fmt: "0 < fprec F \<Longrightarrow> proper x \<Longrightarrow> in_fmt F (f_conv F x)"
  by (cases x) (auto intro: in_fmt_fround)

text \<open>The two formats of the code.\<close>

lemmas fmt_ops = fadd_fmt fsub_fmt fmul_fmt fdiv_fmt f_conv_fmt in_fmt_f_of_int in_fmt_f_const

lemmas fmt_rules [simp] = fmt_ops [OF fprec_pos(1)] fmt_ops [OF fprec_pos(2)]
  fmt_ops [OF fprec_pos(1), THEN proper_fmt] fmt_ops [OF fprec_pos(2), THEN proper_fmt]

lemma published_floats [simp]:
  "in_fmt f32 (wheel_position t)" "in_fmt f32 (iir_filter x y s)" "in_fmt f32 (motor_amperes i v)"
  "in_fmt f32 (Adc_Sensors.battery_voltage w)" "in_fmt f32 (thousandths u)" "in_fmt f32 (hundredths n)" "in_fmt f32 (radians u)"
  by (simp_all add: wheel_position_def TICKS_PER_RADIAN_def Encoder.M_PI_def iir_filter_def motor_amperes_def Let_def MOTOR_ADC_GAIN_def
      Adc_Sensors.battery_voltage_def BATT_ADC_GAIN_def BATTERY_ADC_GAIN_def thousandths_def hundredths_def radians_def)

subsection \<open>Structs and topics\<close>

datatype msg_struct = Encoders_t | Wheel_pos_t | Wheel_velocities_t | Battery_t | Motor_current_t | Motor_voltage_t
  | Wheels_setpoint_t | Proximity_t | Imu_t | Range_t | Body_led_t | Audio_request_t | Audio_result_t

fun struct_of :: "message \<Rightarrow> msg_struct" where
  "struct_of (Encoders_msg _ _) = Encoders_t"
| "struct_of (Wheel_pos_msg _ _) = Wheel_pos_t"
| "struct_of (Wheel_velocities_msg _ _) = Wheel_velocities_t"
| "struct_of (Battery_msg _) = Battery_t"
| "struct_of (Motor_current_msg _ _) = Motor_current_t"
| "struct_of (Motor_voltage_msg _ _) = Motor_voltage_t"
| "struct_of (Wheels_setpoint_msg _ _ _) = Wheels_setpoint_t"
| "struct_of (Proximity_msg _ _ _) = Proximity_t"
| "struct_of (Imu_msg _ _) = Imu_t"
| "struct_of (Range_msg _ _) = Range_t"
| "struct_of (Body_led_msg _) = Body_led_t"
| "struct_of (Audio_play_request_msg _) = Audio_request_t"
| "struct_of (Audio_play_result_msg _) = Audio_result_t"

fun message_ok :: "message \<Rightarrow> bool" where
  "message_ok (Wheel_pos_msg l r) = (in_fmt f32 l \<and> in_fmt f32 r)"
| "message_ok (Wheel_velocities_msg l r) = (in_fmt f32 l \<and> in_fmt f32 r)"
| "message_ok (Battery_msg v) = in_fmt f32 v"
| "message_ok (Motor_current_msg l r) = (in_fmt f32 l \<and> in_fmt f32 r)"
| "message_ok (Motor_voltage_msg l r) = (in_fmt f32 l \<and> in_fmt f32 r)"
| "message_ok (Wheels_setpoint_msg _ l r) = (in_fmt f32 l \<and> in_fmt f32 r)"
| "message_ok (Proximity_msg a r d) = (length a = 13 \<and> length r = 13 \<and> length d = 13)"
| "message_ok (Imu_msg a r) = (length a = 3 \<and> length r = 3 \<and> list_all (in_fmt f32) a \<and> list_all (in_fmt f32) r)"
| "message_ok (Range_msg _ x) = in_fmt f32 x"
| "message_ok (Body_led_msg v) = in_fmt f32 v"
| "message_ok (Audio_play_request_msg path) = (length path < 64)"
| "message_ok _ = True"

definition topic_decls :: "(string \<times> msg_struct) list" where
  "topic_decls =
     [(''/encoders'', Encoders_t), (''/wheel_pos'', Wheel_pos_t), (''/wheel_velocities'', Wheel_velocities_t),
      (''/battery_level'', Battery_t), (''/motors/current'', Motor_current_t), (''/motors/voltage'', Motor_voltage_t),
      (''/motors/setpoint'', Wheels_setpoint_t), (''/proximity'', Proximity_t), (''/imu'', Imu_t), (''/range'', Range_t),
      (''/audio/play/request'', Audio_request_t), (''/audio/play/result'', Audio_result_t)]
     @ map (\<lambda>i. (led_topic_name i, Body_led_t)) [0..<BODY_LED_COUNT]"

definition topic_accepts :: "string \<Rightarrow> message \<Rightarrow> bool" where
  "topic_accepts n m \<longleftrightarrow> map_of topic_decls n = Some (struct_of m) \<and> message_ok m"

definition bus_typed :: "('t, 'b) msgbus \<Rightarrow> 'b \<Rightarrow> bool" where
  "bus_typed mb b \<longleftrightarrow> (\<forall>n t m. mb_find mb b n = Some t \<longrightarrow> mb_read mb b t = Some m \<longrightarrow> topic_accepts n m)"

subsection \<open>Changes of the bus that keep its topics\<close>

definition same_topics :: "('t, 'b) msgbus \<Rightarrow> 'b \<Rightarrow> 'b \<Rightarrow> bool" where
  "same_topics mb b b' \<longleftrightarrow> (\<forall>n. mb_find mb b' n = mb_find mb b n) \<and> (bus_typed mb b \<longrightarrow> bus_typed mb b')"

lemma same_topics_refl [simp]: "same_topics mb b b"
  by (simp add: same_topics_def)

lemma same_topics_trans: "same_topics mb a b \<Longrightarrow> same_topics mb b c \<Longrightarrow> same_topics mb a c"
  by (simp add: same_topics_def)

lemma same_topics_find: "same_topics mb b b' \<Longrightarrow> mb_find mb b' n = mb_find mb b n"
  by (simp add: same_topics_def)

context message_bus
begin

lemma publish_same_topics:
  assumes "mb_find mb b n = Some t" "topic_accepts n m"
  shows "same_topics mb b (mb_publish mb t m b)"
  using assms by (auto simp: same_topics_def bus_typed_def find_publish read_publish_if split: if_splits dest: find_inject)

end

subsection \<open>One step of the robot\<close>

text \<open>The libraries and devices the threads use.\<close>

record ('q, 'p, 't, 'b, 'h, 'pp, 'v, 'np, 'w, 'd, 'e, 'f, 'dk) robot_env =
  env_ctl :: "('q, 'p) ctl_lib"
  env_text :: formats
  env_params :: "('h, 'pp) params"
  env_natives :: "('v, 'np) native_lib"
  env_flash :: "'w flash_api"
  env_crc :: crc_fun
  env_write :: "('np, 'w) serializer"
  env_parse :: "'np \<Rightarrow> u8 list \<Rightarrow> int \<times> 'np"
  env_i2c :: "'d i2c_bus"
  env_mpu :: "'e mpu_port"
  env_files :: "('f, 'dk) filesystem"

text \<open>The state is the one of the motor thread, whose set-up keeps published values, with the bus in it; the
  state of the other threads is arbitrary in every step. While the shell waits for the audio thread
  nothing happens in this step: the steps of the others are steps of their own (\<open>still\<close>).\<close>

definition still :: "('t, 'b) waits \<Rightarrow> bool" where
  "still W \<longleftrightarrow> (\<forall>t b m b'. mb_wait W t b = Some (m, b') \<longrightarrow> b' = b)"

inductive robot_step ::
  "('t, 'b) msgbus \<Rightarrow> ('q, 'p, 't, 'b, 'h, 'pp, 'v, 'np, 'w, 'd, 'e, 'f, 'dk) robot_env \<Rightarrow> ('q, 'p, 't, 'b) pid_thd \<Rightarrow> ('q, 'p, 't, 'b) pid_thd \<Rightarrow> bool"
  for mb :: "('t, 'b) msgbus" and E :: "('q, 'p, 't, 'b, 'h, 'pp, 'v, 'np, 'w, 'd, 'e, 'f, 'dk) robot_env" where
  advertise: "n \<in> fst ` set topic_decls \<Longrightarrow> mb_find mb (thd_bus s) n = None \<Longrightarrow> mb_advertise mb n (thd_bus s) = (t, b) \<Longrightarrow>
    robot_step mb E s (s\<lparr>thd_bus := b\<rparr>)"
| encoders: "mb_find mb (thd_bus s) ''/encoders'' = Some (encoders_topic tp) \<Longrightarrow>
    mb_find mb (thd_bus s) ''/wheel_pos'' = Some (wheel_pos_topic tp) \<Longrightarrow>
    mb_find mb (thd_bus s) ''/wheel_velocities'' = Some (wheel_velocities_topic tp) \<Longrightarrow>
    encoders_thd_step mb tp il ir cl cr (st, thd_bus s) = (st', b) \<Longrightarrow> robot_step mb E s (s\<lparr>thd_bus := b\<rparr>)"
| battery: "mb_find mb (thd_bus s) ''/battery_level'' = Some tp \<Longrightarrow> battery_round mb tp samples n (thd_bus s) = Some b \<Longrightarrow>
    robot_step mb E s (s\<lparr>thd_bus := b\<rparr>)"
| motor_current: "mb_find mb (thd_bus s) ''/motors/current'' = Some tp \<Longrightarrow>
    motor_current_round mb tp il ir (st, thd_bus s) = Some (st', b) \<Longrightarrow> robot_step mb E s (s\<lparr>thd_bus := b\<rparr>)"
| proximity: "mb_find mb (thd_bus s) ''/proximity'' = Some tp \<Longrightarrow>
    proximity_round mb tp es (st, thd_bus s) = Some (es', st', b) \<Longrightarrow> robot_step mb E s (s\<lparr>thd_bus := b\<rparr>)"
| imu: "mb_find mb (thd_bus s) ''/imu'' = Some tp \<Longrightarrow> imu_round mb tp (env_mpu E) dev (d, thd_bus s) = Some (d', b) \<Longrightarrow>
    robot_step mb E s (s\<lparr>thd_bus := b\<rparr>)"
| range: "mb_find mb (thd_bus s) ''/range'' = Some tp \<Longrightarrow> range_round mb tp (env_i2c E) vl (d, thd_bus s) = Some (d', b) \<Longrightarrow>
    robot_step mb E s (s\<lparr>thd_bus := b\<rparr>)"
| audio: "mb_find mb (thd_bus s) ''/audio/play/result'' = Some tp \<Longrightarrow>
    audio_thd_round mb (env_files E) timclk tp req (wav, dac, disk, thd_bus s) = Some (wav', dac', disk', b) \<Longrightarrow>
    robot_step mb E s (s\<lparr>thd_bus := b\<rparr>)"
| shell_setpoint: "cmd_setpoint (env_text E) mb argv (thd_bus s) = (out, b) \<Longrightarrow> robot_step mb E s (s\<lparr>thd_bus := b\<rparr>)"
| shell_leds: "cmd_leds mb (thd_bus s) = (out, b) \<Longrightarrow> robot_step mb E s (s\<lparr>thd_bus := b\<rparr>)"
| shell_play: "still W \<Longrightarrow> cmd_play (env_text E) mb W argv (thd_bus s) = Some (out, b) \<Longrightarrow> robot_step mb E s (s\<lparr>thd_bus := b\<rparr>)"
| script: "sys_bus a = thd_bus s \<Longrightarrow> aseba_write_variables_to_system mb (env_params E) il ir a = Inr a' \<Longrightarrow>
    robot_step mb E s (s\<lparr>thd_bus := sys_bus a'\<rparr>)"
| native: "f \<in> set (nativeFunctions mb (env_natives E) (env_flash E) (env_crc E) (env_write E) (env_parse E) lo hi []) \<Longrightarrow>
    nat_bus a = thd_bus s \<Longrightarrow> f a = Returns a' \<Longrightarrow> robot_step mb E s (s\<lparr>thd_bus := nat_bus a'\<rparr>)"
| motors: "mb_find mb (thd_bus s) ''/motors/setpoint'' = Some tp \<Longrightarrow>
    motor_pid_cycle (env_ctl E) mb tp il ir s = Inr s' \<Longrightarrow> robot_step mb E s s'"

subsection \<open>Every publisher keeps the types\<close>

lemma topic_structs [simp]:
  "map_of topic_decls ''/encoders'' = Some Encoders_t" "map_of topic_decls ''/wheel_pos'' = Some Wheel_pos_t"
  "map_of topic_decls ''/wheel_velocities'' = Some Wheel_velocities_t" "map_of topic_decls ''/battery_level'' = Some Battery_t"
  "map_of topic_decls ''/motors/current'' = Some Motor_current_t" "map_of topic_decls ''/motors/voltage'' = Some Motor_voltage_t"
  "map_of topic_decls ''/motors/setpoint'' = Some Wheels_setpoint_t" "map_of topic_decls ''/proximity'' = Some Proximity_t"
  "map_of topic_decls ''/imu'' = Some Imu_t" "map_of topic_decls ''/range'' = Some Range_t"
  "map_of topic_decls ''/audio/play/request'' = Some Audio_request_t" "map_of topic_decls ''/audio/play/result'' = Some Audio_result_t"
  by (simp_all add: topic_decls_def)

lemma led_structs: "i < BODY_LED_COUNT \<Longrightarrow> map_of topic_decls (led_topic_name i) = Some Body_led_t"
proof -
  have "list_all (\<lambda>i. map_of topic_decls (led_topic_name i) = Some Body_led_t) [0..<BODY_LED_COUNT]" by code_simp
  then show "i < BODY_LED_COUNT \<Longrightarrow> ?thesis" by (simp add: list_all_iff)
qed

context message_bus
begin

lemma encoders_types:
  assumes "mb_find mb b ''/encoders'' = Some (encoders_topic tp)" "mb_find mb b ''/wheel_pos'' = Some (wheel_pos_topic tp)"
    and "mb_find mb b ''/wheel_velocities'' = Some (wheel_velocities_topic tp)"
    and "encoders_thd_step mb tp il ir cl cr (st, b) = (st', b')"
  shows "same_topics mb b b'"
  using assms by (auto simp: encoders_thd_step_def encoders_update_def Let_def find_publish topic_accepts_def
      intro!: same_topics_trans[OF publish_same_topics[where n = "''/encoders''"] same_topics_trans[OF
        publish_same_topics[where n = "''/wheel_pos''"] publish_same_topics[where n = "''/wheel_velocities''"]]])

lemma battery_types:
  "mb_find mb b ''/battery_level'' = Some tp \<Longrightarrow> battery_round mb tp samples n b = Some b' \<Longrightarrow> same_topics mb b b'"
  by (auto simp: battery_round_def bind_Some_iff topic_accepts_def intro: publish_same_topics)

lemma current_types:
  "mb_find mb b ''/motors/current'' = Some tp \<Longrightarrow> motor_current_round mb tp il ir (st, b) = Some (st', b') \<Longrightarrow> same_topics mb b b'"
  by (auto simp: motor_current_round_def topic_accepts_def split: if_splits intro: publish_same_topics)

lemma proximity_types:
  assumes "mb_find mb b ''/proximity'' = Some tp" "proximity_round mb tp es (st, b) = Some (es', st', b')"
  shows "same_topics mb b b'"
  using assms
  by (auto simp: proximity_round_def take_measurement_def bind_Some_iff topic_accepts_def Let_def Adc_Sensors.PROXIMITY_NB_CHANNELS_def
      simp del: upt_rec_numeral intro!: publish_same_topics)

lemma scaled_word_fmt: "proper res \<Longrightarrow> in_fmt f32 (scaled_word buf i res)"
  by (simp add: scaled_word_def)

lemma resolutions_proper: "list_all proper acc_res" "list_all proper gyro_res"
  by (simp_all add: acc_res_def gyro_res_def STANDARD_GRAVITY_def DEG2RAD_def MPU_M_PI_def)

lemma imu_types:
  assumes "mb_find mb b ''/imu'' = Some tp" "imu_round mb tp P dev (d, b) = Some (d', b')"
  shows "same_topics mb b b'"
proof -
  have "unat (x AND 3) < 4" for x :: u32
    using word_and_le1[of x 3] by (simp add: word_le_nat_alt)
  then have "proper (acc_res ! unat (x AND 3))" "proper (gyro_res ! unat (x AND 3))" for x :: u32
    using resolution_tables resolutions_proper by (auto simp: list_all_length)
  then show ?thesis
    using assms
    by (auto simp: imu_round_def mpu60X0_read_def bind_Some_iff topic_accepts_def Let_def scaled_word_fmt split: prod.splits
        intro!: publish_same_topics)
qed

lemma range_types:
  assumes "mb_find mb b ''/range'' = Some tp" "range_round mb tp B dev (d, b) = Some (d', b')"
  shows "same_topics mb b b'"
  using assms
  by (auto simp: range_round_def bind_Some_iff topic_accepts_def Let_def MILLIMETER_TO_METER_def intro!: publish_same_topics)

lemma audio_types:
  assumes "mb_find mb b ''/audio/play/result'' = Some tp"
    and "audio_thd_round mb fs timclk tp req (wav, dac, disk, b) = Some (wav', dac', disk', b')"
  shows "same_topics mb b b'"
  using assms by (auto simp: audio_thd_round_def bind_Some_iff topic_accepts_def split: message.splits intro: publish_same_topics)

lemma setpoint_types:
  assumes "\<And>s. in_fmt f64 (atof F s)" "cmd_setpoint F mb argv b = (out, b')"
  shows "same_topics mb b b'"
  using assms(2) assms(1)[THEN proper_fmt]
  by (auto simp: cmd_setpoint_def topic_accepts_def Let_def split: if_splits option.splits intro!: publish_same_topics)

lemma cmd_leds_types: "cmd_leds mb b = (out, b') \<Longrightarrow> same_topics mb b b'"
proof -
  have "same_topics mb b (snd (fold (cmd_leds_step mb) xs (out, b)))" if "set xs \<subseteq> {..<BODY_LED_COUNT}" for xs out b
    using that
  proof (induction xs arbitrary: out b)
    case (Cons i xs)
    obtain o1 b1 where s: "cmd_leds_step mb i (out, b) = (o1, b1)" by fastforce
    have "same_topics mb b b1"
      using s Cons.prems led_structs[of i]
      by (auto simp: cmd_leds_step_def topic_accepts_def split: option.splits intro!: publish_same_topics)
    then show ?case using Cons.IH[of b1 o1] Cons.prems s by (auto intro: same_topics_trans)
  qed simp
  from this[of "[0..<BODY_LED_COUNT]" b "''''"] show "cmd_leds mb b = (out, b') \<Longrightarrow> same_topics mb b b'"
    by (auto simp: cmd_leds_def atLeast0LessThan)
qed

lemma case_audio_result:
  "(case m of Audio_play_result_msg st \<Rightarrow> Some (f st, b) | _ \<Rightarrow> None) = Some (out, b') \<Longrightarrow> b' = b"
  by (cases m) auto

lemma play_types:
  assumes "still W" "cmd_play F mb W argv b = Some (out, b')"
  shows "same_topics mb b b'"
proof (cases "\<exists>req res file m. mb_find mb b ''/audio/play/request'' = Some req \<and> argv = [file]
    \<and> mb_wait W res (mb_publish mb req (Audio_play_request_msg (take 63 file)) b) = Some (m, b')")
  case True
  then show ?thesis
    using assms(1) publish_same_topics[of b "''/audio/play/request''"] by (fastforce simp: still_def topic_accepts_def)
next
  case False
  then show ?thesis
    using assms(2) by (fastforce simp: cmd_play_def bind_Some_iff Let_def split: option.splits list.splits dest!: case_audio_result)
qed

end


subsection \<open>The copy of the script's variables and the native functions\<close>

definition keeps_types :: "('t, 'b) msgbus \<Rightarrow> (('b, 'p) aseba_sys \<Rightarrow> fault + ('b, 'p) aseba_sys) \<Rightarrow> bool" where
  "keeps_types mb f \<longleftrightarrow> (\<forall>s s'. f s = Inr s' \<longrightarrow> same_topics mb (sys_bus s) (sys_bus s'))"

lemma keeps_bind: "keeps_types mb f \<Longrightarrow> keeps_types mb g \<Longrightarrow> keeps_types mb (\<lambda>s. fault_bind (f s) g)"
  unfolding keeps_types_def fault_bind_Inr by (blast intro: same_topics_trans)

lemma keeps_fold: "(\<And>x. x \<in> set xs \<Longrightarrow> keeps_types mb (f x)) \<Longrightarrow> keeps_types mb (fault_fold f xs)"
proof (induction xs)
  case Nil
  then show ?case by (simp add: keeps_types_def)
next
  case (Cons x xs)
  have "fault_fold f (x # xs) = (\<lambda>s. fault_bind (f x s) (fault_fold f xs))" by (rule ext) simp
  then show ?case using Cons by (simp add: keeps_bind)
qed

lemma keeps_pwm: "keeps_types mb (write_pwm w i)"
  by (auto simp: keeps_types_def write_pwm_def fault_bind_Inr Let_def split: if_splits)

lemma keeps_param: "keeps_types mb (write_param_from_vm P x)"
  by (cases x) (auto simp: keeps_types_def write_param_from_vm_def split: if_splits option.splits)

context message_bus
begin

lemma keeps_setpoint: "keeps_types mb (write_setpoint mb l)"
  by (auto simp: keeps_types_def write_setpoint_def fault_bind_Inr defined_Inr topic_accepts_def setpoint_message_def
      setpoint_unit_def split: if_splits loop_id.splits intro!: publish_same_topics)

lemma keeps_led: "i < BODY_LED_COUNT \<Longrightarrow> keeps_types mb (write_led mb i)"
  using led_structs[of i]
  by (auto simp: keeps_types_def write_led_def topic_accepts_def split: if_splits option.splits intro!: publish_same_topics)

lemma script_types:
  assumes "aseba_write_variables_to_system mb P il ir s = Inr s'"
  shows "same_topics mb (sys_bus s) (sys_bus s')"
proof -
  have "keeps_types mb (aseba_write_variables_to_system mb P il ir)"
    unfolding aseba_write_variables_to_system_def
    by (intro keeps_bind keeps_pwm keeps_setpoint keeps_fold keeps_led keeps_param) simp
  then show ?thesis using assms by (simp add: keeps_types_def)
qed

lemma native_types:
  assumes "f \<in> set (nativeFunctions mb N api crc wcmp mread lo hi [])" "f s = Returns s'"
  shows "same_topics mb (nat_bus s) (nat_bus s')"
proof -
  have "AsebaNative_sound_play mb N s = Returns s' \<Longrightarrow> same_topics mb (nat_bus s) (nat_bus s')"
    by (auto simp: AsebaNative_sound_play_def pop_arg_def AsebaVMEmitNodeSpecificError_def topic_accepts_def sound_path_def Let_def
        split: prod.splits if_splits option.splits intro!: publish_same_topics)
  moreover have "AsebaNative_settings_save api crc wcmp mread lo hi s = Returns s' \<Longrightarrow> nat_bus s' = nat_bus s"
    "AsebaNative_settings_erase api lo s = Returns s' \<Longrightarrow> nat_bus s' = nat_bus s"
    "AsebaNative__system_settings_read N s = Returns s' \<Longrightarrow> nat_bus s' = nat_bus s"
    "AsebaNative__system_settings_write N s = Returns s' \<Longrightarrow> nat_bus s' = nat_bus s"
    by (auto simp: AsebaNative_settings_save_def AsebaNative_settings_erase_def AsebaNative__system_settings_read_def
        AsebaNative__system_settings_write_def pop_arg_def AsebaVMEmitNodeSpecificError_def Let_def
        split: prod.splits if_splits option.splits)
  ultimately show ?thesis
    using assms by (auto simp: nativeFunctions_def AsebaNative__system_reboot_def)
qed

lemma voltage_types:
  assumes "wheel_voltage_set mot mb i v (s, pwm, b) = Inr (s', pwm', b')" "in_fmt f32 v"
    and "in_fmt f32 (voltage_left s)" "in_fmt f32 (voltage_right s)" "bus_typed mb b"
    and "\<And>t. voltage_topic s = Some t \<Longrightarrow> mb_find mb b ''/motors/voltage'' = Some t"
  shows "same_topics mb b b' \<and> in_fmt f32 (voltage_left s') \<and> in_fmt f32 (voltage_right s')
    \<and> (\<forall>t. voltage_topic s' = Some t \<longrightarrow> mb_find mb b ''/motors/voltage'' = Some t)"
proof -
  obtain bt where bt: "(case battery_topic s of None \<Rightarrow> mb_find mb b ''/battery_level'' | Some t \<Rightarrow> Some t) = bt" by simp
  show ?thesis
  proof (cases bt)
    case None
    then show ?thesis using assms bt by (simp add: wheel_voltage_set_def) auto
  next
    case (Some t0)
    define vt where "vt = (case voltage_topic s of None \<Rightarrow> mb_find mb b ''/motors/voltage'' | Some t \<Rightarrow> Some t)"
    obtain t where t: "vt = Some t"
      using assms(1) bt Some by (auto simp: wheel_voltage_set_def Let_def fault_bind_Inr defined_Inr vt_def)
    have f: "mb_find mb b ''/motors/voltage'' = Some t"
      using t assms(6) by (cases "voltage_topic s") (auto simp: vt_def)
    obtain l r where lr: "read_voltages mb b t (voltage_left s, voltage_right s) = (l, r)" by fastforce
    have k: "in_fmt f32 l \<and> in_fmt f32 r"
    proof (cases "mb_read mb b t")
      case (Some m)
      then have "message_ok m" using assms(5) f by (simp add: bus_typed_def topic_accepts_def)
      then show ?thesis using Some lr assms(3,4) by (cases m) (auto simp: read_voltages_def)
    qed (use lr assms(3,4) in \<open>auto simp: read_voltages_def\<close>)
    have "voltage_topic s' = Some t \<and> (case mot of LEFT \<Rightarrow> voltage_left s' = v \<and> voltage_right s' = r \<and> b' = mb_publish mb t (Motor_voltage_msg v r) b
        | RIGHT \<Rightarrow> voltage_left s' = l \<and> voltage_right s' = v \<and> b' = mb_publish mb t (Motor_voltage_msg l v) b)"
      using assms(1) bt Some t lr
      by (cases mot) (auto simp: wheel_voltage_set_def Let_def fault_bind_Inr defined_Inr vt_def)
    then show ?thesis
      using k f assms(2) publish_same_topics[OF f] by (cases mot) (auto simp: topic_accepts_def)
  qed
qed

end


subsection \<open>The invariant\<close>

definition voltages_typed :: "('t, 'b) msgbus \<Rightarrow> 'b \<Rightarrow> 't voltage_statics \<Rightarrow> bool" where
  "voltages_typed mb b v \<longleftrightarrow> in_fmt f32 (voltage_left v) \<and> in_fmt f32 (voltage_right v)
     \<and> (\<forall>t. voltage_topic v = Some t \<longrightarrow> mb_find mb b ''/motors/voltage'' = Some t)"

definition robot_typed :: "('t, 'b) msgbus \<Rightarrow> ('q, 'p, 't, 'b) pid_thd \<Rightarrow> bool" where
  "robot_typed mb s \<longleftrightarrow> bus_typed mb (thd_bus s) \<and> voltages_typed mb (thd_bus s) (left_statics s)
     \<and> voltages_typed mb (thd_bus s) (right_statics s)"

lemma robot_typed_bus:
  "robot_typed mb s \<Longrightarrow> same_topics mb (thd_bus s) b \<Longrightarrow> robot_typed mb (s\<lparr>thd_bus := b\<rparr>)"
  by (simp add: robot_typed_def same_topics_def voltages_typed_def)

lemma process_output:
  assumes "motor_controller_process L e c = Some (out, c')"
  shows "\<exists>p x. out = fst (pid_process L p x)"
proof -
  obtain c1 where "current_control L e c1 = (out, c')"
    using assms by (auto simp: motor_controller_process_def Let_def bind_Some_iff split: prod.splits)
  moreover have "\<exists>p x. fst (current_control L e c1) = fst (pid_process L p x)"
    by (auto simp: current_control_def Let_def split_beta)
  ultimately show ?thesis by (metis fst_conv)
qed

lemma apply_setpoint_keeps:
  assumes "apply_setpoint m l r s = Inr s'"
  shows "thd_bus s' = thd_bus s \<and> left_statics s' = left_statics s \<and> right_statics s' = right_statics s"
  using assms by (auto simp: apply_setpoint_def fault_bind_Inr split: option.splits)

context message_bus
begin

lemma motors_types:
  assumes "robot_typed mb s" "\<And>p e. in_fmt f32 (fst (pid_process L p e))" "motor_pid_cycle L mb tp il ir s = Inr s'"
  shows "robot_typed mb s'"
proof -
  obtain s0 where s0: "(case mb_read mb (thd_bus s) tp of Some (Wheels_setpoint_msg m l r) \<Rightarrow> apply_setpoint m l r s | _ \<Rightarrow> Inr s) = Inr s0"
    and c: "fault_bind (defined (motor_controller_process L (thd_bus s0) (left_controller s0))) (\<lambda>(vl, cl).
     fault_bind (defined (motor_controller_process L (thd_bus s0) (right_controller s0))) (\<lambda>(vr, cr).
     fault_bind (left_wheel_voltage_set mb il vl (left_statics s0, thd_pwm s0, thd_bus s0)) (\<lambda>(sl, pwm, b).
     fault_bind (right_wheel_voltage_set mb ir vr (right_statics s0, pwm, b)) (\<lambda>(sr, pwm, b).
     Inr \<lparr>left_controller = cl, right_controller = cr, left_statics = sl, right_statics = sr, thd_pwm = pwm, thd_bus = b\<rparr>)))) = Inr s'"
    using assms(3) by (auto simp: motor_pid_cycle_def fault_bind_Inr)
  have k: "thd_bus s0 = thd_bus s \<and> left_statics s0 = left_statics s \<and> right_statics s0 = right_statics s"
  proof (cases "mb_read mb (thd_bus s) tp")
    case (Some m)
    then show ?thesis using s0 by (cases m) (auto dest: apply_setpoint_keeps)
  qed (use s0 in simp)
  obtain vl cl vr cr sl pwm b sr pwm' b' where
    p: "motor_controller_process L (thd_bus s) (left_controller s0) = Some (vl, cl)"
      "motor_controller_process L (thd_bus s) (right_controller s0) = Some (vr, cr)"
    and l: "wheel_voltage_set LEFT mb il vl (left_statics s, thd_pwm s0, thd_bus s) = Inr (sl, pwm, b)"
    and r: "wheel_voltage_set RIGHT mb ir vr (right_statics s, pwm, b) = Inr (sr, pwm', b')"
    and s': "left_statics s' = sl" "right_statics s' = sr" "thd_bus s' = b'"
    using c k by (auto simp: fault_bind_Inr defined_Inr left_wheel_voltage_set_def right_wheel_voltage_set_def)
  have v: "in_fmt f32 vl" "in_fmt f32 vr" using p assms(2) by (auto dest!: process_output)
  have L: "same_topics mb (thd_bus s) b \<and> in_fmt f32 (voltage_left sl) \<and> in_fmt f32 (voltage_right sl)
      \<and> (\<forall>t. voltage_topic sl = Some t \<longrightarrow> mb_find mb (thd_bus s) ''/motors/voltage'' = Some t)"
    using assms(1) by (intro voltage_types[OF l v(1)]) (auto simp: robot_typed_def voltages_typed_def)
  then have "same_topics mb b b' \<and> in_fmt f32 (voltage_left sr) \<and> in_fmt f32 (voltage_right sr)
      \<and> (\<forall>t. voltage_topic sr = Some t \<longrightarrow> mb_find mb b ''/motors/voltage'' = Some t)"
    using assms(1) by (intro voltage_types[OF r v(2)]) (auto simp: robot_typed_def voltages_typed_def same_topics_def)
  then show ?thesis using L assms(1) s' by (auto simp: robot_typed_def voltages_typed_def same_topics_def)
qed

end

context topic_directory
begin

lemma advertise_types:
  assumes "mb_find mb b n = None" "mb_advertise mb n b = (t, b')" "bus_typed mb b"
  shows "bus_typed mb b'"
  using assms(3) advertise_find[OF assms(2)] advertise_read[OF assms(2,1)]
  by (auto simp: bus_typed_def split: if_splits)

lemma robot_step_typed:
  assumes "\<And>p e. in_fmt f32 (fst (pid_process (env_ctl E) p e))" "\<And>s. in_fmt f64 (atof (env_text E) s)"
    and "robot_step mb E s s'" "robot_typed mb s"
  shows "robot_typed mb s'"
  using assms(3,4)
proof cases
  case (advertise n t b)
  then show ?thesis
    using assms(4) advertise_types[OF advertise(3,4)]
    by (auto simp: robot_typed_def voltages_typed_def advertise_find[OF advertise(4)])
next
  case motors
  then show ?thesis using motors_types[OF assms(4,1)] by blast
qed (auto intro!: robot_typed_bus intro: encoders_types battery_types current_types proximity_types imu_types range_types
    audio_types setpoint_types[OF assms(2)] cmd_leds_types play_types dest: script_types native_types)

lemma robot_steps_typed:
  assumes "\<And>p e. in_fmt f32 (fst (pid_process (env_ctl E) p e))" "\<And>s. in_fmt f64 (atof (env_text E) s)"
    and "(robot_step mb E)\<^sup>*\<^sup>* s s'" "robot_typed mb s"
  shows "robot_typed mb s'"
  using assms(3,4) by (induction rule: rtranclp_induct) (blast intro: robot_step_typed[OF assms(1,2)])+

end


lemma typed_readers:
  assumes "bus_typed mb b"
  shows "cmd_imu F mb b \<noteq> None"
    and "mb_find mb b ''/battery_level'' = Some tp \<Longrightarrow> mb_read mb b tp \<noteq> None \<Longrightarrow> battery_protection_round mb tp b p \<noteq> None"
    and "i < BODY_LED_COUNT \<Longrightarrow> mb_find mb b (led_topic_name i) = Some (topics ! i) \<Longrightarrow> body_led_update mb B topics b i d = None \<Longrightarrow>
      \<exists>v. mb_read mb b (topics ! i) = Some (Body_led_msg v) \<and> body_led_value v = None"
proof -
  have k: "struct_of m = k" if "mb_find mb b n = Some t" "mb_read mb b t = Some m" "map_of topic_decls n = Some k" for n t m k
    using that assms by (auto simp: bus_typed_def topic_accepts_def)
  show "cmd_imu F mb b \<noteq> None"
  proof (cases "mb_find mb b ''/imu''")
    case f: (Some t)
    show ?thesis
    proof (cases "mb_read mb b t")
      case (Some m)
      have "struct_of m = Imu_t" by (rule k[OF f Some]) simp
      then show ?thesis using f Some by (cases m) (auto simp: cmd_imu_def)
    qed (use f in \<open>simp add: cmd_imu_def\<close>)
  qed (simp add: cmd_imu_def)
  show "battery_protection_round mb tp b p \<noteq> None" if f: "mb_find mb b ''/battery_level'' = Some tp" "mb_read mb b tp \<noteq> None"
  proof -
    obtain m where m: "mb_read mb b tp = Some m" using f(2) by auto
    have "struct_of m = Battery_t" by (rule k[OF f(1) m]) simp
    then show ?thesis using m by (cases m) (auto simp: battery_protection_round_def Let_def)
  qed
  show "\<exists>v. mb_read mb b (topics ! i) = Some (Body_led_msg v) \<and> body_led_value v = None"
    if i: "i < BODY_LED_COUNT" "mb_find mb b (led_topic_name i) = Some (topics ! i)" "body_led_update mb B topics b i d = None"
  proof (cases "mb_read mb b (topics ! i)")
    case (Some m)
    then show ?thesis using k[OF i(2) Some led_structs[OF i(1)]] i(3)
      by (cases m) (auto simp: body_led_update_def bind_eq_None_conv)
  qed (use i(3) in \<open>simp add: body_led_update_def\<close>)
qed

text \<open>C32. From power-up, when the bus has no topics, and over every interleaving of start-ups and rounds of
  all threads that publish (sensors, battery, motors, audio, shell commands, script variables, native
  functions), a topic only ever holds messages of the struct it is declared with, whose numbers are single
  precision and whose arrays have their declared length. So a reader never copies a struct of another
  type: the shell's \<open>imu\<close> and the battery protection are always defined on a published topic, and the body
  LEDs can only fail on a brightness that does not fit an integer.\<close>
theorem topics_keep_their_types:
  assumes "topic_directory mb"
    and "\<And>p e. in_fmt f32 (fst (pid_process (env_ctl E) p e))" "\<And>s. in_fmt f64 (atof (env_text E) s)"
    and "\<And>n. mb_find mb (thd_bus s0) n = None"
    and "left_statics s0 = voltage_statics_init" "right_statics s0 = voltage_statics_init"
    and "(robot_step mb E)\<^sup>*\<^sup>* s0 s"
  shows "(\<forall>n t m. mb_find mb (thd_bus s) n = Some t \<longrightarrow> mb_read mb (thd_bus s) t = Some m \<longrightarrow> topic_accepts n m)
    \<and> cmd_imu (env_text E) mb (thd_bus s) \<noteq> None
    \<and> (\<forall>tp p. mb_find mb (thd_bus s) ''/battery_level'' = Some tp \<longrightarrow> mb_read mb (thd_bus s) tp \<noteq> None \<longrightarrow>
        battery_protection_round mb tp (thd_bus s) p \<noteq> None)
    \<and> (\<forall>i topics B d. i < BODY_LED_COUNT \<longrightarrow> mb_find mb (thd_bus s) (led_topic_name i) = Some (topics ! i) \<longrightarrow>
        body_led_update mb (B :: (nat \<Rightarrow> u8) i2c_bus) topics (thd_bus s) i d = None \<longrightarrow>
        (\<exists>v. mb_read mb (thd_bus s) (topics ! i) = Some (Body_led_msg v) \<and> body_led_value v = None))"
proof -
  have "robot_typed mb s0"
    using assms(4-6) by (simp add: robot_typed_def voltages_typed_def voltage_statics_init_def bus_typed_def)
  then have t: "bus_typed mb (thd_bus s)"
    using topic_directory.robot_steps_typed[OF assms(1-3,7)] by (simp add: robot_typed_def)
  show ?thesis using t typed_readers[OF t] by (auto simp: bus_typed_def)
qed


definition ref_env :: "(fp \<times> bool, fp \<times> fp, string, ref_bus_state, string, string list \<times> (string \<times> fp) list, u16 list,
    u8 list, ref_flash, ref_range, ref_mpu, u8 list, (string \<times> u8 list) list) robot_env" where
  "ref_env = \<lparr>env_ctl = ref_const_lib, env_text = ref_formats, env_params = ref_params,
     env_natives = \<lparr>AsebaNativePopArg = (\<lambda>v. (hd v, tl v)), setting_get = (\<lambda>p i. ucast (p ! i)), setting_set = (\<lambda>i x p. p[i := ucast x])\<rparr>,
     env_flash = flash_c ref_bus rf_mem, env_crc = sum_crc, env_write = byte_serializer, env_parse = (\<lambda>_ d. (0, d)),
     env_i2c = ref_range_i2c, env_mpu = ref_mpu_port, env_files = list_fs\<rparr>"

theorem topics_keep_their_types_witness:
  "let s0 = (ref_thread 0)\<lparr>thd_bus := \<lparr>rb_topics = [], rb_values = []\<rparr>\<rparr>;
       s = s0\<lparr>thd_bus := \<lparr>rb_topics = [''/battery_level''], rb_values = [(''/battery_level'', Battery_msg (Adc_Sensors.battery_voltage 3000))]\<rparr>\<rparr>
   in (robot_step ref_msgbus ref_env)\<^sup>*\<^sup>* s0 s
    \<and> topic_accepts ''/battery_level'' (Battery_msg (Adc_Sensors.battery_voltage 3000))
    \<and> battery_protection_round ref_msgbus ''/battery_level'' (thd_bus s) \<lparr>led_error = False, poweron = True\<rparr> \<noteq> None"
proof -
  let ?s0 = "(ref_thread 0)\<lparr>thd_bus := \<lparr>rb_topics = [], rb_values = []\<rparr>\<rparr>"
  let ?b1 = "\<lparr>rb_topics = [''/battery_level''], rb_values = []\<rparr>"
  let ?m = "Battery_msg (Adc_Sensors.battery_voltage 3000)"
  let ?b = "\<lparr>rb_topics = [''/battery_level''], rb_values = [(''/battery_level'', ?m)]\<rparr>"
  have 1: "robot_step ref_msgbus ref_env ?s0 (?s0\<lparr>thd_bus := ?b1\<rparr>)"
    by (rule advertise[of "''/battery_level''"]) (simp_all add: topic_decls_def ref_msgbus_def)
  have 2: "robot_step ref_msgbus ref_env (?s0\<lparr>thd_bus := ?b1\<rparr>) (?s0\<lparr>thd_bus := ?b1, thd_bus := ?b\<rparr>)"
    by (rule battery[where tp = "''/battery_level''" and samples = "[3000]" and n = 1])
      (simp_all add: ref_msgbus_def battery_round_def battery_adc_cb_def)
  have steps: "(robot_step ref_msgbus ref_env)\<^sup>*\<^sup>* ?s0 (?s0\<lparr>thd_bus := ?b\<rparr>)"
    using 1 2 by simp
  have t: "\<And>p e. in_fmt f32 (fst (pid_process (env_ctl ref_env) p e))" "\<And>s. in_fmt f64 (atof (env_text ref_env) s)"
    using ref_voltages_fmt by (simp_all add: ref_env_def ref_const_lib_def ref_formats_def f_of_int_def fround_signed_def)
  note r = topics_keep_their_types[OF ref_directory.topic_directory_axioms t _ _ _ steps]
  have "mb_find ref_msgbus ?b ''/battery_level'' = Some ''/battery_level''" "mb_read ref_msgbus ?b ''/battery_level'' = Some ?m"
    by (simp_all add: ref_msgbus_def)
  then show ?thesis using r steps by (simp add: ref_thread_def ref_msgbus_def)
qed


end
