(* ===== verification/Usb_Config.thy ===== *)
theory Usb_Config
  imports Prelude
begin

section \<open>The USB serial port (\<open>src/usbconf.c\<close>)\<close>

text \<open>
  The robot is a USB device with the two interfaces of a serial port (CDC). The file has the descriptors it
  tells the host, the endpoints it opens when the host has configured it, and the start of the driver.
  The driver is a library with an opaque state (\<open>usb_driver\<close>). The descriptors are written with its macros
  (\<open>usb_macros\<close>), whose layouts are those of the USB standard (locale \<open>usb_layout\<close>, interpreted on \<open>std_macros\<close>).
  \<open>usb_descriptors_consistent\<close> reads the descriptors the way a host does: every length and count in
  them is right, and the endpoints they announce are the ones that are opened.
\<close>

subsection \<open>Macros and descriptors\<close>

record usb_macros =
  USB_DESC_DEVICE :: "u16 \<Rightarrow> u8 \<Rightarrow> u8 \<Rightarrow> u8 \<Rightarrow> u8 \<Rightarrow> u16 \<Rightarrow> u16 \<Rightarrow> u16 \<Rightarrow> u8 \<Rightarrow> u8 \<Rightarrow> u8 \<Rightarrow> u8 \<Rightarrow> u8 list"
  USB_DESC_CONFIGURATION :: "u16 \<Rightarrow> u8 \<Rightarrow> u8 \<Rightarrow> u8 \<Rightarrow> u8 \<Rightarrow> u8 \<Rightarrow> u8 list"
  USB_DESC_INTERFACE :: "u8 \<Rightarrow> u8 \<Rightarrow> u8 \<Rightarrow> u8 \<Rightarrow> u8 \<Rightarrow> u8 \<Rightarrow> u8 \<Rightarrow> u8 list"
  USB_DESC_ENDPOINT :: "u8 \<Rightarrow> u8 \<Rightarrow> u16 \<Rightarrow> u8 \<Rightarrow> u8 list"
  USB_DESC_BYTE :: "u8 \<Rightarrow> u8 list"
  USB_DESC_WORD :: "u16 \<Rightarrow> u8 list"
  USB_DESC_BCD :: "u16 \<Rightarrow> u8 list"

definition USB_DESCRIPTOR_DEVICE :: u8 where "USB_DESCRIPTOR_DEVICE = 1"
definition USB_DESCRIPTOR_CONFIGURATION :: u8 where "USB_DESCRIPTOR_CONFIGURATION = 2"
definition USB_DESCRIPTOR_STRING :: u8 where "USB_DESCRIPTOR_STRING = 3"

definition USBD1_DATA_REQUEST_EP :: u8 where "USBD1_DATA_REQUEST_EP = 1"
definition USBD1_DATA_AVAILABLE_EP :: u8 where "USBD1_DATA_AVAILABLE_EP = 1"
definition USBD1_INTERRUPT_REQUEST_EP :: u8 where "USBD1_INTERRUPT_REQUEST_EP = 2"

definition vcom_device_descriptor_data :: "usb_macros \<Rightarrow> u8 list" where
  "vcom_device_descriptor_data M =
     USB_DESC_DEVICE M 0x0110 0x02 0x00 0x00 0x40 0x0483 0x5740 0x0200 1 2 3 1"

definition vcom_configuration_descriptor_data :: "usb_macros \<Rightarrow> u8 list" where
  "vcom_configuration_descriptor_data M = concat
     [USB_DESC_CONFIGURATION M 67 0x02 0x01 0 0xC0 50,
      USB_DESC_INTERFACE M 0x00 0x00 0x01 0x02 0x02 0x01 0,
      USB_DESC_BYTE M 5, USB_DESC_BYTE M 0x24, USB_DESC_BYTE M 0x00, USB_DESC_BCD M 0x0110,
      USB_DESC_BYTE M 5, USB_DESC_BYTE M 0x24, USB_DESC_BYTE M 0x01, USB_DESC_BYTE M 0x00, USB_DESC_BYTE M 0x01,
      USB_DESC_BYTE M 4, USB_DESC_BYTE M 0x24, USB_DESC_BYTE M 0x02, USB_DESC_BYTE M 0x02,
      USB_DESC_BYTE M 5, USB_DESC_BYTE M 0x24, USB_DESC_BYTE M 0x06, USB_DESC_BYTE M 0x00, USB_DESC_BYTE M 0x01,
      USB_DESC_ENDPOINT M (USBD1_INTERRUPT_REQUEST_EP OR 0x80) 0x03 0x0008 0xFF,
      USB_DESC_INTERFACE M 0x01 0x00 0x02 0x0A 0x00 0x00 0x00,
      USB_DESC_ENDPOINT M USBD1_DATA_AVAILABLE_EP 0x02 0x0040 0x00,
      USB_DESC_ENDPOINT M (USBD1_DATA_REQUEST_EP OR 0x80) 0x02 0x0040 0x00]"

text \<open>\<open>'c', 0\<close> for every character.\<close>

definition utf16 :: "string \<Rightarrow> u8 list" where
  "utf16 s = concat (map (\<lambda>c. [of_nat (of_char c), 0]) s)"

definition vcom_string0 :: "usb_macros \<Rightarrow> u8 list" where
  "vcom_string0 M = USB_DESC_BYTE M 4 @ USB_DESC_BYTE M USB_DESCRIPTOR_STRING @ USB_DESC_WORD M 0x0409"

definition vcom_string1 :: "usb_macros \<Rightarrow> u8 list" where
  "vcom_string1 M = USB_DESC_BYTE M 10 @ USB_DESC_BYTE M USB_DESCRIPTOR_STRING @ utf16 ''EPFL''"

definition vcom_string2 :: "usb_macros \<Rightarrow> u8 list" where
  "vcom_string2 M = USB_DESC_BYTE M 16 @ USB_DESC_BYTE M USB_DESCRIPTOR_STRING @ utf16 ''E-puck2''"

text \<open>The digits of the kernel's version are added to the character zero.\<close>

definition vcom_string3 :: "usb_macros \<Rightarrow> u8 \<times> u8 \<times> u8 \<Rightarrow> u8 list" where
  "vcom_string3 M = (\<lambda>(CH_KERNEL_MAJOR, CH_KERNEL_MINOR, CH_KERNEL_PATCH).
     USB_DESC_BYTE M 8 @ USB_DESC_BYTE M USB_DESCRIPTOR_STRING
     @ [48 + CH_KERNEL_MAJOR, 0, 48 + CH_KERNEL_MINOR, 0, 48 + CH_KERNEL_PATCH, 0])"

definition vcom_strings :: "usb_macros \<Rightarrow> u8 \<times> u8 \<times> u8 \<Rightarrow> u8 list list" where
  "vcom_strings M v = [vcom_string0 M, vcom_string1 M, vcom_string2 M, vcom_string3 M v]"

text \<open>\<open>None\<close> is the null pointer: the driver refuses the request.\<close>

definition get_descriptor :: "usb_macros \<Rightarrow> u8 \<times> u8 \<times> u8 \<Rightarrow> u8 \<Rightarrow> u8 \<Rightarrow> u16 \<Rightarrow> u8 list option" where
  "get_descriptor M v dtype dindex lang =
     (if dtype = USB_DESCRIPTOR_DEVICE then Some (vcom_device_descriptor_data M)
      else if dtype = USB_DESCRIPTOR_CONFIGURATION then Some (vcom_configuration_descriptor_data M)
      else if dtype = USB_DESCRIPTOR_STRING then (if dindex < 4 then Some (vcom_strings M v ! unat dindex) else None)
      else None)"

subsection \<open>Endpoints, events, start\<close>

datatype ep_mode = USB_EP_MODE_TYPE_BULK | USB_EP_MODE_TYPE_INTR
datatype ep_callback = sduDataTransmitted | sduDataReceived | sduInterruptTransmitted

record usb_endpoint =
  ep_mode :: ep_mode
  in_cb :: "ep_callback option"
  out_cb :: "ep_callback option"
  in_maxsize :: u16
  out_maxsize :: u16
  in_multiplier :: nat

definition ep1config :: usb_endpoint where
  "ep1config = \<lparr>ep_mode = USB_EP_MODE_TYPE_BULK, in_cb = Some sduDataTransmitted, out_cb = Some sduDataReceived,
     in_maxsize = 0x0040, out_maxsize = 0x0040, in_multiplier = 2\<rparr>"

definition ep2config :: usb_endpoint where
  "ep2config = \<lparr>ep_mode = USB_EP_MODE_TYPE_INTR, in_cb = Some sduInterruptTransmitted, out_cb = None,
     in_maxsize = 0x0010, out_maxsize = 0x0000, in_multiplier = 1\<rparr>"

datatype usbevent = USB_EVENT_RESET | USB_EVENT_ADDRESS | USB_EVENT_CONFIGURED | USB_EVENT_SUSPEND
  | USB_EVENT_WAKEUP | USB_EVENT_STALLED

record 'u usb_driver =
  chSysLockFromISR :: "'u \<Rightarrow> 'u"
  chSysUnlockFromISR :: "'u \<Rightarrow> 'u"
  usbInitEndpointI :: "u8 \<Rightarrow> usb_endpoint \<Rightarrow> 'u \<Rightarrow> 'u"
  sduConfigureHookI :: "'u \<Rightarrow> 'u"
  sduObjectInit :: "'u \<Rightarrow> 'u"
  sduStart :: "u8 \<times> u8 \<times> u8 \<Rightarrow> 'u \<Rightarrow> 'u"
  usbDisconnectBus :: "'u \<Rightarrow> 'u"
  usbStart :: "'u \<Rightarrow> 'u"
  usbConnectBus :: "'u \<Rightarrow> 'u"
  usbSleepMilliseconds :: "nat \<Rightarrow> 'u \<Rightarrow> 'u"

definition usb_event :: "'u usb_driver \<Rightarrow> usbevent \<Rightarrow> 'u \<Rightarrow> 'u" where
  "usb_event D event u =
     (case event of
        USB_EVENT_CONFIGURED \<Rightarrow>
          (let u = chSysLockFromISR D u;
               u = usbInitEndpointI D USBD1_DATA_REQUEST_EP ep1config u;
               u = usbInitEndpointI D USBD1_INTERRUPT_REQUEST_EP ep2config u;
               u = sduConfigureHookI D u
           in chSysUnlockFromISR D u)
      | _ \<Rightarrow> u)"

definition serusbcfg :: "u8 \<times> u8 \<times> u8" where
  "serusbcfg = (USBD1_DATA_REQUEST_EP, USBD1_DATA_AVAILABLE_EP, USBD1_INTERRUPT_REQUEST_EP)"

definition usb_start :: "'u usb_driver \<Rightarrow> 'u \<Rightarrow> 'u" where
  "usb_start D u =
     (let u = sduObjectInit D u;
          u = sduStart D serusbcfg u;
          u = usbDisconnectBus D u;
          u = usbSleepMilliseconds D 1000 u;
          u = usbStart D u
      in usbConnectBus D u)"

subsection \<open>The standard layouts and the driver\<close>

locale usb_layout =
  fixes M :: usb_macros
  assumes device: "USB_DESC_DEVICE M bcd cls sub prot mps vid pid dev im ip isn nc =
      [18, 1] @ le_bytes16 bcd @ [cls, sub, prot, mps] @ le_bytes16 vid @ le_bytes16 pid @ le_bytes16 dev @ [im, ip, isn, nc]"
    and configuration: "USB_DESC_CONFIGURATION M tlen nif val istr attr mxp = [9, 2] @ le_bytes16 tlen @ [nif, val, istr, attr, mxp]"
    and interface: "USB_DESC_INTERFACE M num alt neps cls sub prot istr = [9, 4, num, alt, neps, cls, sub, prot, istr]"
    and endpoint: "USB_DESC_ENDPOINT M addr attr sz ival = [7, 5, addr, attr] @ le_bytes16 sz @ [ival]"
    and byte: "USB_DESC_BYTE M x = [x]"
    and word: "USB_DESC_WORD M w = le_bytes16 w"
    and bcd: "USB_DESC_BCD M w = le_bytes16 w"

locale usb_device =
  fixes D :: "'u usb_driver" and opened :: "'u \<Rightarrow> u8 \<Rightarrow> usb_endpoint option"
  assumes init_opens: "opened (usbInitEndpointI D n c u) = (opened u)(n \<mapsto> c)"
    and lock_keeps: "opened (chSysLockFromISR D u) = opened u"
    and unlock_keeps: "opened (chSysUnlockFromISR D u) = opened u"
    and hook_keeps: "opened (sduConfigureHookI D u) = opened u"
begin

lemma configured: "opened (usb_event D USB_EVENT_CONFIGURED u) = (opened u)(1 \<mapsto> ep1config, 2 \<mapsto> ep2config)"
  by (simp add: usb_event_def Let_def init_opens lock_keeps unlock_keeps hook_keeps USBD1_DATA_REQUEST_EP_def
      USBD1_INTERRUPT_REQUEST_EP_def)

end

definition std_macros :: usb_macros where
  "std_macros = \<lparr>USB_DESC_DEVICE = (\<lambda>bcd cls sub prot mps vid pid dev im ip isn nc.
       [18, 1] @ le_bytes16 bcd @ [cls, sub, prot, mps] @ le_bytes16 vid @ le_bytes16 pid @ le_bytes16 dev @ [im, ip, isn, nc]),
     USB_DESC_CONFIGURATION = (\<lambda>tlen nif val istr attr mxp. [9, 2] @ le_bytes16 tlen @ [nif, val, istr, attr, mxp]),
     USB_DESC_INTERFACE = (\<lambda>num alt neps cls sub prot istr. [9, 4, num, alt, neps, cls, sub, prot, istr]),
     USB_DESC_ENDPOINT = (\<lambda>addr attr sz ival. [7, 5, addr, attr] @ le_bytes16 sz @ [ival]),
     USB_DESC_BYTE = (\<lambda>x. [x]), USB_DESC_WORD = le_bytes16, USB_DESC_BCD = le_bytes16\<rparr>"

interpretation std_usb: usb_layout std_macros
  by unfold_locales (simp_all add: std_macros_def)

definition ref_usb :: "(u8 \<Rightarrow> usb_endpoint option) usb_driver" where
  "ref_usb = \<lparr>chSysLockFromISR = (\<lambda>u. u), chSysUnlockFromISR = (\<lambda>u. u), usbInitEndpointI = (\<lambda>n c u. u(n \<mapsto> c)),
     sduConfigureHookI = (\<lambda>u. u), sduObjectInit = (\<lambda>u. u), sduStart = (\<lambda>_ u. u), usbDisconnectBus = (\<lambda>u. Map.empty),
     usbStart = (\<lambda>u. u), usbConnectBus = (\<lambda>u. u), usbSleepMilliseconds = (\<lambda>_ u. u)\<rparr>"

interpretation ref_usb: usb_device ref_usb "\<lambda>u. u"
  by unfold_locales (simp_all add: ref_usb_def)

subsection \<open>Reading descriptors as a host does\<close>

text \<open>A sequence of descriptors, each with its length first and its type second.\<close>

function usb_items :: "u8 list \<Rightarrow> u8 list list option" where
  "usb_items bs =
     (case bs of [] \<Rightarrow> Some []
      | l # _ \<Rightarrow> if unat l < 2 \<or> length bs < unat l then None
                else map_option ((#) (take (unat l) bs)) (usb_items (drop (unat l) bs)))"
  by auto
termination by (relation "measure length") auto

declare usb_items.simps [simp del]

lemma usb_items_Nil [simp]: "usb_items [] = Some []"
  by (subst usb_items.simps) simp

lemma usb_items_append:
  assumes "2 \<le> length d" "unat (d ! 0) = length d"
  shows "usb_items (d @ bs) = map_option ((#) d) (usb_items bs)"
  using assms by (cases d) (auto simp: usb_items.simps[of "_ # _"])

text \<open>The interfaces with their endpoints.\<close>

fun interfaces :: "u8 list list \<Rightarrow> (u8 list \<times> u8 list list) list" where
  "interfaces [] = []"
| "interfaces (d # ds) =
     (if d ! 1 = 4 then (d, filter (\<lambda>e. e ! 1 = 5) (takeWhile (\<lambda>e. e ! 1 \<noteq> 4) ds)) # interfaces ds else interfaces ds)"

text \<open>An endpoint descriptor agrees with an opened endpoint: transfer type, direction, and a packet size that
  fits.\<close>

definition endpoint_agrees :: "u8 list \<Rightarrow> usb_endpoint \<Rightarrow> bool" where
  "endpoint_agrees e c \<longleftrightarrow> (e ! 3 = 2 \<longleftrightarrow> ep_mode c = USB_EP_MODE_TYPE_BULK) \<and> (e ! 3 = 3 \<longleftrightarrow> ep_mode c = USB_EP_MODE_TYPE_INTR)
     \<and> (if bit (e ! 2) 7 then in_cb c \<noteq> None \<and> le_word16 [e ! 4, e ! 5] \<le> in_maxsize c
        else out_cb c \<noteq> None \<and> le_word16 [e ! 4, e ! 5] \<le> out_maxsize c)"

definition config_items :: "u8 list list" where
  "config_items = [[9, 2, 67, 0, 2, 1, 0, 192, 50], [9, 4, 0, 0, 1, 2, 2, 1, 0], [5, 36, 0, 16, 1], [5, 36, 1, 0, 1], [4, 36, 2, 2],
     [5, 36, 6, 0, 1], [7, 5, 130, 3, 8, 0, 255], [9, 4, 1, 0, 2, 10, 0, 0, 0], [7, 5, 1, 2, 64, 0, 0], [7, 5, 129, 2, 64, 0, 0]]"

context usb_layout
begin

lemmas macros = device configuration interface endpoint byte word bcd

lemma config_bytes: "vcom_configuration_descriptor_data M = concat config_items"
proof -
  have "vcom_configuration_descriptor_data M = vcom_configuration_descriptor_data std_macros"
    by (simp add: vcom_configuration_descriptor_data_def macros std_usb.macros)
  also have "\<dots> = concat config_items" by code_simp
  finally show ?thesis .
qed

end

lemma config_items_parse: "usb_items (concat config_items) = Some config_items"
  by (simp add: config_items_def usb_items.simps[of "_ # _"])


lemma config_interfaces:
  "interfaces config_items = [([9, 4, 0, 0, 1, 2, 2, 1, 0], [[7, 5, 130, 3, 8, 0, 255]]),
     ([9, 4, 1, 0, 2, 10, 0, 0, 0], [[7, 5, 1, 2, 64, 0, 0], [7, 5, 129, 2, 64, 0, 0]])]"
  by (simp add: config_items_def)

lemma endpoints_agree:
  "endpoint_agrees [7, 5, 130, 3, 8, 0, 255] ep2config" "endpoint_agrees [7, 5, 1, 2, 64, 0, 0] ep1config"
  "endpoint_agrees [7, 5, 129, 2, 64, 0, 0] ep1config"
  by code_simp+

definition host_reads :: "('u \<Rightarrow> u8 \<Rightarrow> usb_endpoint option) \<Rightarrow> 'u \<Rightarrow> u8 list \<Rightarrow> bool" where
  "host_reads opened u bs \<longleftrightarrow>
     (case usb_items bs of None \<Rightarrow> False
      | Some items \<Rightarrow> le_word16 [bs ! 2, bs ! 3] = of_nat (length bs) \<and> length (interfaces items) = unat (bs ! 4)
          \<and> map (\<lambda>(i, es). (i ! 2, unat (i ! 4))) (interfaces items)
              = map (\<lambda>k. (of_nat k, length (snd (interfaces items ! k)))) [0..<length (interfaces items)]
          \<and> distinct (map (\<lambda>e. e ! 2) (concat (map snd (interfaces items))))
          \<and> list_all (\<lambda>e. case opened u (e ! 2 AND 0x7F) of None \<Rightarrow> False | Some c \<Rightarrow> endpoint_agrees e c)
              (concat (map snd (interfaces items))))"

lemma config_read:
  assumes "usb_device D opened"
  shows "host_reads opened (usb_event D USB_EVENT_CONFIGURED u) (concat config_items)"
proof -
  have a: "(130 :: u8) AND 0x7F = 2" "(1 :: u8) AND 0x7F = 1" "(129 :: u8) AND 0x7F = 1" by code_simp+
  have l: "length (concat config_items) = 67" "le_word16 [concat config_items ! 2, concat config_items ! 3] = 67"
    "concat config_items ! 4 = 2" by code_simp+
  show ?thesis
    unfolding host_reads_def config_items_parse option.case l config_interfaces usb_device.configured[OF assms]
    by (simp add: a endpoints_agree)
qed

text \<open>C31. What a host reads, with any driver that lays descriptors out as the standard says. Exactly the device,
  the configuration and the strings 0 to 3 are answered; an answer has the type asked for and, but for
  the configuration, its own length. The configuration is a sequence of descriptors that ends exactly at its
  total length; it has the announced number of interfaces, numbered from 0, each with the announced number of
  endpoints; no endpoint address occurs twice; and after the host has configured the robot, each of
  them is open with the announced transfer type, direction and room for the announced packets. The three
  strings the device names exist.\<close>
theorem usb_descriptors_consistent:
  assumes "usb_layout M" "usb_device D opened"
  shows "(get_descriptor M v dtype dindex lang = None \<longleftrightarrow>
      dtype \<notin> {USB_DESCRIPTOR_DEVICE, USB_DESCRIPTOR_CONFIGURATION} \<and> (dtype = USB_DESCRIPTOR_STRING \<longrightarrow> 4 \<le> dindex))
    \<and> (\<forall>bs. get_descriptor M v dtype dindex lang = Some bs \<longrightarrow> bs ! 1 = dtype
        \<and> (if dtype = USB_DESCRIPTOR_CONFIGURATION then host_reads opened (usb_event D USB_EVENT_CONFIGURED u) bs
           else unat (bs ! 0) = length bs)
        \<and> (dtype = USB_DESCRIPTOR_DEVICE \<longrightarrow>
            list_all (\<lambda>i. get_descriptor M v USB_DESCRIPTOR_STRING (bs ! i) lang \<noteq> None) [14, 15, 16]))"
proof -
  note types = USB_DESCRIPTOR_DEVICE_def USB_DESCRIPTOR_CONFIGURATION_def USB_DESCRIPTOR_STRING_def
  note m = usb_layout.macros[OF assms(1)]
  have dev: "vcom_device_descriptor_data M = [18, 1, 16, 1, 2, 0, 0, 64, 131, 4, 64, 87, 0, 2, 1, 2, 3, 1]"
    by (simp add: vcom_device_descriptor_data_def m le_bytes16_def)
  have s: "s ! 1 = 3 \<and> unat (s ! 0) = length s" if "s \<in> set (vcom_strings M v)" for s
    using that by (cases v) (auto simp: vcom_strings_def vcom_string0_def vcom_string1_def vcom_string2_def vcom_string3_def m
        types utf16_def)
  have i: "unat (x :: u8) < 4" if "x < 4" for x using that by (simp add: word_less_nat_alt)
  have str: "vcom_strings M v ! unat x \<in> set (vcom_strings M v)" if "x < 4" for x :: u8
    using i[OF that] by (intro nth_mem) (simp add: vcom_strings_def)
  note c = usb_layout.config_bytes[OF assms(1)]
  have c1: "concat config_items ! 1 = 2" by code_simp
  consider "dtype = 1" | "dtype = 2" | "dtype = 3" | "dtype \<notin> {1, 2, 3}" by auto
  then show ?thesis
  proof cases
    case 1
    then show ?thesis by (auto simp: get_descriptor_def types dev)
  next
    case 2
    then show ?thesis using c1 config_read[OF assms(2)] by (auto simp: get_descriptor_def types c)
  next
    case 3
    then show ?thesis using s str by (auto simp: get_descriptor_def types not_less)
  qed (auto simp: get_descriptor_def types)
qed

theorem usb_descriptors_consistent_witness:
  "get_descriptor std_macros (16, 1, 0) 3 4 0x0409 = None
    \<and> the (get_descriptor std_macros (16, 1, 0) 2 0 0) ! 1 = 2
    \<and> host_reads (\<lambda>u. u) (usb_event ref_usb USB_EVENT_CONFIGURED Map.empty) (the (get_descriptor std_macros (16, 1, 0) 2 0 0))
    \<and> length (the (get_descriptor std_macros (16, 1, 0) 2 0 0)) = 67"
proof -
  have l: "length (the (get_descriptor std_macros (16, 1, 0) 2 0 0)) = 67" by code_simp
  have "get_descriptor std_macros (16, 1, 0) 2 0 0 \<noteq> None" by code_simp
  then obtain bs where "get_descriptor std_macros (16, 1, 0) 2 0 0 = Some bs" by blast
  then show ?thesis
    using l usb_descriptors_consistent[OF std_usb.usb_layout_axioms ref_usb.usb_device_axioms, where dtype = 3 and dindex = 4 and v = "(16, 1, 0)" and lang = "0x0409"]
      usb_descriptors_consistent[OF std_usb.usb_layout_axioms ref_usb.usb_device_axioms, where dtype = 2 and dindex = 0 and v = "(16, 1, 0)" and lang = 0 and u = Map.empty]
    by (simp add: USB_DESCRIPTOR_DEVICE_def USB_DESCRIPTOR_CONFIGURATION_def USB_DESCRIPTOR_STRING_def)
qed


end
