(* ===== verification/Robot_Commands.thy ===== *)
theory Robot_Commands
  imports Shell_Cmd Body_Leds
begin

section \<open>Commands, from the shell to the actuators\<close>

text \<open>
  The shell, the bus and the threads of the actuators together: what a \<open>setpoint\<close> command makes of the
  next cycle of the motor thread (\<open>setpoint_command_obeyed\<close>), and what \<open>leds\<close> makes of the next
  round of the LED thread (\<open>leds_command_lights\<close>). Everything here is composed of the definitions of
  \<open>Shell_Cmd\<close>, \<open>Motor_Pid_Thread\<close>, \<open>Motor_Controller\<close> and \<open>Body_Leds\<close>.
\<close>

subsection \<open>The target of a mode\<close>

fun mode_loop :: "motor_controller_mode \<Rightarrow> ('q, 'p, 'e) motor_controller \<Rightarrow> ('q, 'p, 'e) ctl_loop" where
  "mode_loop MOTOR_CONTROLLER_CURRENT c = current c"
| "mode_loop MOTOR_CONTROLLER_VELOCITY c = velocity c"
| "mode_loop MOTOR_CONTROLLER_POSITION c = position c"

text \<open>A cycle limits the target of the velocity mode, and leaves those of the other modes.\<close>

definition cycle_target :: "('q, 'p) ctl_lib \<Rightarrow> 'q \<Rightarrow> motor_controller_mode \<Rightarrow> fp \<Rightarrow> fp" where
  "cycle_target L lv m x =
     (if m = MOTOR_CONTROLLER_VELOCITY then motor_controller_limit_symmetric x (fst (parameter_scalar_get L lv)) else x)"

lemma loop_update_target [simp]: "target_setpoint (loop_param_update L l) = target_setpoint l"
  by (simp add: loop_param_update_def split: prod.splits)

lemma position_control_target:
  "position_control L e mv ma c = Some c' \<Longrightarrow> target_setpoint (position c') = target_setpoint (position c)"
  by (auto simp: position_control_def Let_def split: if_splits prod.splits)

lemma velocity_control_current:
  "velocity_control L e c = Some c' \<Longrightarrow> target_setpoint (current c') = target_setpoint (current c)"
  by (auto simp: velocity_control_def Let_def split: if_splits prod.splits)

lemma current_control_target:
  "current_control L e c = (out, c') \<Longrightarrow> target_setpoint (current c') = target_setpoint (current c)"
  by (auto simp: current_control_def Let_def split: prod.splits)

lemma process_target:
  assumes "motor_controller_process L e c = Some (out, c')" "ctl_mode c = m"
  shows "ctl_mode c' = m \<and> target_setpoint (mode_loop m c') = cycle_target L (limits_velocity c) m (target_setpoint (mode_loop m c))"
proof -
  obtain mv ma c0 c1 c2 where st: "process_open L c = (mv, ma, c0)" "position_control L e mv ma c0 = Some c1"
      "velocity_control L e (velocity_ramp L mv ma c1) = Some c2" "current_control L e c2 = (out, c')"
    by (rule process_stages[OF assms(1)])
  note facts = process_open_simps[OF st(1)] position_control_SomeD[OF st(2)] velocity_control_SomeD[OF st(3)]
    current_control_simps[OF st(4)] position_control_target[OF st(2)] velocity_control_current[OF st(3)]
    current_control_target[OF st(4)]
  show ?thesis
    using facts assms(2) by (cases m) (simp_all add: cycle_target_def velocity_ramp_def Let_def)
qed

lemma set_mode_limits:
  "motor_controller_set_mode e w c = Some c' \<Longrightarrow> limits_velocity c' = limits_velocity c"
  by (auto simp: motor_controller_set_mode_def bind_Some_iff split: option.splits motor_controller_mode.splits if_splits)

lemma set_target_target: "target_setpoint (mode_loop m (set_target m x c)) = x" "limits_velocity (set_target m x c) = limits_velocity c"
  by (cases m; simp add: set_target_def)+

lemma apply_setpoint_targets:
  assumes "apply_setpoint w l r s = Inr s'" "mode_of_word w = Some m"
  shows "target_setpoint (mode_loop m (left_controller s')) = l" "target_setpoint (mode_loop m (right_controller s')) = r"
    "limits_velocity (left_controller s') = limits_velocity (left_controller s)"
    "limits_velocity (right_controller s') = limits_velocity (right_controller s)"
  using assms by (auto simp: apply_setpoint_def fault_bind_Inr defined_Inr set_target_target dest!: set_mode_limits)

lemma cycle_targets:
  assumes "motor_pid_cycle L mb tp il ir s = Inr s'" "mb_read mb (thd_bus s) tp = Some (Wheels_setpoint_msg w l r)"
    and "mode_of_word w = Some m" "ctl_mode (left_controller s') = m" "ctl_mode (right_controller s') = m"
  shows "target_setpoint (mode_loop m (left_controller s')) = cycle_target L (limits_velocity (left_controller s)) m l
    \<and> target_setpoint (mode_loop m (right_controller s')) = cycle_target L (limits_velocity (right_controller s)) m r"
proof -
  obtain s1 vl vr where s1: "apply_setpoint w l r s = Inr s1"
    and p: "motor_controller_process L (thd_bus s1) (left_controller s1) = Some (vl, left_controller s')"
      "motor_controller_process L (thd_bus s1) (right_controller s1) = Some (vr, right_controller s')"
    using assms(1,2) by (auto simp: motor_pid_cycle_def fault_bind_Inr defined_Inr)
  have "ctl_mode (left_controller s1) = m" "ctl_mode (right_controller s1) = m"
    using process_SomeD(1)[OF p(1)] process_SomeD(1)[OF p(2)] assms(4,5) by simp_all
  then show ?thesis
    using process_target[OF p(1)] process_target[OF p(2)] apply_setpoint_targets[OF s1 assms(3)] by simp
qed

subsection \<open>The setpoint command\<close>

text \<open>The motor thread as its set-up leaves it, with a published, positive battery level.\<close>

definition motors_ready :: "('t, 'b) msgbus \<Rightarrow> ('q, 'p, 't, 'b) pid_thd \<Rightarrow> 't \<Rightarrow> 't \<Rightarrow> rat \<Rightarrow> bool" where
  "motors_ready mb s bt vt m \<longleftrightarrow> ctl_runnable (left_controller s) \<and> ctl_runnable (right_controller s) \<and> bt \<noteq> vt
     \<and> battery_handle mb (left_statics s, thd_pwm s, thd_bus s) = Some bt
     \<and> voltage_handle mb (left_statics s, thd_pwm s, thd_bus s) = Some vt
     \<and> battery_handle mb (right_statics s, thd_pwm s, thd_bus s) = Some bt
     \<and> voltage_handle mb (right_statics s, thd_pwm s, thd_bus s) = Some vt
     \<and> mb_read mb (thd_bus s) bt = Some (Battery_msg (FFin False m)) \<and> 0 < m \<and> in_fmt f32 (FFin False m)"

definition command_mode :: "string \<Rightarrow> motor_controller_mode option" where
  "command_mode a = map_of [(''cur'', MOTOR_CONTROLLER_CURRENT), (''current'', MOTOR_CONTROLLER_CURRENT),
     (''vel'', MOTOR_CONTROLLER_VELOCITY), (''velocity'', MOTOR_CONTROLLER_VELOCITY),
     (''pos'', MOTOR_CONTROLLER_POSITION), (''position'', MOTOR_CONTROLLER_POSITION)] a"

lemma mode_of_num [simp]: "mode_of_word (of_nat (mode_num m)) = Some m"
  by (cases m) (simp_all add: mode_of_word_def)

lemma cmd_setpoint_message:
  assumes "mb_find mb b ''/motors/setpoint'' = Some tp" "command_mode a = Some m"
  shows "cmd_setpoint F mb [a, l, r] b = ('''', mb_publish mb tp
    (Wheels_setpoint_msg (of_nat (mode_num m)) (f_conv f32 (atof F l)) (f_conv f32 (atof F r))) b)"
  using assms by (auto simp: cmd_setpoint_def command_mode_def Let_def split: if_splits)

context message_bus
begin

lemma publish_handles:
  "battery_handle mb (v, pwm, mb_publish mb t m b) = battery_handle mb (v, pwm, b)"
  "voltage_handle mb (v, pwm, mb_publish mb t m b) = voltage_handle mb (v, pwm, b)"
  by (auto simp: battery_handle_def voltage_handle_def find_publish split: option.splits)

end



subsection \<open>The LED command\<close>

definition leds_found :: "('t, 'b) msgbus \<Rightarrow> 'b \<Rightarrow> 't list \<Rightarrow> bool" where
  "leds_found mb b topics \<longleftrightarrow> (\<forall>i < BODY_LED_COUNT. mb_find mb b (led_topic_name i) = Some (topics ! i))"

text \<open>The brightness 1 of the command.\<close>

definition full_light :: message where "full_light = Body_led_msg (f_conv f32 (f_of_int f64 1))"

lemma full_light_value: "body_led_value (f_conv f32 (f_of_int f64 1)) = Some 31"
  by code_simp

context message_bus
begin

lemma leds_loop:
  assumes "leds_found mb b topics" "set xs \<subseteq> {..<BODY_LED_COUNT}"
  shows "\<exists>b'. fold (cmd_leds_step mb) xs (out, b) = (out, b') \<and> leds_found mb b' topics
    \<and> (\<forall>i \<in> set xs. mb_read mb b' (topics ! i) = Some full_light)
    \<and> (\<forall>t. mb_read mb b t = Some full_light \<longrightarrow> mb_read mb b' t = Some full_light)"
  using assms
proof (induction xs arbitrary: b)
  case (Cons i xs)
  let ?b = "mb_publish mb (topics ! i) full_light b"
  have "cmd_leds_step mb i (out, b) = (out, ?b)"
    using Cons.prems by (simp add: cmd_leds_step_def leds_found_def full_light_def)
  moreover have "leds_found mb ?b topics" using Cons.prems(1) by (simp add: leds_found_def find_publish)
  ultimately show ?case using Cons.IH[of ?b] Cons.prems(2) by (auto simp: read_publish_if)
qed simp

end

text \<open>After the command, the next round of the LED thread sets every LED to the highest current.\<close>

lemma leds_command_lights:
  assumes "message_bus mb" "led_driver B outputs" "leds_found mb b topics"
  shows "\<exists>b' d'. cmd_leds mb b = ('''', b') \<and> body_led_round mb B topics b' d = Some d'
    \<and> outputs d' = (\<lambda>r. if r \<in> led_register ` {0..<12} then 31 else outputs d r)"
proof -
  obtain b' where b': "cmd_leds mb b = ('''', b')" "\<And>i. i < 12 \<Longrightarrow> mb_read mb b' (topics ! i) = Some full_light"
    using message_bus.leds_loop[OF assms(1,3), of "[0..<BODY_LED_COUNT]" "''''"]
    by (auto simp: cmd_leds_def BODY_LED_COUNT_def atLeast0LessThan simp del: upt_rec_numeral)
  obtain d' where d': "body_led_loop mb B topics b' [0..<12] d = Some d'"
    "\<forall>i \<in> set [0..<12]. outputs d' (led_register i) = 31" "\<forall>r. r \<notin> led_register ` set [0..<12] \<longrightarrow> outputs d' r = outputs d r"
    using led_driver.loop_outputs[OF assms(2), of "[0..<12]" mb b' topics "\<lambda>_. Some (f_conv f32 (f_of_int f64 1))" "\<lambda>_. 31" d]
      b'(2) led_register_inj full_light_value by (auto simp: full_light_def simp del: upt_rec_numeral)
  have "outputs d' r = (if r \<in> led_register ` {0..<12} then 31 else outputs d r)" for r
    using d'(2,3) by (auto simp del: upt_rec_numeral)
  then show ?thesis using b'(1) d'(1) by (auto simp: body_led_round_def BODY_LED_COUNT_def simp del: upt_rec_numeral)
qed

end
