(* ===== verification/Start_Up.thy ===== *)
theory Start_Up
  imports Topic_Types
begin

section \<open>Start-up (\<open>src/main.c\<close> and the threads up to their loops)\<close>

text \<open>
  \<open>main\<close> starts the drivers and one thread per service and then polls the card. Every thread has a prologue
  before its loop: it advertises its topics and waits for the topics of others. The
  prologues run in any interleaving (\<open>boot_step\<close>); sleeps are steps like any other, so no
  timing is assumed, and calls of drivers return. A thread in its loop may publish. The state keeps what
  the prologues share: the program counter of each thread, the topics on the bus, whether the thread of the
  inertial unit is registered for its interrupt, and whether the settings of the motors are those of the flash.
  The build is the one with the shell (without \<open>USE_SERIAL_IP\<close>). No wait of the start-up can block for good
  (\<open>start_up_completes\<close>).
\<close>

subsection \<open>Prologues\<close>

datatype robot_thread = Main | Blinker | Shell_spawn | Battery | Battery_protection | Encoders | Body_led | Range_reader
  | Proximity | Imu_reader | Motor_current | Motor_pid | Aseba_range | Aseba_proximity | Aseba_encoders
  | Aseba_imu | Aseba_audio | Audio | Can_rx | Aseba_vm

datatype boot_op = Call string | Sleep nat | Start robot_thread | Advertise string | Find_blocking string
  | Topic_wait string | Exti_init | Exti_register | Config_load | Set_default

definition aseba_variables_start :: "boot_op list" where
  "aseba_variables_start =
     [Start Aseba_range, Start Aseba_proximity, Start Aseba_encoders, Start Aseba_imu, Start Aseba_audio, Call ''chVTSet'',
      Call ''parameter_integer_declare'']"

definition main_start :: "boot_op list" where
  "main_start =
     [Call ''usb_start'', Call ''messagebus_init'', Call ''parameter_namespace_declare'', Call ''chprintf'',
      Call ''i2c_start'', Call ''adc_start'', Start Battery, Start Battery_protection, Call ''motor_pwm_start'', Start Encoders,
      Start Shell_spawn, Start Blinker, Start Body_led, Start Range_reader,
      Call ''pwmStart'', Call ''pwmEnableChannel'', Start Proximity, Start Imu_reader, Exti_init, Call ''extStart'', Start Motor_current, Start Motor_pid,
      Call ''parameter_namespace_declare'', Call ''parameter_integer_declare''] @ aseba_variables_start
     @ [Sleep 100, Config_load, Call ''sdcard_start'', Call ''sdcard_automount'', Start Audio,
      Call ''aseba_vm_init'', Start Can_rx, Start Aseba_vm]"

definition battery_boot :: "boot_op list" where
  "battery_boot = [Advertise ''/battery_level'']"

definition battery_protection_boot :: "boot_op list" where
  "battery_protection_boot = [Find_blocking ''/battery_level'', Topic_wait ''/battery_level'']"

definition encoders_boot :: "boot_op list" where
  "encoders_boot =
     [Advertise ''/encoders'', Advertise ''/wheel_pos'', Advertise ''/wheel_velocities'',
     Call ''setup_timer'', Call ''setup_timer'']"

definition body_led_boot :: "boot_op list" where
  "body_led_boot =
     map (\<lambda>i. Call ''led_set'') [0..<18] @ map (\<lambda>i. Advertise (led_topic_name i)) (rev [0..<BODY_LED_COUNT])"

definition range_reader_boot :: "boot_op list" where
  "range_reader_boot = [Sleep 100, Call ''vl6180x_init'', Call ''vl6180x_configure'', Advertise ''/range'']"

definition proximity_boot :: "boot_op list" where
  "proximity_boot = [Advertise ''/proximity'']"

definition imu_reader_boot :: "boot_op list" where
  "imu_reader_boot = [Call ''imu_low_level_init'', Exti_register, Advertise ''/imu'']"

definition motor_current_boot :: "boot_op list" where
  "motor_current_boot = [Advertise ''/motors/current'', Call ''motor_current_start_adc'']"

definition wait_for_services :: "boot_op list" where
  "wait_for_services =
     [Find_blocking ''/motors/current'', Find_blocking ''/wheel_velocities'', Find_blocking ''/wheel_pos'',
     Find_blocking ''/battery_level'']"

definition motor_pid_boot :: "boot_op list" where
  "motor_pid_boot =
     [Call ''parameter_namespace_declare'', Call ''parameter_namespace_declare'',
     Call ''motor_controller_init'', Call ''motor_controller_init''] @ replicate 16 Set_default
     @ [Call ''set_input_functions'', Call ''set_input_functions'', Call ''motor_controller_set_prescaler'',
     Call ''motor_controller_set_prescaler'', Call ''motor_controller_set_frequency'', Call ''motor_controller_set_frequency'',
     Advertise ''/motors/voltage'', Advertise ''/motors/setpoint''] @ wait_for_services @ [Call ''chVTSet'']"

definition aseba_range_boot :: "boot_op list" where
  "aseba_range_boot = [Find_blocking ''/range'']"

definition aseba_encoders_boot :: "boot_op list" where
  "aseba_encoders_boot = [Find_blocking ''/encoders'']"

definition aseba_proximity_boot :: "boot_op list" where
  "aseba_proximity_boot = [Find_blocking ''/proximity'']"

definition aseba_imu_boot :: "boot_op list" where
  "aseba_imu_boot = [Find_blocking ''/imu'']"

definition aseba_audio_boot :: "boot_op list" where
  "aseba_audio_boot = [Find_blocking ''/audio/play/result'']"

definition audio_boot :: "boot_op list" where
  "audio_boot = [Advertise ''/audio/play/request'', Advertise ''/audio/play/result'']"

definition aseba_vm_boot :: "boot_op list" where
  "aseba_vm_boot = [Call ''AsebaVMSetupEvent'']"

lemmas boots =
  battery_boot_def battery_protection_boot_def encoders_boot_def body_led_boot_def range_reader_boot_def proximity_boot_def imu_reader_boot_def motor_current_boot_def wait_for_services_def motor_pid_boot_def aseba_range_boot_def aseba_encoders_boot_def aseba_proximity_boot_def aseba_imu_boot_def aseba_audio_boot_def audio_boot_def aseba_vm_boot_def

fun prologue :: "robot_thread \<Rightarrow> boot_op list" where
  "prologue Main = main_start"
| "prologue Battery = battery_boot"
| "prologue Battery_protection = battery_protection_boot"
| "prologue Encoders = encoders_boot"
| "prologue Body_led = body_led_boot"
| "prologue Range_reader = range_reader_boot"
| "prologue Proximity = proximity_boot"
| "prologue Imu_reader = imu_reader_boot"
| "prologue Motor_current = motor_current_boot"
| "prologue Motor_pid = motor_pid_boot"
| "prologue Aseba_range = aseba_range_boot"
| "prologue Aseba_encoders = aseba_encoders_boot"
| "prologue Aseba_proximity = aseba_proximity_boot"
| "prologue Aseba_imu = aseba_imu_boot"
| "prologue Aseba_audio = aseba_audio_boot"
| "prologue Audio = audio_boot"
| "prologue Aseba_vm = aseba_vm_boot"
| "prologue _ = []"

subsection \<open>Steps\<close>

record boot =
  thread_pc :: "robot_thread \<Rightarrow> boot_op list option"
  topics :: "string set"
  imu_registered :: bool
  settings_in_force :: bool

definition power_up :: boot where
  "power_up = \<lparr>thread_pc = [Main \<mapsto> main_start], topics = {}, imu_registered = False, settings_in_force = False\<rparr>"

fun ready :: "boot \<Rightarrow> boot_op \<Rightarrow> bool" where
  "ready s (Find_blocking n) = (n \<in> topics s)"
| "ready s (Topic_wait n) = False"
| "ready s _ = True"

text \<open>A publication ends the waits that are in progress for its topic.\<close>

fun wake :: "string \<Rightarrow> boot_op list option \<Rightarrow> boot_op list option" where
  "wake n (Some (Topic_wait m # ops)) = Some (if m = n then ops else Topic_wait m # ops)"
| "wake n r = r"

text \<open>\<open>chEvtObjectInit\<close> empties the list of listeners; a default that is
set after the settings were loaded replaces the loaded value.\<close>

fun exec :: "boot_op \<Rightarrow> boot \<Rightarrow> boot" where
  "exec (Start t) s = s\<lparr>thread_pc := (thread_pc s)(t \<mapsto> prologue t)\<rparr>"
| "exec (Advertise n) s = s\<lparr>topics := insert n (topics s)\<rparr>"
| "exec Exti_init s = s\<lparr>imu_registered := False\<rparr>"
| "exec Exti_register s = s\<lparr>imu_registered := True\<rparr>"
| "exec Config_load s = s\<lparr>settings_in_force := True\<rparr>"
| "exec Set_default s = s\<lparr>settings_in_force := False\<rparr>"
| "exec _ s = s"

text \<open>What a thread publishes in its loop without being asked; the inertial unit only on its interrupt.\<close>

fun loop_topics :: "bool \<Rightarrow> robot_thread \<Rightarrow> string list" where
  "loop_topics r Battery = [''/battery_level'']"
| "loop_topics r Encoders = [''/encoders'', ''/wheel_pos'', ''/wheel_velocities'']"
| "loop_topics r Range_reader = [''/range'']"
| "loop_topics r Proximity = [''/proximity'']"
| "loop_topics r Imu_reader = (if r then [''/imu''] else [])"
| "loop_topics r Motor_current = [''/motors/current'']"
| "loop_topics r Motor_pid = [''/motors/voltage'']"
| "loop_topics r _ = []"

inductive boot_step :: "boot \<Rightarrow> boot \<Rightarrow> bool" where
  run: "thread_pc s t = Some (op # ops) \<Longrightarrow> ready s op \<Longrightarrow> boot_step s (exec op (s\<lparr>thread_pc := (thread_pc s)(t \<mapsto> ops)\<rparr>))"
| publish: "thread_pc s t = Some [] \<Longrightarrow> n \<in> set (loop_topics (imu_registered s) t) \<Longrightarrow>
    boot_step s (s\<lparr>thread_pc := wake n \<circ> thread_pc s\<rparr>)"

definition booted :: "boot \<Rightarrow> bool" where
  "booted s \<longleftrightarrow> (\<forall>t. thread_pc s t = Some [])"

subsection \<open>The invariant\<close>

text \<open>What is left of a prologue, when the effects of the rest are in the state.\<close>

definition traced :: "boot \<Rightarrow> robot_thread \<Rightarrow> boot_op list \<Rightarrow> bool" where
  "traced s t rest \<longleftrightarrow> (\<exists>before. prologue t = before @ rest \<and> (\<forall>n. Advertise n \<in> set before \<longrightarrow> n \<in> topics s)
     \<and> (\<forall>u. Start u \<in> set before \<longrightarrow> thread_pc s u \<noteq> None))"

definition boot_inv :: "boot \<Rightarrow> bool" where
  "boot_inv s \<longleftrightarrow> thread_pc s Main \<noteq> None \<and> (\<forall>t rest. thread_pc s t = Some rest \<longrightarrow> traced s t rest)
     \<and> (\<forall>rest u. thread_pc s Main = Some rest \<longrightarrow> Start u \<in> set rest \<longrightarrow> thread_pc s u = None)"

lemma boot_invD:
  assumes "boot_inv s"
  shows "thread_pc s Main \<noteq> None" "thread_pc s t = Some rest \<Longrightarrow> traced s t rest"
    "thread_pc s Main = Some rest \<Longrightarrow> Start u \<in> set rest \<Longrightarrow> thread_pc s u = None"
  using assms by (simp_all add: boot_inv_def)

definition grows :: "boot \<Rightarrow> boot \<Rightarrow> bool" where
  "grows s s' \<longleftrightarrow> topics s \<subseteq> topics s' \<and> (\<forall>t. thread_pc s t \<noteq> None \<longrightarrow> thread_pc s' t \<noteq> None)
     \<and> (\<forall>t. thread_pc s t = Some [] \<longrightarrow> thread_pc s' t = Some [])"

lemma traced_new: "traced s t (prologue t)"
  by (simp add: traced_def)

lemma traced_grows: "traced s t rest \<Longrightarrow> grows s s' \<Longrightarrow> traced s' t rest"
  unfolding traced_def grows_def by (elim exE conjE, rule exI) auto

lemma traced_next:
  assumes "traced s t (op # ops)" "grows s s'" "\<And>n. op = Advertise n \<Longrightarrow> n \<in> topics s'" "\<And>u. op = Start u \<Longrightarrow> thread_pc s' u \<noteq> None"
  shows "traced s' t ops"
proof -
  obtain before where "prologue t = before @ op # ops" "\<forall>n. Advertise n \<in> set before \<longrightarrow> n \<in> topics s"
    "\<forall>u. Start u \<in> set before \<longrightarrow> thread_pc s u \<noteq> None" using assms(1) by (auto simp: traced_def)
  then show ?thesis
    using assms(2-4) unfolding traced_def grows_def by (intro exI[of _ "before @ [op]"]) auto
qed

lemma exec_pc: "thread_pc (exec op s) t = (if op = Start t then Some (prologue t) else thread_pc s t)"
  by (cases op) auto

lemma exec_effects:
  "topics s \<subseteq> topics (exec op s)" "op = Advertise n \<Longrightarrow> n \<in> topics (exec op s)"
  by (cases op; auto)+

definition starts :: "boot_op list \<Rightarrow> robot_thread list" where
  "starts ops = concat (map (\<lambda>op. case op of Start t \<Rightarrow> [t] | _ \<Rightarrow> []) ops)"

lemma set_starts: "t \<in> set (starts ops) \<longleftrightarrow> Start t \<in> set ops"
  by (auto simp: starts_def split: boot_op.splits)

lemma main_starts:
  "distinct (starts main_start)" "Start Main \<notin> set main_start" "t \<noteq> Main \<Longrightarrow> Start t \<in> set main_start"
  by (simp_all add: main_start_def aseba_variables_start_def starts_def) (cases t; simp)

lemma only_main_starts: "Start u \<in> set (prologue t) \<Longrightarrow> t = Main"
  by (cases t) (auto simp: boots)

lemma boot_inv_power_up: "boot_inv power_up"
  using main_starts(2) traced_new[of power_up Main] by (auto simp: boot_inv_def power_up_def split: if_splits)

text \<open>Threads are started once, by \<open>main\<close>.\<close>

lemma boot_inv_start:
  assumes "boot_inv s" "thread_pc s t = Some (Start u # ops)"
  shows "t = Main" "thread_pc s u = None" "u \<noteq> Main" "Start u \<notin> set ops"
proof -
  obtain before where d: "prologue t = before @ Start u # ops" using boot_invD(2)[OF assms] by (auto simp: traced_def)
  show t: "t = Main" using only_main_starts[of u t] d by simp
  show n: "thread_pc s u = None" using boot_invD(3)[OF assms(1), of "Start u # ops"] assms(2) t by simp
  show "u \<noteq> Main" using n boot_invD(1)[OF assms(1)] by auto
  have "distinct (starts (before @ Start u # ops))" using main_starts(1) d t by simp
  then have "distinct (starts (Start u # ops))" by (simp add: starts_def)
  then have "u \<notin> set (starts ops)" by (simp add: starts_def)
  then show "Start u \<notin> set ops" by (simp add: set_starts)
qed

lemma run_grows:
  assumes "boot_inv s" "thread_pc s t = Some (op # ops)"
  shows "grows s (exec op (s\<lparr>thread_pc := (thread_pc s)(t \<mapsto> ops)\<rparr>))"
  using assms boot_inv_start(2)[of s t] exec_effects[where s = "s\<lparr>thread_pc := (thread_pc s)(t \<mapsto> ops)\<rparr>" and op = op]
  by (auto simp: grows_def exec_pc)

lemma boot_inv_run:
  assumes "boot_inv s" "thread_pc s t = Some (op # ops)"
  shows "boot_inv (exec op (s\<lparr>thread_pc := (thread_pc s)(t \<mapsto> ops)\<rparr>))" (is "boot_inv ?s'")
proof -
  note g = run_grows[OF assms]
  have pc: "thread_pc ?s' v = (if op = Start v then Some (prologue v) else if v = t then Some ops else thread_pc s v)" for v
    by (simp add: exec_pc)
  have "traced ?s' t ops"
    using exec_effects(2) by (intro traced_next[OF boot_invD(2)[OF assms] g]) (auto simp: pc)
  then have tr: "traced ?s' v rest" if "thread_pc ?s' v = Some rest" for v rest
    using that traced_new[of ?s' v] traced_grows[OF boot_invD(2)[OF assms(1)] g, of v rest]
    by (auto simp: pc split: if_splits)
  have "thread_pc ?s' w = None" if r: "thread_pc ?s' Main = Some rest" "Start w \<in> set rest" for rest w
  proof -
    have m: "op \<noteq> Start Main" using boot_inv_start(3)[OF assms(1)] assms(2) by blast
    obtain r0 where r0: "thread_pc s Main = Some r0" "Start w \<in> set r0" "t = Main \<longrightarrow> r0 = op # ops"
      using r m assms(2) by (auto simp: pc split: if_splits)
    then have n: "thread_pc s w = None" using boot_invD(3)[OF assms(1)] by blast
    moreover have "op \<noteq> Start w"
    proof
      assume o: "op = Start w"
      note st = boot_inv_start[OF assms(1) assms(2)[unfolded o]]
      then have "thread_pc ?s' Main = Some ops" using st(1) m by (simp add: exec_pc)
      then show False using r st(4) by simp
    qed
    ultimately show ?thesis using assms(2) by (auto simp: pc)
  qed
  then show ?thesis using tr g boot_invD(1)[OF assms(1)] by (simp add: boot_inv_def grows_def)
qed

lemma wake_or: "wake n r = r \<or> (\<exists>m ops. r = Some (Topic_wait m # ops) \<and> wake n r = Some ops)"
  by (cases "(n, r)" rule: wake.cases) auto

lemma wake_cases:
  obtains (same) "wake n r = r" | (woken) m ops where "r = Some (Topic_wait m # ops)" "wake n r = Some ops"
  using wake_or[of n r] by blast

lemma wake_simps [simp]: "wake n r = None \<longleftrightarrow> r = None" "wake n (Some []) = Some []"
  by (cases "(n, r)" rule: wake.cases; simp)+

lemma publish_grows: "grows s (s\<lparr>thread_pc := wake n \<circ> thread_pc s\<rparr>)"
  by (auto simp: grows_def)

lemma boot_inv_publish:
  assumes "boot_inv s"
  shows "boot_inv (s\<lparr>thread_pc := wake n \<circ> thread_pc s\<rparr>)" (is "boot_inv ?s'")
proof -
  have "traced ?s' t rest" if "thread_pc ?s' t = Some rest" for t rest
  proof (cases rule: wake_cases[of n "thread_pc s t"])
    case same
    then show ?thesis using that traced_grows[OF boot_invD(2)[OF assms] publish_grows] by simp
  next
    case (woken m ops)
    then show ?thesis using that traced_next[OF boot_invD(2)[OF assms woken(1)] publish_grows] by simp
  qed
  moreover have "thread_pc s u = None" if r: "wake n (thread_pc s Main) = Some rest" "Start u \<in> set rest" for rest u
  proof (cases rule: wake_cases[of n "thread_pc s Main"])
    case same
    then show ?thesis using r boot_invD(3)[OF assms, of rest u] by simp
  next
    case (woken m ops)
    then show ?thesis using r boot_invD(3)[OF assms woken(1), of u] by simp
  qed
  ultimately show ?thesis using boot_invD(1)[OF assms] by (simp add: boot_inv_def)
qed

lemma boot_inv_step: "boot_step s s' \<Longrightarrow> boot_inv s \<Longrightarrow> boot_inv s' \<and> grows s s'"
proof (induction rule: boot_step.induct)
  case (run s t op ops)
  then show ?case using boot_inv_run run_grows by blast
next
  case (publish s t n)
  then show ?case using boot_inv_publish publish_grows by blast
qed

lemma grows_refl [simp]: "grows s s"
  by (simp add: grows_def)

lemma grows_trans: "grows a b \<Longrightarrow> grows b c \<Longrightarrow> grows a c"
  unfolding grows_def by (meson order_trans)

lemma boot_inv_steps: "boot_step\<^sup>*\<^sup>* s s' \<Longrightarrow> boot_inv s \<Longrightarrow> boot_inv s' \<and> grows s s'"
  by (induction rule: rtranclp_induct) (auto dest: boot_inv_step intro: grows_trans)

subsection \<open>No wait blocks for good\<close>

fun op_ok :: "string list \<Rightarrow> string list \<Rightarrow> boot_op \<Rightarrow> bool" where
  "op_ok av pb (Find_blocking n) = (n \<in> set av)"
| "op_ok av pb (Topic_wait n) = (n \<in> set pb)"
| "op_ok av pb _ = True"

definition publishing :: "boot \<Rightarrow> string list \<Rightarrow> bool" where
  "publishing s pb \<longleftrightarrow> (\<forall>n \<in> set pb. \<exists>t. thread_pc s t = Some [] \<and> n \<in> set (loop_topics False t))"

lemma publishing_grows: "publishing s pb \<Longrightarrow> grows s s' \<Longrightarrow> publishing s' pb"
  unfolding publishing_def grows_def by blast

lemma loop_topics_mono: "n \<in> set (loop_topics False t) \<Longrightarrow> n \<in> set (loop_topics r t)"
  by (cases t) auto

lemma progress:
  assumes "boot_inv s" "thread_pc s t = Some (op # ops)" "op_ok av pb op" "set av \<subseteq> topics s" "publishing s pb"
  shows "\<exists>s'. boot_step s s' \<and> thread_pc s' t = Some ops"
proof (cases "\<exists>n. op = Topic_wait n")
  case True
  then obtain n u where u: "op = Topic_wait n" "thread_pc s u = Some []" "n \<in> set (loop_topics False u)"
    using assms(3,5) by (force simp: publishing_def)
  show ?thesis using boot_step.publish[OF u(2) loop_topics_mono[OF u(3)]] assms(2) u(1) by force
next
  case False
  have "op \<noteq> Start t" using boot_inv_start(1,3)[OF assms(1)] assms(2) by blast
  then have "thread_pc (exec op (s\<lparr>thread_pc := (thread_pc s)(t \<mapsto> ops)\<rparr>)) t = Some ops" by (simp add: exec_pc)
  moreover have "ready s op" using False assms(3,4) by (cases op) auto
  ultimately show ?thesis using boot_step.run[OF assms(2)] by blast
qed

lemma finish_thread:
  assumes "boot_inv s" "thread_pc s t = Some rest" "list_all (op_ok av pb) rest" "set av \<subseteq> topics s" "publishing s pb"
  shows "\<exists>s'. boot_step\<^sup>*\<^sup>* s s' \<and> thread_pc s' t = Some []"
  using assms
proof (induction rest arbitrary: s)
  case (Cons op ops)
  obtain s1 where s1: "boot_step s s1" "thread_pc s1 t = Some ops"
    using progress[OF Cons.prems(1,2) _ Cons.prems(4,5)] Cons.prems(3) by auto
  have g: "boot_inv s1" "grows s s1" using boot_inv_step[OF s1(1) Cons.prems(1)] by auto
  have "list_all (op_ok av pb) ops" "set av \<subseteq> topics s1" "publishing s1 pb"
    using Cons.prems g(2) publishing_grows by (auto simp: grows_def)
  from Cons.IH[OF g(1) s1(2) this] s1(1) show ?case by (meson converse_rtranclp_into_rtranclp)
qed auto

definition adverts :: "boot_op list \<Rightarrow> string list" where
  "adverts ops = concat (map (\<lambda>op. case op of Advertise n \<Rightarrow> [n] | _ \<Rightarrow> []) ops)"

lemma set_adverts: "n \<in> set (adverts ops) \<longleftrightarrow> Advertise n \<in> set ops"
  by (auto simp: adverts_def split: boot_op.splits)

text \<open>An order in which the threads can finish their prologues one after the other.\<close>

fun order_ok :: "robot_thread list \<Rightarrow> string list \<Rightarrow> string list \<Rightarrow> bool" where
  "order_ok [] av pb = True"
| "order_ok (t # ts) av pb =
     (list_all (op_ok av pb) (prologue t) \<and> order_ok ts (adverts (prologue t) @ av) (loop_topics False t @ pb))"

lemma traced_suffix: "traced s t rest \<Longrightarrow> list_all P (prologue t) \<Longrightarrow> list_all P rest"
  by (auto simp: traced_def)

lemma traced_done: "traced s t [] \<Longrightarrow> set (adverts (prologue t)) \<subseteq> topics s"
  by (auto simp: traced_def set_adverts)

lemma finish_all:
  assumes "boot_inv s" "\<forall>t \<in> set ts. thread_pc s t \<noteq> None" "set av \<subseteq> topics s" "publishing s pb" "order_ok ts av pb"
  shows "\<exists>s'. boot_step\<^sup>*\<^sup>* s s' \<and> (\<forall>t \<in> set ts. thread_pc s' t = Some [])"
  using assms
proof (induction ts arbitrary: s av pb)
  case (Cons t ts)
  obtain rest where rest: "thread_pc s t = Some rest" using Cons.prems(2) by auto
  have "list_all (op_ok av pb) rest"
    using traced_suffix[OF boot_invD(2)[OF Cons.prems(1) rest]] Cons.prems(5) by simp
  then obtain s2 where s2: "boot_step\<^sup>*\<^sup>* s s2" "thread_pc s2 t = Some []"
    using finish_thread[OF Cons.prems(1) rest _ Cons.prems(3,4)] by blast
  have i: "boot_inv s2" "grows s s2" using boot_inv_steps[OF s2(1) Cons.prems(1)] by auto
  have av: "set (adverts (prologue t) @ av) \<subseteq> topics s2"
    using traced_done[OF boot_invD(2)[OF i(1) s2(2)]] i(2) Cons.prems(3) by (auto simp: grows_def)
  have pb: "publishing s2 (loop_topics False t @ pb)"
    using s2(2) publishing_grows[OF Cons.prems(4) i(2)] by (auto simp: publishing_def)
  have "\<forall>u \<in> set ts. thread_pc s2 u \<noteq> None" using i(2) Cons.prems(2) by (auto simp: grows_def)
  from Cons.IH[OF i(1) this av pb] Cons.prems(5)
  obtain s3 where s3: "boot_step\<^sup>*\<^sup>* s2 s3" "\<forall>u \<in> set ts. thread_pc s3 u = Some []" by auto
  then have "thread_pc s3 t = Some []" using boot_inv_steps[OF s3(1) i(1)] s2(2) by (auto simp: grows_def)
  then show ?case using s2(1) s3 by (intro exI[of _ s3]) auto
qed auto

definition boot_order :: "robot_thread list" where
  "boot_order = [Battery, Encoders, Motor_current, Range_reader, Proximity, Imu_reader, Body_led, Audio, Battery_protection,
     Motor_pid, Aseba_range, Aseba_proximity, Aseba_encoders, Aseba_imu, Aseba_audio, Blinker, Shell_spawn, Can_rx, Aseba_vm, Main]"

lemma boot_order_ok: "order_ok boot_order [] []" "t \<in> set boot_order"
  by (code_simp, cases t) (simp_all add: boot_order_def)



lemma booted_topics:
  assumes "boot_inv s" "booted s"
  shows "set (adverts (prologue t)) \<subseteq> topics s"
  using traced_done[OF boot_invD(2)[OF assms(1)]] assms(2) by (simp add: booted_def)

lemma declared_topics_advertised: "\<forall>n \<in> fst ` set topic_decls. \<exists>t. n \<in> set (adverts (prologue t))"
proof -
  have "fst ` set topic_decls \<subseteq> set (concat (map (\<lambda>t. adverts (prologue t)) boot_order))"
    by code_simp
  then show ?thesis by auto
qed

lemma main_finishes:
  assumes "boot_inv s"
  shows "\<exists>s'. boot_step\<^sup>*\<^sup>* s s' \<and> (\<forall>t. thread_pc s' t \<noteq> None)"
proof -
  obtain rest where rest: "thread_pc s Main = Some rest" using boot_invD(1)[OF assms] by auto
  have "list_all (op_ok [] []) (prologue Main)" by (simp add: main_start_def aseba_variables_start_def)
  then have "list_all (op_ok [] []) rest" by (rule traced_suffix[OF boot_invD(2)[OF assms rest]])
  then obtain s' where s': "boot_step\<^sup>*\<^sup>* s s'" "thread_pc s' Main = Some []"
    using finish_thread[OF assms rest, of "[]" "[]"] by (auto simp: publishing_def)
  have i: "boot_inv s'" using boot_inv_steps[OF s'(1) assms] by simp
  have "thread_pc s' t \<noteq> None" for t
    using boot_invD(2)[OF i s'(2)] main_starts(3)[of t] s'(2) by (cases "t = Main") (auto simp: traced_def)
  then show ?thesis using s'(1) by blast
qed

lemma boots_completely:
  assumes "boot_inv s"
  shows "\<exists>s'. boot_step\<^sup>*\<^sup>* s s' \<and> booted s'"
proof -
  obtain s1 where s1: "boot_step\<^sup>*\<^sup>* s s1" "\<forall>t. thread_pc s1 t \<noteq> None" using main_finishes[OF assms] by blast
  have i1: "boot_inv s1" using boot_inv_steps[OF s1(1) assms] by simp
  obtain s2 where s2: "boot_step\<^sup>*\<^sup>* s1 s2" "\<forall>t \<in> set boot_order. thread_pc s2 t = Some []"
    using finish_all[OF i1, of boot_order "[]" "[]"] s1(2) boot_order_ok(1) by (auto simp: publishing_def)
  then have "booted s2" using boot_order_ok(2) by (simp add: booted_def)
  then show ?thesis using s1(1) s2(1) by (meson rtranclp_trans)
qed

text \<open>
  A schedule as a list: \<open>Inl t\<close> runs the next operation of a thread, \<open>Inr (t, n)\<close> lets a thread in its
  loop publish. One schedule loses the registration of the inertial unit: \<open>imu_start\<close> precedes \<open>exti_start\<close> in
  \<open>main\<close>, and \<open>chEvtObjectInit\<close> drops a listener that is there already. It loses the settings too:
  only the sleep of 100 ms orders the defaults of the motor thread before the load.
\<close>

fun schedule :: "(robot_thread + robot_thread \<times> string) list \<Rightarrow> boot \<Rightarrow> boot option" where
  "schedule [] s = Some s"
| "schedule (Inl t # sc) s =
     (case thread_pc s t of
        Some (op # ops) \<Rightarrow> if ready s op then schedule sc (exec op (s\<lparr>thread_pc := (thread_pc s)(t \<mapsto> ops)\<rparr>)) else None
      | _ \<Rightarrow> None)"
| "schedule (Inr (t, n) # sc) s =
     (if thread_pc s t = Some [] \<and> n \<in> set (loop_topics (imu_registered s) t)
      then schedule sc (s\<lparr>thread_pc := wake n \<circ> thread_pc s\<rparr>) else None)"

lemma schedule_steps: "schedule sc s = Some s' \<Longrightarrow> boot_step\<^sup>*\<^sup>* s s'"
proof (induction sc s rule: schedule.induct)
  case (2 t sc s)
  then obtain op ops where o: "thread_pc s t = Some (op # ops)" "ready s op"
    by (auto split: option.splits list.splits if_splits)
  show ?case using 2 o by (auto intro: converse_rtranclp_into_rtranclp[of boot_step, OF boot_step.run[OF o]])
next
  case (3 t n sc s)
  then have p: "thread_pc s t = Some []" "n \<in> set (loop_topics (imu_registered s) t)"
    by (auto split: if_splits)
  show ?case using 3 p by (auto intro: converse_rtranclp_into_rtranclp[of boot_step, OF boot_step.publish[OF p]])
qed simp

definition unlucky :: "(robot_thread + robot_thread \<times> string) list" where
  "unlucky = replicate 18 (Inl Main) @ replicate 2 (Inl Imu_reader) @ replicate (length main_start - 18) (Inl Main)
     @ replicate 5 (Inl Motor_pid)"

definition stays_lost :: "boot_op \<Rightarrow> bool" where
  "stays_lost op \<longleftrightarrow> op \<noteq> Exti_register \<and> op \<noteq> Config_load \<and> (\<forall>u. op \<noteq> Start u)"

lemma stays_lost_code [code]:
  "stays_lost op = (case op of Exti_register \<Rightarrow> False | Config_load \<Rightarrow> False | Start u \<Rightarrow> False | _ \<Rightarrow> True)"
  by (cases op) (simp_all add: stays_lost_def)

definition lost :: "boot \<Rightarrow> bool" where
  "lost s \<longleftrightarrow> \<not> imu_registered s \<and> \<not> settings_in_force s
     \<and> (\<forall>t. \<exists>rest. thread_pc s t = Some rest \<and> list_all stays_lost rest)"

lemma lost_step: "boot_step s s' \<Longrightarrow> lost s \<Longrightarrow> lost s'"
proof (induction rule: boot_step.induct)
  case (run s t op ops)
  have o: "stays_lost op" "list_all stays_lost ops" using run.hyps(1) run.prems by (auto simp: lost_def dest: spec[of _ t])
  have "lost (s\<lparr>thread_pc := (thread_pc s)(t \<mapsto> ops)\<rparr>)" using run.prems o(2) by (simp add: lost_def)
  then show ?case using o(1) by (cases op) (auto simp: stays_lost_def lost_def)
next
  case (publish s t n)
  have "\<exists>rest. wake n (thread_pc s u) = Some rest \<and> list_all stays_lost rest" for u
    using publish.prems wake_or[of n "thread_pc s u"] by (auto simp: lost_def dest: spec[of _ u])
  then show ?case using publish.prems by (simp add: lost_def)
qed

lemma lost_steps: "boot_step\<^sup>*\<^sup>* s s' \<Longrightarrow> lost s \<Longrightarrow> lost s'"
  by (induction rule: rtranclp_induct) (auto intro: lost_step)

lemma unlucky_boot: "\<exists>s. boot_step\<^sup>*\<^sup>* power_up s \<and> booted s \<and> \<not> imu_registered s \<and> \<not> settings_in_force s"
proof -
  have "(case schedule unlucky power_up of None \<Rightarrow> False
     | Some s \<Rightarrow> \<not> imu_registered s \<and> \<not> settings_in_force s
         \<and> list_all (\<lambda>t. case thread_pc s t of None \<Rightarrow> False | Some rest \<Rightarrow> list_all stays_lost rest) boot_order)"
    by code_simp
  then obtain s where s: "schedule unlucky power_up = Some s" "\<not> imu_registered s" "\<not> settings_in_force s"
    "\<forall>t. case thread_pc s t of None \<Rightarrow> False | Some rest \<Rightarrow> list_all stays_lost rest"
    using boot_order_ok(2) by (auto simp: list_all_iff split: option.splits)
  have "lost s" unfolding lost_def using s(2-4) by (auto split: option.splits)
  moreover obtain s' where "boot_step\<^sup>*\<^sup>* s s'" "booted s'"
    using boots_completely[OF boot_inv_steps[THEN conjunct1, OF schedule_steps[OF s(1)] boot_inv_power_up]] by blast
  ultimately show ?thesis using lost_steps schedule_steps[OF s(1)] by (meson lost_def rtranclp_trans)
qed

text \<open>C33. The start-up never deadlocks: in whatever order the threads have run their prologues so far (each
advertises its topics and waits for those of others, and is created by main), the waits can all be satisfied,
so every reachable state can be continued to one in which all twenty threads are in their loops, and whenever they
all are, every topic of the firmware has been advertised.\<close>
theorem start_up_completes:
  assumes "boot_step\<^sup>*\<^sup>* power_up s"
  shows "(\<exists>s'. boot_step\<^sup>*\<^sup>* s s' \<and> booted s') \<and> (booted s \<longrightarrow> fst ` set topic_decls \<subseteq> topics s)"
proof -
  have i: "boot_inv s" using boot_inv_steps[OF assms boot_inv_power_up] by simp
  have "\<exists>s'. boot_step\<^sup>*\<^sup>* s s' \<and> booted s'" by (rule boots_completely[OF i])
  moreover have "fst ` set topic_decls \<subseteq> topics s" if "booted s"
    using declared_topics_advertised booted_topics[OF i that] by blast
  ultimately show ?thesis by blast
qed

theorem start_up_completes_witness:
  "\<exists>s. booted s \<and> fst ` set topic_decls \<subseteq> topics s \<and> boot_step\<^sup>*\<^sup>* power_up s"
  using start_up_completes[of power_up] start_up_completes by (meson rtranclp.rtrancl_refl)

end
