(* ===== verification/Fat_Table.thy ===== *)
theory Fat_Table
  imports Storage
begin

section \<open>The FAT of a volume (\<open>fatfs/src/ff.c\<close>: disk window and table entries)\<close>

text \<open>
  FatFs keeps one sector of the disk in the window of the file system object and writes it back before it
  loads another. On top of the window it reads and writes the entries of the file allocation table, which are 12, 16
  or 28 bits wide. The state is the object \<open>FATFS\<close> and the disk of \<open>Storage\<close>; the configuration is that of
  \<open>ffconf.h\<close> (sectors of 512 bytes, one volume, read and write, neither long names nor re-entrance). What
  a failed read leaves in its buffer is a parameter (\<open>torn\<close>). The abstraction \<open>fat_byte\<close> is the first copy of the table
  as seen through the window, \<open>fat_entry\<close> and \<open>fat_store\<close> are the layout of its entries.
\<close>

datatype fresult = FR_OK | FR_DISK_ERR | FR_INT_ERR | FR_NOT_READY | FR_NO_FILE | FR_NO_PATH | FR_INVALID_NAME
  | FR_DENIED | FR_EXIST | FR_INVALID_OBJECT | FR_WRITE_PROTECTED | FR_INVALID_DRIVE | FR_NOT_ENABLED
  | FR_NO_FILESYSTEM | FR_MKFS_ABORTED | FR_TIMEOUT | FR_LOCKED | FR_NOT_ENOUGH_CORE | FR_TOO_MANY_OPEN_FILES
  | FR_INVALID_PARAMETER

text \<open>\<open>wflag\<close> is a flag of one bit; the lock and the current directory are configured away.\<close>

record fatfs =
  fs_type :: u8
  drv :: u8
  csize :: u8
  n_fats :: u8
  wflag :: bool
  fsi_flag :: u8
  fs_id :: u16
  n_rootdir :: u16
  last_clust :: u32
  free_clust :: u32
  n_fatent :: u32
  fsize :: u32
  volbase :: u32
  fatbase :: u32
  dirbase :: u32
  database :: u32
  winsect :: u32
  win :: "u8 list"

record 'h fat_env =
  sd :: "'h sdc_driver"
  torn :: "u32 \<Rightarrow> 'h disk_state \<Rightarrow> u8 list"

type_synonym 'h vol = "fatfs \<times> 'h disk_state"

definition FS_FAT12 :: u8 where "FS_FAT12 = 1"
definition FS_FAT16 :: u8 where "FS_FAT16 = 2"
definition FS_FAT32 :: u8 where "FS_FAT32 = 3"
definition SS :: u32 where "SS = 512"

subsection \<open>The window\<close>

text \<open>\<open>reflect nf\<close>: the loop over the copies of the table; the results of its writes are not looked at.\<close>

fun reflect :: "'h fat_env \<Rightarrow> fatfs \<Rightarrow> u32 \<Rightarrow> nat \<Rightarrow> 'h disk_state \<Rightarrow> 'h disk_state" where
  "reflect E fs wsect 0 d = d"
| "reflect E fs wsect (Suc nf) d =
     (if Suc nf \<ge> 2
      then let wsect = wsect + fsize fs in reflect E fs wsect nf (snd (disk_write (sd E) (drv fs) (win fs) wsect 1 d))
      else d)"

definition sync_window :: "'h fat_env \<Rightarrow> 'h vol \<Rightarrow> fresult \<times> 'h vol" where
  "sync_window E = (\<lambda>(fs, d).
     if wflag fs then
       let wsect = winsect fs; (r, d) = disk_write (sd E) (drv fs) (win fs) wsect 1 d
       in if r \<noteq> RES_OK then (FR_DISK_ERR, (fs, d))
          else let fs = fs\<lparr>wflag := False\<rparr>
               in if wsect - fatbase fs < fsize fs then (FR_OK, (fs, reflect E fs wsect (unat (n_fats fs)) d))
                  else (FR_OK, (fs, d))
     else (FR_OK, (fs, d)))"

definition move_window :: "'h fat_env \<Rightarrow> u32 \<Rightarrow> 'h vol \<Rightarrow> fresult \<times> 'h vol" where
  "move_window E sector v =
     (if sector \<noteq> winsect (fst v) then
        let (r, (fs, d)) = sync_window E v
        in if r \<noteq> FR_OK then (FR_DISK_ERR, (fs, d))
           else case disk_read (sd E) (drv fs) sector 1 d of
                  (RES_OK, Some data, d) \<Rightarrow> (FR_OK, (fs\<lparr>win := data, winsect := sector\<rparr>, d))
                | (_, _, d) \<Rightarrow> (FR_DISK_ERR, (fs\<lparr>win := torn E sector d\<rparr>, d))
      else (FR_OK, v))"

subsection \<open>Entries of the table\<close>

definition clust2sect :: "fatfs \<Rightarrow> u32 \<Rightarrow> u32" where
  "clust2sect fs clst = (let clst = clst - 2 in if clst \<ge> n_fatent fs - 2 then 0 else clst * ucast (csize fs) + database fs)"

definition win_word :: "fatfs \<Rightarrow> u32 \<Rightarrow> u16" where
  "win_word fs i = le_word16 (take 2 (drop (unat i) (win fs)))"

definition win_dword :: "fatfs \<Rightarrow> u32 \<Rightarrow> u32" where
  "win_dword fs i = le_word32 (take 4 (drop (unat i) (win fs)))"

definition put_win :: "u32 \<Rightarrow> u8 list \<Rightarrow> fatfs \<Rightarrow> fatfs" where
  "put_win i bs fs = fs\<lparr>win := take (unat i) (win fs) @ bs @ drop (unat i + length bs) (win fs)\<rparr>"

definition get_fat :: "'h fat_env \<Rightarrow> u32 \<Rightarrow> 'h vol \<Rightarrow> u32 \<times> 'h vol" where
  "get_fat E clst v =
     (if clst < 2 \<or> clst \<ge> n_fatent (fst v) then (1, v)
      else if fs_type (fst v) = FS_FAT12 then
        let bc = clst + clst div 2; (r, v) = move_window E (fatbase (fst v) + bc div SS) v
        in if r \<noteq> FR_OK then (0xFFFFFFFF, v)
        else let wc = ucast (win (fst v) ! unat (bc mod SS)) :: u32; bc = bc + 1;
                 (r, v) = move_window E (fatbase (fst v) + bc div SS) v
        in if r \<noteq> FR_OK then (0xFFFFFFFF, v)
        else let wc = wc OR push_bit 8 (ucast (win (fst v) ! unat (bc mod SS)))
        in (if clst AND 1 \<noteq> 0 then drop_bit 4 wc else wc AND 0xFFF, v)
      else if fs_type (fst v) = FS_FAT16 then
        let (r, v) = move_window E (fatbase (fst v) + clst div (SS div 2)) v
        in if r \<noteq> FR_OK then (0xFFFFFFFF, v) else (ucast (win_word (fst v) (clst * 2 mod SS)), v)
      else if fs_type (fst v) = FS_FAT32 then
        let (r, v) = move_window E (fatbase (fst v) + clst div (SS div 4)) v
        in if r \<noteq> FR_OK then (0xFFFFFFFF, v) else (win_dword (fst v) (clst * 4 mod SS) AND 0x0FFFFFFF, v)
      else (1, v))"

definition mark_dirty :: "'h vol \<Rightarrow> 'h vol" where
  "mark_dirty v = ((fst v)\<lparr>wflag := True\<rparr>, snd v)"

text \<open>\<open>wflag\<close> is set at the end whatever happened before.\<close>

definition put_fat :: "'h fat_env \<Rightarrow> u32 \<Rightarrow> u32 \<Rightarrow> 'h vol \<Rightarrow> fresult \<times> 'h vol" where
  "put_fat E clst val v =
     (if clst < 2 \<or> clst \<ge> n_fatent (fst v) then (FR_INT_ERR, v)
      else if fs_type (fst v) = FS_FAT12 then
        let bc = clst + clst div 2; (r, v) = move_window E (fatbase (fst v) + bc div SS) v
        in if r \<noteq> FR_OK then (r, mark_dirty v)
        else let p = win (fst v) ! unat (bc mod SS);
                 b = (if clst AND 1 \<noteq> 0 then (p AND 0x0F) OR push_bit 4 (ucast val) else ucast val);
                 v = mark_dirty (put_win (bc mod SS) [b] (fst v), snd v); bc = bc + 1;
                 (r, v) = move_window E (fatbase (fst v) + bc div SS) v
        in if r \<noteq> FR_OK then (r, mark_dirty v)
        else let p = win (fst v) ! unat (bc mod SS);
                 b = (if clst AND 1 \<noteq> 0 then ucast (drop_bit 4 val) else (p AND 0xF0) OR (ucast (drop_bit 8 val) AND 0x0F))
        in (FR_OK, mark_dirty (put_win (bc mod SS) [b] (fst v), snd v))
      else if fs_type (fst v) = FS_FAT16 then
        let (r, v) = move_window E (fatbase (fst v) + clst div (SS div 2)) v
        in if r \<noteq> FR_OK then (r, mark_dirty v)
        else (FR_OK, mark_dirty (put_win (clst * 2 mod SS) (le_bytes16 (ucast val)) (fst v), snd v))
      else if fs_type (fst v) = FS_FAT32 then
        let (r, v) = move_window E (fatbase (fst v) + clst div (SS div 4)) v
        in if r \<noteq> FR_OK then (r, mark_dirty v)
        else let val = val OR (win_dword (fst v) (clst * 4 mod SS) AND 0xF0000000)
        in (FR_OK, mark_dirty (put_win (clst * 4 mod SS) (le_bytes32 val) (fst v), snd v))
      else (FR_INT_ERR, mark_dirty v))"

subsection \<open>The layout of the table\<close>

definition entry_pos :: "u8 \<Rightarrow> nat \<Rightarrow> nat" where
  "entry_pos t c = (if t = FS_FAT12 then c + c div 2 else if t = FS_FAT16 then 2 * c else 4 * c)"

definition entry_len :: "u8 \<Rightarrow> nat" where
  "entry_len t = (if t = FS_FAT32 then 4 else 2)"

definition entry_mask :: "u8 \<Rightarrow> u32" where
  "entry_mask t = (if t = FS_FAT12 then 0xFFF else if t = FS_FAT16 then 0xFFFF else 0x0FFFFFFF)"

definition fat_entry :: "u8 \<Rightarrow> (nat \<Rightarrow> u8) \<Rightarrow> nat \<Rightarrow> u32" where
  "fat_entry t b c =
     (let p = entry_pos t c in
      if t = FS_FAT12 then
        let w = ucast (b p) OR push_bit 8 (ucast (b (p + 1))) in if odd c then drop_bit 4 w else w AND 0xFFF
      else if t = FS_FAT16 then ucast (le_word16 [b p, b (p + 1)])
      else le_word32 [b p, b (p + 1), b (p + 2), b (p + 3)] AND 0x0FFFFFFF)"

definition fat_store :: "u8 \<Rightarrow> nat \<Rightarrow> u32 \<Rightarrow> (nat \<Rightarrow> u8) \<Rightarrow> nat \<Rightarrow> u8" where
  "fat_store t c val b =
     (let p = entry_pos t c in
      if t = FS_FAT12 then
        b(p := if odd c then (b p AND 0x0F) OR push_bit 4 (ucast val) else ucast val,
          p + 1 := if odd c then ucast (drop_bit 4 val) else (b (p + 1) AND 0xF0) OR (ucast (drop_bit 8 val) AND 0x0F))
      else if t = FS_FAT16 then b(p := ucast val, p + 1 := ucast (drop_bit 8 val))
      else b(p := ucast val, p + 1 := ucast (drop_bit 8 val), p + 2 := ucast (drop_bit 16 val),
             p + 3 := ucast (drop_bit 24 val) OR (b (p + 3) AND 0xF0)))"

definition fat_type :: "u8 \<Rightarrow> bool" where
  "fat_type t \<longleftrightarrow> t = FS_FAT12 \<or> t = FS_FAT16 \<or> t = FS_FAT32"

lemmas fs_types = FS_FAT12_def FS_FAT16_def FS_FAT32_def

text \<open>Entries are disjoint, although those of 12 bits share a byte.\<close>

lemma fat_mask_bits:
  fixes n :: nat
  shows "bit (15 :: int) n \<longleftrightarrow> n < 4" "bit (240 :: int) n \<longleftrightarrow> 4 \<le> n \<and> n < 8"
    "bit (4095 :: int) n \<longleftrightarrow> n < 12" "bit (65535 :: int) n \<longleftrightarrow> n < 16"
    "bit (268435455 :: int) n \<longleftrightarrow> n < 28" "bit (4026531840 :: int) n \<longleftrightarrow> 28 \<le> n \<and> n < 32"
    "bit (61440 :: int) n \<longleftrightarrow> 12 \<le> n \<and> n < 16" "bit (15728640 :: int) n \<longleftrightarrow> 20 \<le> n \<and> n < 24"
proof -
  have m: "(15 :: int) = mask 4" "(240 :: int) = push_bit 4 (mask 4)" "(4095 :: int) = mask 12" "(65535 :: int) = mask 16"
    "(268435455 :: int) = mask 28" "(4026531840 :: int) = push_bit 28 (mask 4)" "(61440 :: int) = push_bit 12 (mask 4)" "(15728640 :: int) = push_bit 20 (mask 4)"
    by (simp_all add: mask_eq_exp_minus_1 push_bit_eq_mult)
  show "bit (15 :: int) n \<longleftrightarrow> n < 4" "bit (240 :: int) n \<longleftrightarrow> 4 \<le> n \<and> n < 8"
    "bit (4095 :: int) n \<longleftrightarrow> n < 12" "bit (65535 :: int) n \<longleftrightarrow> n < 16"
    "bit (268435455 :: int) n \<longleftrightarrow> n < 28" "bit (4026531840 :: int) n \<longleftrightarrow> 28 \<le> n \<and> n < 32"
    "bit (61440 :: int) n \<longleftrightarrow> 12 \<le> n \<and> n < 16" "bit (15728640 :: int) n \<longleftrightarrow> 20 \<le> n \<and> n < 24"
    unfolding m bit_mask_iff bit_push_bit_iff by auto
qed

lemmas fat_bits = bit_simps fat_mask_bits

lemma entry32_same: "fat_entry FS_FAT32 (fat_store FS_FAT32 c val b) c = val AND 0x0FFFFFFF"
proof (rule bit_word_eqI)
  fix n :: nat
  assume "n < LENGTH(32)"
  then consider "n < 8" | "8 \<le> n" "n < 16" | "16 \<le> n" "n < 24" | "24 \<le> n" "n < 32" by fastforce
  then show "bit (fat_entry FS_FAT32 (fat_store FS_FAT32 c val b) c) n \<longleftrightarrow> bit (val AND 0x0FFFFFFF) n"
    by cases (auto simp: fat_entry_def fat_store_def Let_def fs_types fat_bits)
qed

lemma entry_same:
  assumes "fat_type t" shows "fat_entry t (fat_store t c val b) c = val AND entry_mask t"
proof -
  consider "t = FS_FAT12" "odd c" | "t = FS_FAT12" "even c" | "t = FS_FAT16" | "t = FS_FAT32"
    using assms by (auto simp: fat_type_def)
  then show ?thesis
  proof cases
    case 4
    then show ?thesis by (simp only: entry32_same) (simp add: entry_mask_def fs_types)
  qed (simp_all add: fat_entry_def fat_store_def Let_def entry_mask_def fs_types, (rule bit_word_eqI, auto simp: fat_bits)+)
qed

lemma pos12: "entry_pos FS_FAT12 (2 * k) = 3 * k" "entry_pos FS_FAT12 (Suc (2 * k)) = 3 * k + 1"
  by (simp_all add: entry_pos_def)

lemma entry12_other:
  assumes "c' \<noteq> c" shows "fat_entry FS_FAT12 (fat_store FS_FAT12 c val b) c' = fat_entry FS_FAT12 b c'"
proof -
  have ne: "(3 * x = Suc (3 * y)) = False" "(3 * x = Suc (Suc (3 * y))) = False" "(Suc (3 * x) = 3 * y) = False"
    "(Suc (Suc (3 * x)) = 3 * y) = False" for x y :: nat by presburger+
  obtain k k' where "c = 2 * k \<or> c = Suc (2 * k)" "c' = 2 * k' \<or> c' = Suc (2 * k')"
    by (metis evenE oddE Suc_eq_plus1)
  then consider "c = 2 * k" "c' = 2 * k'" | "c = 2 * k" "c' = Suc (2 * k')" | "c = Suc (2 * k)" "c' = 2 * k'"
    | "c = Suc (2 * k)" "c' = Suc (2 * k')" by blast
  then show ?thesis
  proof cases
    case 1
    then show ?thesis using assms by (simp add: fat_entry_def fat_store_def Let_def pos12 ne)
  next
    case 2
    then show ?thesis
      by (simp add: fat_entry_def fat_store_def Let_def pos12 ne, intro conjI impI)
        (rule bit_word_eqI, auto simp: fat_bits dest: bit_imp_le_length)
  next
    case 3
    then show ?thesis
      by (simp add: fat_entry_def fat_store_def Let_def pos12 ne, intro conjI impI)
        (rule bit_word_eqI, auto simp: fat_bits dest: bit_imp_le_length)
  next
    case 4
    then show ?thesis using assms by (simp add: fat_entry_def fat_store_def Let_def pos12 ne)
  qed
qed

lemma entry_other:
  assumes "fat_type t" "c' \<noteq> c" shows "fat_entry t (fat_store t c val b) c' = fat_entry t b c'"
proof -
  consider "t = FS_FAT12" | "t = FS_FAT16" | "t = FS_FAT32" using assms by (auto simp: fat_type_def)
  then show ?thesis
  proof cases
    case 1
    then show ?thesis using entry12_other[OF assms(2)] by simp
  next
    case 2
    have "Suc (2 * c') \<noteq> 2 * c" "Suc (2 * c) \<noteq> 2 * c'" by presburger+
    then show ?thesis using assms(2) 2 by (simp add: fat_entry_def fat_store_def Let_def entry_pos_def fs_types) 
  next
    case 3
    have "4 * c' \<noteq> 4 * c + 1" "4 * c' \<noteq> 4 * c + 2" "4 * c' \<noteq> 4 * c + 3" "4 * c' + 1 \<noteq> 4 * c"
      "4 * c' + 2 \<noteq> 4 * c" "4 * c' + 3 \<noteq> 4 * c" "4 * c' + 1 \<noteq> 4 * c + 2" "4 * c' + 1 \<noteq> 4 * c + 3"
      "4 * c' + 2 \<noteq> 4 * c + 1" "4 * c' + 2 \<noteq> 4 * c + 3" "4 * c' + 3 \<noteq> 4 * c + 1" "4 * c' + 3 \<noteq> 4 * c + 2"
      by presburger+
    then show ?thesis using 3 assms(2) by (simp add: fat_entry_def fat_store_def Let_def entry_pos_def fs_types) 
  qed
qed

subsection \<open>The volume behind the window\<close>

text \<open>
  \<open>mirror\<close> are the sectors of the further copies of the table, which are only written; \<open>geometry\<close> is what the
  mount code checks of a volume, \<open>same_volume\<close> that only the window differs.
\<close>

definition mirror :: "fatfs \<Rightarrow> nat \<Rightarrow> bool" where
  "mirror fs k \<longleftrightarrow> unat (fatbase fs) + unat (fsize fs) \<le> k \<and> k < unat (fatbase fs) + unat (n_fats fs) * unat (fsize fs)"

definition fat_bytes_used :: "u8 \<Rightarrow> nat \<Rightarrow> nat" where
  "fat_bytes_used t n = (if t = FS_FAT12 then n + n div 2 + n mod 2 else if t = FS_FAT16 then 2 * n else 4 * n)"

definition geometry :: "fatfs \<Rightarrow> bool" where
  "geometry fs \<longleftrightarrow> fat_type (fs_type fs) \<and> 1 \<le> unat (n_fats fs) \<and> 2 \<le> unat (n_fatent fs)
     \<and> n_fatent fs \<le> entry_mask (fs_type fs)
     \<and> fat_bytes_used (fs_type fs) (unat (n_fatent fs)) \<le> 512 * unat (fsize fs)
     \<and> unat (fatbase fs) + unat (n_fats fs) * unat (fsize fs) < 2 ^ 32"

definition same_volume :: "fatfs \<Rightarrow> fatfs \<Rightarrow> bool" where
  "same_volume fs fs' \<longleftrightarrow> (\<exists>f w s. fs' = fs\<lparr>wflag := f, winsect := s, win := w\<rparr>)"

lemma same_volumeD:
  assumes "same_volume fs fs'"
  shows "fs_type fs' = fs_type fs" "drv fs' = drv fs" "csize fs' = csize fs" "n_fats fs' = n_fats fs"
    "n_fatent fs' = n_fatent fs" "fsize fs' = fsize fs" "fatbase fs' = fatbase fs" "database fs' = database fs"
    "dirbase fs' = dirbase fs" "n_rootdir fs' = n_rootdir fs" "fs_id fs' = fs_id fs" "free_clust fs' = free_clust fs"
    "last_clust fs' = last_clust fs" "fsi_flag fs' = fsi_flag fs" "volbase fs' = volbase fs"
    "geometry fs' = geometry fs" "mirror fs' = mirror fs"
  using assms by (auto simp: same_volume_def geometry_def mirror_def)

lemma same_volume_refl [simp]: "same_volume fs fs"
  unfolding same_volume_def by (rule exI[of _ "wflag fs"], rule exI[of _ "win fs"], rule exI[of _ "winsect fs"]) simp

lemma same_volume_upd [simp]:
  "same_volume fs (fs\<lparr>wflag := f\<rparr>)" "same_volume fs (fs\<lparr>winsect := s\<rparr>)" "same_volume fs (fs\<lparr>win := w\<rparr>)"
  unfolding same_volume_def
  by (rule exI[of _ f], rule exI[of _ "win fs"], rule exI[of _ "winsect fs"], simp)
    (rule exI[of _ "wflag fs"], rule exI[of _ "win fs"], rule exI[of _ s], simp,
     rule exI[of _ "wflag fs"], rule exI[of _ w], rule exI[of _ "winsect fs"], simp)

lemma same_volume_trans: "same_volume a b \<Longrightarrow> same_volume b c \<Longrightarrow> same_volume a c"
  unfolding same_volume_def by force

lemma same_block:
  assumes "i mod 512 + j < (512 :: nat)"
  shows "(i + j) div 512 = i div 512" "(i + j) mod 512 = i mod 512 + j"
proof -
  have e: "i + j = (i mod 512 + j) + 512 * (i div 512)" by simp
  show "(i + j) div 512 = i div 512" unfolding e using assms by (simp only: div_mult_self2; simp)
  show "(i + j) mod 512 = i mod 512 + j" unfolding e using assms by (simp only: mod_mult_self2; simp)
qed

lemma block_order:
  assumes "j div 512 = i div (512 :: nat)"
  shows "i \<le> j \<longleftrightarrow> i mod 512 \<le> j mod 512" "j < i + n \<longleftrightarrow> j mod 512 < i mod 512 + n" "j - i = j mod 512 - i mod 512"
proof -
  have "i = 512 * (i div 512) + i mod 512" "j = 512 * (i div 512) + j mod 512" using assms by (metis mult_div_mod_eq)+
  then show "i \<le> j \<longleftrightarrow> i mod 512 \<le> j mod 512" "j < i + n \<longleftrightarrow> j mod 512 < i mod 512 + n" "j - i = j mod 512 - i mod 512"
    by linarith+
qed

lemma geometryD:
  assumes "geometry fs"
  shows "fat_type (fs_type fs)" "2 \<le> unat (n_fatent fs)" "unat (n_fatent fs) < 2 ^ 30"
    "fat_bytes_used (fs_type fs) (unat (n_fatent fs)) \<le> 512 * unat (fsize fs)"
    "unat (fatbase fs) + unat (fsize fs) \<le> unat (fatbase fs) + unat (n_fats fs) * unat (fsize fs)"
    "unat (fatbase fs) + unat (n_fats fs) * unat (fsize fs) < 2 ^ 32" "n_fatent fs \<le> entry_mask (fs_type fs)"
proof -
  have "1 * unat (fsize fs) \<le> unat (n_fats fs) * unat (fsize fs)"
    using assms by (intro mult_right_mono) (auto simp: geometry_def)
  then show "unat (fatbase fs) + unat (fsize fs) \<le> unat (fatbase fs) + unat (n_fats fs) * unat (fsize fs)" by linarith
  have "unat (n_fatent fs) \<le> unat (entry_mask (fs_type fs))" using assms by (simp add: geometry_def word_le_nat_alt)
  then show "unat (n_fatent fs) < 2 ^ 30" by (auto simp: entry_mask_def split: if_splits)
qed (use assms in \<open>auto simp: geometry_def\<close>)

lemma fat_sector:
  assumes "geometry fs" "i < 512 * unat (fsize fs)" "unat bc = i"
  shows "unat (fatbase fs + bc div SS) = unat (fatbase fs) + i div 512" "\<not> mirror fs (unat (fatbase fs) + i div 512)"
    "unat (bc mod SS) = i mod 512"
proof -
  have s: "i div 512 < unat (fsize fs)" using assms(2) by (simp add: less_mult_imp_div_less mult.commute)
  have d: "unat (bc div SS) = i div 512" using assms(3) by (simp add: SS_def unat_div)
  show "unat (fatbase fs + bc div SS) = unat (fatbase fs) + i div 512"
  proof -
    have "unat (fatbase fs) + i div 512 < 2 ^ 32" using s geometryD(5,6)[OF assms(1)] by linarith
    then show ?thesis by (simp add: unat_word_ariths(1) d)
  qed
  show "\<not> mirror fs (unat (fatbase fs) + i div 512)" using s by (simp add: mirror_def)
  show "unat (bc mod SS) = i mod 512" using assms(3) by (simp add: SS_def unat_mod)
qed

lemma entry_bytes:
  assumes "geometry fs" "2 \<le> clst" "clst < n_fatent fs"
  shows "entry_pos (fs_type fs) (unat clst) + entry_len (fs_type fs) \<le> 512 * unat (fsize fs)" "unat clst < 2 ^ 30"
    "2 \<le> unat clst" "unat clst < unat (n_fatent fs)"
proof -
  show c: "unat clst < unat (n_fatent fs)" "2 \<le> unat clst" using assms(2,3) by (simp_all add: word_less_nat_alt word_le_nat_alt)
  show "unat clst < 2 ^ 30" using c(1) geometryD(3)[OF assms(1)] by simp
  consider "fs_type fs = FS_FAT12" | "fs_type fs = FS_FAT16" | "fs_type fs = FS_FAT32"
    using geometryD(1)[OF assms(1)] by (auto simp: fat_type_def)
  then show "entry_pos (fs_type fs) (unat clst) + entry_len (fs_type fs) \<le> 512 * unat (fsize fs)"
  proof cases
    case 1
    have "unat clst + unat clst div 2 + 2 \<le> unat (n_fatent fs) + unat (n_fatent fs) div 2 + unat (n_fatent fs) mod 2"
    proof -
      have "(unat clst + 2) div 2 \<le> (unat (n_fatent fs) + 1) div 2" using c(1) by (intro div_le_mono) simp
      moreover have "(m + 1) div 2 = m div 2 + m mod 2" for m :: nat by presburger
      ultimately show ?thesis using c(1) by simp
    qed
    then show ?thesis using geometryD(4)[OF assms(1)] 1 by (simp add: entry_pos_def entry_len_def fat_bytes_used_def fs_types)
  qed (use geometryD(4)[OF assms(1)] c(1) in \<open>simp_all add: entry_pos_def entry_len_def fat_bytes_used_def fs_types\<close>)
qed

lemma unat_pos12: "unat (c :: u32) < 2 ^ 30 \<Longrightarrow> unat (c + c div 2) = unat c + unat c div 2"
  "unat c < 2 ^ 30 \<Longrightarrow> unat (c + c div 2 + 1) = unat c + unat c div 2 + 1"
  by (simp_all add: unat_word_ariths unat_div)

lemma odd_word: "(c :: u32) AND 1 \<noteq> 0 \<longleftrightarrow> odd (unat c)"
  by (simp add: and_one_eq word_unat_eq_iff unat_mod odd_iff_mod_2_eq_one)

lemma scaled:
  assumes "unat (c :: u32) < 2 ^ 30"
  shows "unat (c * 2) = 2 * unat c" "unat (c * 4) = 4 * unat c"
    "c div (SS div 2) = (c * 2) div SS" "c div (SS div 4) = (c * 4) div SS"
proof -
  show u: "unat (c * 2) = 2 * unat c" "unat (c * 4) = 4 * unat c" using assms by (simp_all add: unat_word_ariths)
  show "c div (SS div 2) = (c * 2) div SS" "c div (SS div 4) = (c * 4) div SS"
    by (simp_all add: word_unat_eq_iff SS_def unat_div u)
qed

lemma take_2: "p + 2 \<le> length xs \<Longrightarrow> take 2 (drop p xs) = [xs ! p, xs ! (p + 1)]"
  by (simp add: numeral_2_eq_2 take_Suc_conv_app_nth Cons_nth_drop_Suc[symmetric])

lemma take_4: "p + 4 \<le> length xs \<Longrightarrow> take 4 (drop p xs) = [xs ! p, xs ! (p + 1), xs ! (p + 2), xs ! (p + 3)]"
  by (intro nth_equalityI) (auto simp: less_Suc_eq numeral_eq_Suc)

lemma aligned: "2 * c mod 512 \<le> (510 :: nat)" "4 * c mod 512 \<le> (508 :: nat)"
proof -
  have "2 * (c mod 256) = 2 * c mod 512" "4 * (c mod 128) = 4 * c mod 512" by (simp_all add: mult_mod_right)
  moreover have "c mod 256 < 256" "c mod 128 < 128" by simp_all
  ultimately show "2 * c mod 512 \<le> (510 :: nat)" "4 * c mod 512 \<le> (508 :: nat)" by linarith+
qed

subsection \<open>The table seen through the window\<close>

text \<open>\<open>blocks\<close> gives the sectors of the disk in a state of its driver.\<close>

definition view :: "('h \<Rightarrow> nat \<Rightarrow> u8 list) \<Rightarrow> 'h vol \<Rightarrow> nat \<Rightarrow> u8 list" where
  "view blocks v k = (if k = unat (winsect (fst v)) then win (fst v) else blocks (fst (snd v)) k)"

definition coherent :: "('h \<Rightarrow> nat \<Rightarrow> u8 list) \<Rightarrow> 'h vol \<Rightarrow> bool" where
  "coherent blocks v \<longleftrightarrow> geometry (fst v) \<and> length (win (fst v)) = 512 \<and> \<not> mirror (fst v) (unat (winsect (fst v)))
     \<and> (\<not> wflag (fst v) \<longrightarrow> win (fst v) = blocks (fst (snd v)) (unat (winsect (fst v))))"

text \<open>What an operation on the table leaves: the volume, and every sector but the mirrors.\<close>

definition kept :: "('h \<Rightarrow> nat \<Rightarrow> u8 list) \<Rightarrow> 'h vol \<Rightarrow> 'h vol \<Rightarrow> bool" where
  "kept blocks v v' \<longleftrightarrow> same_volume (fst v) (fst v') \<and> (\<forall>k. \<not> mirror (fst v) k \<longrightarrow> view blocks v' k = view blocks v k)"

definition fat_byte :: "('h \<Rightarrow> nat \<Rightarrow> u8 list) \<Rightarrow> 'h vol \<Rightarrow> nat \<Rightarrow> u8" where
  "fat_byte blocks v i = view blocks v (unat (fatbase (fst v)) + i div 512) ! (i mod 512)"

text \<open>What changes at most the table.\<close>

definition kept_data :: "('h \<Rightarrow> nat \<Rightarrow> u8 list) \<Rightarrow> 'h vol \<Rightarrow> 'h vol \<Rightarrow> bool" where
  "kept_data blocks v v' \<longleftrightarrow> same_volume (fst v) (fst v')
     \<and> (\<forall>k. k < unat (fatbase (fst v)) \<or> unat (fatbase (fst v)) + unat (n_fats (fst v)) * unat (fsize (fst v)) \<le> k \<longrightarrow>
          view blocks v' k = view blocks v k)"

text \<open>The table as a function of the cluster number.\<close>

definition fat_of :: "('h \<Rightarrow> nat \<Rightarrow> u8 list) \<Rightarrow> 'h vol \<Rightarrow> u32 \<Rightarrow> u32" where
  "fat_of blocks v c = fat_entry (fs_type (fst v)) (fat_byte blocks v) (unat c)"

definition stored :: "('h \<Rightarrow> nat \<Rightarrow> u8 list) \<Rightarrow> 'h vol \<Rightarrow> u32 \<Rightarrow> u32 \<Rightarrow> 'h vol \<Rightarrow> bool" where
  "stored blocks v clst val v' \<longleftrightarrow> coherent blocks v' \<and> kept_data blocks v v'
     \<and> (\<forall>j < 512 * unat (fsize (fst v)). fat_byte blocks v' j = fat_store (fs_type (fst v)) (unat clst) val (fat_byte blocks v) j)"

lemma kept_refl [simp]: "kept blocks v v"
  by (simp add: kept_def)

lemma kept_trans: "kept blocks a b \<Longrightarrow> kept blocks b c \<Longrightarrow> kept blocks a c"
  using same_volumeD(17) by (auto simp: kept_def intro: same_volume_trans)

lemma kept_data_if: "kept blocks v v' \<Longrightarrow> kept_data blocks v v'"
  by (auto simp: kept_def kept_data_def mirror_def)

lemma kept_data_refl [simp]: "kept_data blocks v v"
  by (simp add: kept_data_def)

lemma kept_data_trans: "kept_data blocks a b \<Longrightarrow> kept_data blocks b c \<Longrightarrow> kept_data blocks a c"
  by (auto simp: kept_data_def same_volumeD intro: same_volume_trans)

text \<open>Sectors have 512 bytes; a failed transfer changes at most the sectors it addresses.\<close>

locale sector_disk = block_device "sd E" blocks
  for E :: "'h fat_env" and blocks :: "'h \<Rightarrow> nat \<Rightarrow> u8 list" +
  assumes size_512: "block_size (sd E) = 512"
    and sector_len: "length (blocks h k) = 512"
    and read_frame: "sdc_read (sd E) a n h = (f, data, h') \<Longrightarrow> blocks h' = blocks h"
    and write_frame: "sdc_write (sd E) a n data h = (f, h') \<Longrightarrow> k < unat a \<or> unat a + n \<le> k \<Longrightarrow> blocks h' k = blocks h k"
begin

lemma disk_read_frame:
  "disk_read (sd E) p a n d = (r, out, d') \<Longrightarrow> blocks (fst d') = blocks (fst d)"
  by (auto simp: disk_read_def sdcard_activity_def Let_def split: if_splits prod.splits dest: read_frame)

lemma disk_write_frame:
  "disk_write (sd E) p data a n d = (r, d') \<Longrightarrow> k < unat a \<or> unat a + n \<le> k \<Longrightarrow> blocks (fst d') k = blocks (fst d) k"
  by (auto simp: disk_write_def sdcard_activity_def Let_def split: if_splits prod.splits dest: write_frame)

lemma disk_write_1:
  assumes "disk_write (sd E) p data a 1 d = (RES_OK, d')" "length data = 512"
  shows "blocks (fst d') = (blocks (fst d))(unat a := data)"
proof -
  obtain h' where "sdc_write (sd E) a 1 data (fst d) = (False, h')" "fst d' = h'"
    using assms(1) by (auto simp: disk_write_def sdcard_activity_def Let_def split: if_splits prod.splits)
  with write_ok[OF this(1)] size_512 assms(2) show ?thesis by (auto simp: fun_eq_iff Suc_le_eq nat_neq_iff)
qed

lemma disk_read_1:
  assumes "disk_read (sd E) p a 1 d = (RES_OK, out, d')"
  shows "out = Some (blocks (fst d) (unat a))" "blocks (fst d') = blocks (fst d)"
proof -
  obtain data h' where "sdc_read (sd E) a 1 (fst d) = (False, data, h')" "out = Some data" "fst d' = h'"
    using assms(1) by (auto simp: disk_read_def sdcard_activity_def Let_def split: if_splits prod.splits)
  with read_ok[OF this(1)] show "out = Some (blocks (fst d) (unat a))" "blocks (fst d') = blocks (fst d)" by auto
qed

lemma reflect_frame:
  assumes "\<not> mirror fs k" "geometry fs" "unat a + (n - 1) * unat (fsize fs) < unat (fatbase fs) + unat (n_fats fs) * unat (fsize fs)"
    "unat (fatbase fs) \<le> unat a"
  shows "blocks (fst (reflect E fs a n d)) k = blocks (fst d) k"
  using assms
proof (induction n arbitrary: a d)
  case (Suc n)
  show ?case
  proof (cases "Suc n \<ge> 2")
    case True
    let ?d = "snd (disk_write (sd E) (drv fs) (win fs) (a + fsize fs) 1 d)"
    have le: "unat a + unat (fsize fs) + (n - 1) * unat (fsize fs) < unat (fatbase fs) + unat (n_fats fs) * unat (fsize fs)"
      using Suc.prems(3) True by (cases n) auto
    then have u: "unat (a + fsize fs) = unat a + unat (fsize fs)"
      using Suc.prems(2) by (simp add: geometry_def unat_word_ariths(1))
    have "k \<noteq> unat (a + fsize fs)" using Suc.prems(1,4) le by (auto simp: mirror_def u)
    then have "blocks (fst ?d) k = blocks (fst d) k"
      by (intro disk_write_frame[of _ _ _ 1 _ "fst (disk_write (sd E) (drv fs) (win fs) (a + fsize fs) 1 d)"]) auto
    moreover have "blocks (fst (reflect E fs (a + fsize fs) n ?d)) k = blocks (fst ?d) k"
      using Suc.prems le by (intro Suc.IH) (auto simp: u)
    ultimately show ?thesis using True by (simp add: Let_def)
  qed simp
qed simp

lemma in_fat_area: "wsect - fatbase fs < fsize fs \<Longrightarrow> geometry fs \<Longrightarrow>
    unat (fatbase fs) \<le> unat wsect \<and> unat wsect < unat (fatbase fs) + unat (fsize fs)"
proof -
  assume a: "wsect - fatbase fs < fsize fs" and g: "geometry fs"
  have "unat (wsect - fatbase fs) < unat (fsize fs)" using a by (simp add: word_less_nat_alt)
  moreover have m: "1 * unat (fsize fs) \<le> unat (n_fats fs) * unat (fsize fs)"
    using g by (intro mult_right_mono) (auto simp: geometry_def)
  have "unat (fatbase fs) + unat (fsize fs) < 2 ^ 32" using g m unfolding geometry_def by linarith
  moreover have "unat wsect = (unat (fatbase fs) + unat (wsect - fatbase fs)) mod 2 ^ 32"
    using unat_word_ariths(1)[of "fatbase fs" "wsect - fatbase fs"] by simp
  ultimately show ?thesis by simp
qed

lemma sync_window_spec:
  assumes "coherent blocks v" "sync_window E v = (FR_OK, v')"
  shows "coherent blocks v' \<and> kept blocks v v' \<and> \<not> wflag (fst v') \<and> winsect (fst v') = winsect (fst v) \<and> win (fst v') = win (fst v)"
proof (cases "wflag (fst v)")
  case False
  then show ?thesis using assms by (simp add: sync_window_def split_beta)
next
  case True
  obtain fs d where v: "v = (fs, d)" by (cases v)
  let ?fs = "fs\<lparr>wflag := False\<rparr>"
  obtain d1 where d1: "disk_write (sd E) (drv fs) (win fs) (winsect fs) 1 d = (RES_OK, d1)"
    and v': "v' = (?fs, if winsect fs - fatbase fs < fsize fs then reflect E ?fs (winsect fs) (unat (n_fats fs)) d1 else d1)"
    using assms(2) True by (auto simp: v sync_window_def Let_def split: prod.splits if_splits)
  have c: "geometry fs" "length (win fs) = 512" "\<not> mirror fs (unat (winsect fs))" using assms(1) by (auto simp: v coherent_def)
  have b1: "blocks (fst d1) = (blocks (fst d))(unat (winsect fs) := win fs)" using disk_write_1[OF d1 c(2)] .
  have sv: "same_volume fs ?fs" unfolding same_volume_def by (intro exI[of _ False] exI[of _ "win fs"] exI[of _ "winsect fs"]) simp
  have b2: "blocks (fst (snd v')) k = blocks (fst d1) k" if "\<not> mirror fs k" for k
  proof (cases "winsect fs - fatbase fs < fsize fs")
    case True
    have n: "unat (n_fats fs) = Suc (unat (n_fats fs) - 1)" using c(1) by (simp add: geometry_def)
    have "unat (n_fats fs) * unat (fsize fs) = unat (fsize fs) + (unat (n_fats fs) - 1) * unat (fsize fs)"
      by (subst n) simp
    then have "unat (winsect fs) + (unat (n_fats fs) - 1) * unat (fsize fs) < unat (fatbase fs) + unat (n_fats fs) * unat (fsize fs)"
      using in_fat_area[OF True c(1)] by simp
    then show ?thesis
      using that c(1) in_fat_area[OF True c(1)] True same_volumeD(16,17)[OF sv] by (simp add: v' reflect_frame)
  qed (simp add: v')
  have "view blocks v' k = view blocks v k" if "\<not> mirror fs k" for k
    using b1 b2[OF that] by (simp add: view_def v) (simp add: v')
  then have "kept blocks v v'" using sv by (simp add: kept_def v v')
  moreover have "coherent blocks v'" using c b1 b2[OF c(3)] same_volumeD(16,17)[OF sv] by (simp add: coherent_def v')
  ultimately show ?thesis by (simp add: v v')
qed

lemma move_window_spec:
  assumes "coherent blocks v" "\<not> mirror (fst v) (unat s)" "move_window E s v = (FR_OK, v')"
  shows "coherent blocks v' \<and> kept blocks v v' \<and> winsect (fst v') = s \<and> win (fst v') = view blocks v (unat s)"
proof (cases "s = winsect (fst v)")
  case True
  then show ?thesis using assms by (auto simp: move_window_def view_def)
next
  case False
  obtain fs1 d1 where s1: "sync_window E v = (FR_OK, (fs1, d1))"
    using assms(3) False by (auto simp: move_window_def split: prod.splits if_splits)
  obtain d2 data where d2: "disk_read (sd E) (drv fs1) s 1 d1 = (RES_OK, Some data, d2)"
    and v': "v' = (fs1\<lparr>win := data, winsect := s\<rparr>, d2)"
    using assms(3) False s1 by (auto simp: move_window_def split: prod.splits if_splits dresult.splits option.splits)
  note sy = sync_window_spec[OF assms(1) s1]
  have r: "data = blocks (fst d1) (unat s)" "blocks (fst d2) = blocks (fst d1)" using disk_read_1[OF d2] by auto
  have w: "win fs1 = blocks (fst d1) (unat (winsect fs1))" using sy unfolding coherent_def fst_conv snd_conv by blast
  have sv: "same_volume fs1 (fst v')" unfolding same_volume_def v'
    by (intro exI[of _ "wflag fs1"] exI[of _ data] exI[of _ s]) simp
  have vw: "view blocks v' = view blocks (fs1, d1)" by (auto simp: view_def v' r w fun_eq_iff)
  have k: "kept blocks (fs1, d1) v'" using sv by (simp add: kept_def vw)
  have m: "mirror fs1 = mirror (fst v)" using sy same_volumeD(17) by (auto simp: kept_def)
  have "coherent blocks v'"
    using sy assms(2) m same_volumeD(16,17)[OF sv] sector_len[of "fst d1"] by (simp add: coherent_def v' r)
  moreover have "win (fst v') = view blocks (fs1, d1) (unat s)" unfolding vw[symmetric] by (simp add: view_def v')
  moreover have "view blocks (fs1, d1) (unat s) = view blocks v (unat s)" using sy assms(2) by (simp add: kept_def)
  ultimately show ?thesis using kept_trans[OF _ k, of v] sy by (simp add: v')
qed

subsection \<open>Bytes of the table\<close>

lemma view_len: "coherent blocks v \<Longrightarrow> length (view blocks v k) = 512"
  by (simp add: view_def coherent_def sector_len)

lemma fat_byte_kept:
  assumes "kept blocks v v'" "i < 512 * unat (fsize (fst v))"
  shows "fat_byte blocks v' i = fat_byte blocks v i"
proof -
  have "i div 512 < unat (fsize (fst v))" using assms(2) by (simp add: less_mult_imp_div_less mult.commute)
  then have "\<not> mirror (fst v) (unat (fatbase (fst v)) + i div 512)" by (simp add: mirror_def)
  then show ?thesis using assms(1) same_volumeD(7)[of "fst v" "fst v'"] by (simp add: kept_def fat_byte_def)
qed

lemma load_fat:
  assumes "coherent blocks v" "i < 512 * unat (fsize (fst v))" "unat bc = i" "move_window E (fatbase (fst v) + bc div SS) v = (FR_OK, v')"
  shows "coherent blocks v' \<and> kept blocks v v' \<and> unat (winsect (fst v')) = unat (fatbase (fst v)) + i div 512
    \<and> (\<forall>j. i mod 512 + j < 512 \<longrightarrow> win (fst v') ! (unat (bc mod SS) + j) = fat_byte blocks v (i + j))"
proof -
  have g: "geometry (fst v)" using assms(1) by (simp add: coherent_def)
  note f = fat_sector[OF g assms(2,3)]
  have "coherent blocks v' \<and> kept blocks v v' \<and> winsect (fst v') = fatbase (fst v) + bc div SS \<and> win (fst v') = view blocks v (unat (fatbase (fst v)) + i div 512)"
    using move_window_spec[OF assms(1) _ assms(4)] f(1,2) by simp
  then show ?thesis by (simp add: f(1,3) fat_byte_def same_block)
qed

text \<open>A change of bytes within the sector in the window.\<close>

lemma store_fat:
  assumes "coherent blocks v" "i < 512 * unat (fsize (fst v))" "unat (winsect (fst v)) = unat (fatbase (fst v)) + i div 512"
    and "unat p = i mod 512" "i mod 512 + length bs \<le> 512"
  defines "v' \<equiv> mark_dirty (put_win p bs (fst v), snd v)"
  shows "coherent blocks v'" "kept_data blocks v v'" "winsect (fst v') = winsect (fst v)"
    "fat_byte blocks v' j = (if i \<le> j \<and> j < i + length bs then bs ! (j - i) else fat_byte blocks v j)"
proof -
  have l: "length (win (fst v)) = 512" using assms(1) by (simp add: coherent_def)
  have sv: "same_volume (fst v) (fst v')"
    unfolding v'_def mark_dirty_def put_win_def fst_conv by (rule same_volume_trans; rule same_volume_upd)
  show c: "coherent blocks v'" using assms(1,4,5) l same_volumeD(16,17)[OF sv] by (simp add: coherent_def v'_def mark_dirty_def put_win_def)
  show w: "winsect (fst v') = winsect (fst v)" by (simp add: v'_def mark_dirty_def put_win_def)
  have "view blocks v' k = view blocks v k" if "k \<noteq> unat (winsect (fst v))" for k
    using that by (simp add: view_def v'_def mark_dirty_def put_win_def)
  moreover have "unat (winsect (fst v)) < unat (fatbase (fst v)) + unat (n_fats (fst v)) * unat (fsize (fst v))"
  proof -
    have "i div 512 < unat (fsize (fst v))" using assms(2) by (simp add: less_mult_imp_div_less mult.commute)
    moreover have "geometry (fst v)" using assms(1) by (simp add: coherent_def)
    ultimately show ?thesis using assms(3) geometryD(5)[of "fst v"] by linarith
  qed
  ultimately show "kept_data blocks v v'" using sv assms(3) by (auto simp: kept_data_def)
  have o: "view blocks v' k = view blocks v k" if "k \<noteq> unat (fatbase (fst v)) + i div 512" for k
    using that assms(3) by (simp add: view_def v'_def mark_dirty_def put_win_def)
  have h: "view blocks v' (unat (fatbase (fst v)) + i div 512) = take (i mod 512) (win (fst v)) @ bs @ drop (i mod 512 + length bs) (win (fst v))"
    "view blocks v (unat (fatbase (fst v)) + i div 512) = win (fst v)"
    using assms(3,4) by (simp_all add: view_def v'_def mark_dirty_def put_win_def)
  show "fat_byte blocks v' j = (if i \<le> j \<and> j < i + length bs then bs ! (j - i) else fat_byte blocks v j)"
  proof (cases "j div 512 = i div 512")
    case True
    show ?thesis using True l assms(5)
      by (auto simp: fat_byte_def same_volumeD(7)[OF sv] h nth_append block_order[OF True])
  next
    case False
    have n: "\<not> (i \<le> j \<and> j < i + length bs)"
    proof
      assume ij: "i \<le> j \<and> j < i + length bs"
      then have "i mod 512 + (j - i) < 512" using assms(5) by linarith
      from same_block(1)[OF this] show False using False ij by simp
    qed
    show ?thesis unfolding if_not_P[OF n] using False by (simp add: fat_byte_def same_volumeD(7)[OF sv] o)
  qed
qed

lemma get_fat12:
  assumes "coherent blocks v" "2 \<le> clst" "clst < n_fatent (fst v)" "fs_type (fst v) = FS_FAT12" "get_fat E clst v = (r, v')" "r \<noteq> 0xFFFFFFFF"
  shows "r = fat_entry FS_FAT12 (fat_byte blocks v) (unat clst) \<and> coherent blocks v' \<and> kept blocks v v'"
proof -
  let ?bc = "clst + clst div 2"
  have g: "geometry (fst v)" using assms(1) by (simp add: coherent_def)
  note e = entry_bytes[OF g assms(2,3)]
  define i where "i = unat clst + unat clst div 2"
  have i: "unat ?bc = i" "unat (?bc + 1) = i + 1" "i + 1 < 512 * unat (fsize (fst v))"
    using e unat_pos12[OF e(2)] assms(4) by (simp_all add: i_def entry_pos_def entry_len_def fs_types)
  obtain v1 where v1: "move_window E (fatbase (fst v) + ?bc div SS) v = (FR_OK, v1)"
    and m2: "move_window E (fatbase (fst v1) + (?bc + 1) div SS) v1 = (FR_OK, v')"
    and r: "r = (let wc = ucast (win (fst v1) ! unat (?bc mod SS)) OR push_bit 8 (ucast (win (fst v') ! unat ((?bc + 1) mod SS)))
      in if clst AND 1 \<noteq> 0 then drop_bit 4 wc else wc AND 0xFFF)"
    using assms(2-6) by (auto simp: get_fat_def Let_def not_le split: prod.splits if_splits)
  have l1: "coherent blocks v1 \<and> kept blocks v v1 \<and> win (fst v1) ! unat (?bc mod SS) = fat_byte blocks v i"
    using load_fat[OF assms(1) _ i(1) v1] i(3) by (auto dest: spec[of _ 0])
  have "fsize (fst v1) = fsize (fst v)" using l1 same_volumeD(6) by (auto simp: kept_def)
  then have l2: "coherent blocks v' \<and> kept blocks v1 v' \<and> win (fst v') ! unat ((?bc + 1) mod SS) = fat_byte blocks v1 (i + 1)"
    using load_fat[OF _ _ i(2) m2] l1 i(3) by (auto dest: spec[of _ 0])
  have "fat_byte blocks v1 (i + 1) = fat_byte blocks v (i + 1)" using l1 i(3) by (intro fat_byte_kept) auto
  then show ?thesis using l1 l2 kept_trans[of blocks v v1 v'] odd_word[of clst]
    by (simp add: r Let_def fat_entry_def entry_pos_def i_def[symmetric])
qed

lemma get_fat16:
  assumes "coherent blocks v" "2 \<le> clst" "clst < n_fatent (fst v)" "fs_type (fst v) = FS_FAT16" "get_fat E clst v = (r, v')" "r \<noteq> 0xFFFFFFFF"
  shows "r = fat_entry FS_FAT16 (fat_byte blocks v) (unat clst) \<and> coherent blocks v' \<and> kept blocks v v'"
proof -
  have g: "geometry (fst v)" using assms(1) by (simp add: coherent_def)
  note e = entry_bytes[OF g assms(2,3)]
  note sc = scaled[OF e(2)]
  define i where "i = 2 * unat clst"
  have i: "unat (clst * 2) = i" "i + 1 < 512 * unat (fsize (fst v))" "i mod 512 + 2 \<le> 512" "unat (clst * 2 mod SS) = i mod 512"
    using e sc assms(4) by (simp_all add: i_def entry_pos_def entry_len_def fs_types SS_def unat_mod aligned)
  have m: "move_window E (fatbase (fst v) + (clst * 2) div SS) v = (FR_OK, v')" and r: "r = ucast (win_word (fst v') (clst * 2 mod SS))"
    using assms(2-6) by (auto simp: get_fat_def sc Let_def not_le fs_types split: prod.splits if_splits)
  have l: "coherent blocks v' \<and> kept blocks v v' \<and> (\<forall>j. i mod 512 + j < 512 \<longrightarrow> win (fst v') ! (unat (clst * 2 mod SS) + j) = fat_byte blocks v (i + j))"
    using load_fat[OF assms(1) _ i(1) m] i(2) by auto
  have w: "win (fst v') ! (i mod 512 + j) = fat_byte blocks v (i + j)" if "j < 2" for j using l i(3,4) that by simp
  have "length (win (fst v')) = 512" using l by (simp add: coherent_def)
  then have "win_word (fst v') (clst * 2 mod SS) = le_word16 [fat_byte blocks v i, fat_byte blocks v (i + 1)]"
    using w[of 0] w[of 1] i(3,4) by (simp add: win_word_def take_2)
  then show ?thesis using l by (simp add: r fat_entry_def entry_pos_def i_def[symmetric] fs_types)
qed

lemma get_fat32:
  assumes "coherent blocks v" "2 \<le> clst" "clst < n_fatent (fst v)" "fs_type (fst v) = FS_FAT32" "get_fat E clst v = (r, v')" "r \<noteq> 0xFFFFFFFF"
  shows "r = fat_entry FS_FAT32 (fat_byte blocks v) (unat clst) \<and> coherent blocks v' \<and> kept blocks v v'"
proof -
  have g: "geometry (fst v)" using assms(1) by (simp add: coherent_def)
  note e = entry_bytes[OF g assms(2,3)]
  note sc = scaled[OF e(2)]
  define i where "i = 4 * unat clst"
  have i: "unat (clst * 4) = i" "i + 3 < 512 * unat (fsize (fst v))" "i mod 512 + 4 \<le> 512" "unat (clst * 4 mod SS) = i mod 512"
    using e sc assms(4) by (simp_all add: i_def entry_pos_def entry_len_def fs_types SS_def unat_mod aligned)
  have m: "move_window E (fatbase (fst v) + (clst * 4) div SS) v = (FR_OK, v')"
    and r: "r = win_dword (fst v') (clst * 4 mod SS) AND 0x0FFFFFFF"
    using assms(2-6) by (auto simp: get_fat_def sc Let_def not_le fs_types split: prod.splits if_splits)
  have l: "coherent blocks v' \<and> kept blocks v v' \<and> (\<forall>j. i mod 512 + j < 512 \<longrightarrow> win (fst v') ! (unat (clst * 4 mod SS) + j) = fat_byte blocks v (i + j))"
    using load_fat[OF assms(1) _ i(1) m] i(2) by auto
  have w: "win (fst v') ! (i mod 512 + j) = fat_byte blocks v (i + j)" if "j < 4" for j using l i(3,4) that by simp
  have "length (win (fst v')) = 512" using l by (simp add: coherent_def)
  then have "win_dword (fst v') (clst * 4 mod SS) = le_word32 [fat_byte blocks v i, fat_byte blocks v (i + 1), fat_byte blocks v (i + 2), fat_byte blocks v (i + 3)]"
    using w[of 0] w[of 1] w[of 2] w[of 3] i(3,4) by (simp add: win_dword_def take_4)
  then show ?thesis using l by (simp add: r fat_entry_def entry_pos_def i_def[symmetric] fs_types)
qed

lemma get_fat_spec:
  assumes "coherent blocks v" "2 \<le> clst" "clst < n_fatent (fst v)" "get_fat E clst v = (r, v')" "r \<noteq> 0xFFFFFFFF"
  shows "r = fat_entry (fs_type (fst v)) (fat_byte blocks v) (unat clst) \<and> coherent blocks v' \<and> kept blocks v v'"
proof -
  have "fat_type (fs_type (fst v))" using assms(1) by (simp add: coherent_def geometryD)
  then consider "fs_type (fst v) = FS_FAT12" | "fs_type (fst v) = FS_FAT16" | "fs_type (fst v) = FS_FAT32"
    by (auto simp: fat_type_def)
  then show ?thesis
    by cases (use get_fat12[OF assms(1-3) _ assms(4,5)] get_fat16[OF assms(1-3) _ assms(4,5)]
      get_fat32[OF assms(1-3) _ assms(4,5)] in simp_all)
qed

text \<open>A window moved to some bytes of the table, and the bytes changed.\<close>

lemma load_store:
  assumes "coherent blocks v" "i + length bs \<le> 512 * unat (fsize (fst v))" "unat bc = i" "i mod 512 + length bs \<le> 512" "bs \<noteq> []"
    and "move_window E (fatbase (fst v) + bc div SS) v = (FR_OK, v1)"
  defines "v' \<equiv> mark_dirty (put_win (bc mod SS) bs (fst v1), snd v1)"
  shows "coherent blocks v' \<and> kept_data blocks v v'
    \<and> (\<forall>j < 512 * unat (fsize (fst v)). fat_byte blocks v' j = (if i \<le> j \<and> j < i + length bs then bs ! (j - i) else fat_byte blocks v j))"
proof -
  have i: "i < 512 * unat (fsize (fst v))" using assms(2,5) by (cases bs) auto
  have l: "coherent blocks v1 \<and> kept blocks v v1 \<and> unat (winsect (fst v1)) = unat (fatbase (fst v)) + i div 512"
    using load_fat[OF assms(1) i assms(3,6)] by simp
  then have sv: "same_volume (fst v) (fst v1)" by (simp add: kept_def)
  have p: "i < 512 * unat (fsize (fst v1))" "unat (winsect (fst v1)) = unat (fatbase (fst v1)) + i div 512"
    "unat (bc mod SS) = i mod 512"
    using i l same_volumeD[OF sv] assms(3) by (simp_all add: SS_def unat_mod)
  note st = store_fat[OF conjunct1[OF l] p assms(4), folded v'_def]
  have "kept_data blocks v v'" using kept_data_trans[OF kept_data_if st(2)] l by simp
  moreover have "fat_byte blocks v1 j = fat_byte blocks v j" if "j < 512 * unat (fsize (fst v))" for j
    using fat_byte_kept[of v v1 j] l that by simp
  ultimately show ?thesis using st(1,4) by simp
qed

lemma put_fat12:
  assumes "coherent blocks v" "2 \<le> clst" "clst < n_fatent (fst v)" "fs_type (fst v) = FS_FAT12" "put_fat E clst val v = (FR_OK, v')"
  shows "stored blocks v clst val v'"
proof -
  let ?bc = "clst + clst div 2"
  have g: "geometry (fst v)" using assms(1) by (simp add: coherent_def)
  note e = entry_bytes[OF g assms(2,3)]
  define i where "i = unat clst + unat clst div 2"
  have i: "unat ?bc = i" "unat (?bc + 1) = i + 1" "i + 2 \<le> 512 * unat (fsize (fst v))"
    using e unat_pos12[OF e(2)] assms(4) by (simp_all add: i_def entry_pos_def entry_len_def fs_types)
  obtain v1 b1 v2 v3 b2 where v1: "move_window E (fatbase (fst v) + ?bc div SS) v = (FR_OK, v1)"
    and b1: "b1 = (let p = win (fst v1) ! unat (?bc mod SS) in
      if clst AND 1 \<noteq> 0 then (p AND 0x0F) OR push_bit 4 (ucast val) else ucast val)"
    and v2: "v2 = mark_dirty (put_win (?bc mod SS) [b1] (fst v1), snd v1)"
    and v3: "move_window E (fatbase (fst v2) + (?bc + 1) div SS) v2 = (FR_OK, v3)"
    and b2: "b2 = (let p = win (fst v3) ! unat ((?bc + 1) mod SS) in
      if clst AND 1 \<noteq> 0 then ucast (drop_bit 4 val) else (p AND 0xF0) OR (ucast (drop_bit 8 val) AND 0x0F))"
    and v': "v' = mark_dirty (put_win ((?bc + 1) mod SS) [b2] (fst v3), snd v3)"
    using assms(2-5) by (auto simp: put_fat_def Let_def not_le split: prod.splits if_splits)
  have s2: "coherent blocks v2 \<and> kept_data blocks v v2
      \<and> (\<forall>j < 512 * unat (fsize (fst v)). fat_byte blocks v2 j = (if j = i then b1 else fat_byte blocks v j))"
    using load_store[OF assms(1) _ i(1) _ _ v1, of "[b1]"] i(3) unfolding v2 by (auto simp: le_less_Suc_eq Suc_le_eq)
  then have sv: "same_volume (fst v) (fst v2)" by (simp add: kept_data_def)
  have i2: "i + 2 \<le> 512 * unat (fsize (fst v2))" using i(3) same_volumeD[OF sv] by simp
  have s4: "coherent blocks v' \<and> kept_data blocks v2 v'
      \<and> (\<forall>j < 512 * unat (fsize (fst v2)). fat_byte blocks v' j = (if j = i + 1 then b2 else fat_byte blocks v2 j))"
    using load_store[OF conjunct1[OF s2] _ i(2) _ _ v3, of "[b2]"] i2 unfolding v' by (auto simp: le_less_Suc_eq Suc_le_eq)
  have w: "win (fst v1) ! unat (?bc mod SS) = fat_byte blocks v i" "win (fst v3) ! unat ((?bc + 1) mod SS) = fat_byte blocks v (i + 1)"
    using load_fat[OF assms(1) _ i(1) v1] load_fat[OF conjunct1[OF s2] _ i(2) v3] i(3) i2 s2 by (auto dest: spec[of _ 0])
  have "fat_byte blocks v' j = fat_store FS_FAT12 (unat clst) val (fat_byte blocks v) j" if "j < 512 * unat (fsize (fst v))" for j
    using s2 s4 that odd_word[of clst] same_volumeD[OF sv]
    by (auto simp: fat_store_def entry_pos_def i_def[symmetric] b1 b2 Let_def w)
  then show ?thesis using kept_data_trans[of blocks v v2 v'] s2 s4 assms(4) by (simp add: stored_def)
qed

lemma put_fat16:
  assumes "coherent blocks v" "2 \<le> clst" "clst < n_fatent (fst v)" "fs_type (fst v) = FS_FAT16" "put_fat E clst val v = (FR_OK, v')"
  shows "stored blocks v clst val v'"
proof -
  have g: "geometry (fst v)" using assms(1) by (simp add: coherent_def)
  note e = entry_bytes[OF g assms(2,3)]
  note sc = scaled[OF e(2)]
  define i where "i = 2 * unat clst"
  have i: "unat (clst * 2) = i" "i + 2 \<le> 512 * unat (fsize (fst v))" "i mod 512 + 2 \<le> 512"
    using e sc assms(4) aligned(1)[of "unat clst"] by (simp_all add: i_def entry_pos_def entry_len_def fs_types)
  obtain v1 where m: "move_window E (fatbase (fst v) + (clst * 2) div SS) v = (FR_OK, v1)"
    and v': "v' = mark_dirty (put_win (clst * 2 mod SS) (le_bytes16 (ucast val)) (fst v1), snd v1)"
    using assms(2-5) by (auto simp: put_fat_def sc Let_def not_le fs_types split: prod.splits if_splits)
  have "le_bytes16 (ucast val) ! (j - i) = fat_store FS_FAT16 (unat clst) val (fat_byte blocks v) j"
    if "i \<le> j" "j < i + 2" for j
    using that by (cases "j = i") (auto simp: fat_store_def entry_pos_def i_def[symmetric] le_bytes16_def Let_def fs_types
      less_Suc_eq intro!: bit_word_eqI simp: bit_simps)
  moreover have "fat_store FS_FAT16 (unat clst) val (fat_byte blocks v) j = fat_byte blocks v j" if "\<not> (i \<le> j \<and> j < i + 2)" for j
    using that by (auto simp: fat_store_def entry_pos_def i_def[symmetric] Let_def fs_types)
  ultimately show ?thesis
    using load_store[OF assms(1) _ i(1) _ _ m, of "le_bytes16 (ucast val)", folded v'] i(2,3) assms(4)
    by (simp add: stored_def) (auto simp: le_bytes16_def)
qed

lemma put_fat32:
  assumes "coherent blocks v" "2 \<le> clst" "clst < n_fatent (fst v)" "fs_type (fst v) = FS_FAT32" "put_fat E clst val v = (FR_OK, v')"
  shows "stored blocks v clst val v'"
proof -
  have g: "geometry (fst v)" using assms(1) by (simp add: coherent_def)
  note e = entry_bytes[OF g assms(2,3)]
  note sc = scaled[OF e(2)]
  define i where "i = 4 * unat clst"
  have i: "unat (clst * 4) = i" "i + 4 \<le> 512 * unat (fsize (fst v))" "i mod 512 + 4 \<le> 512" "unat (clst * 4 mod SS) = i mod 512"
    using e sc assms(4) aligned(2)[of "unat clst"] by (simp_all add: i_def entry_pos_def entry_len_def fs_types SS_def unat_mod)
  obtain v1 bs where m: "move_window E (fatbase (fst v) + (clst * 4) div SS) v = (FR_OK, v1)"
    and bs: "bs = le_bytes32 (val OR (win_dword (fst v1) (clst * 4 mod SS) AND 0xF0000000))"
    and v': "v' = mark_dirty (put_win (clst * 4 mod SS) bs (fst v1), snd v1)"
    using assms(2-5) by (auto simp: put_fat_def sc Let_def not_le fs_types split: prod.splits if_splits)
  have l: "length (win (fst v1)) = 512" "win (fst v1) ! (i mod 512 + 3) = fat_byte blocks v (i + 3)"
    using load_fat[OF assms(1) _ i(1) m] i(2-4) by (auto simp: coherent_def dest: spec[of _ 3])
  have b: "bs = [ucast val, ucast (drop_bit 8 val), ucast (drop_bit 16 val), ucast (drop_bit 24 val) OR (fat_byte blocks v (i + 3) AND 0xF0)]"
    unfolding bs le_bytes32_def win_dword_def i(4)
    by (simp add: take_4 l i(3), intro conjI; rule bit_word_eqI) (auto simp: fat_bits dest: bit_imp_le_length)
  have "bs ! (j - i) = fat_store FS_FAT32 (unat clst) val (fat_byte blocks v) j" if "i \<le> j" "j < i + 4" for j
  proof -
    have "j = i \<or> j = i + 1 \<or> j = i + 2 \<or> j = i + 3" using that by arith
    moreover have "entry_pos 3 (unat clst) = i" by (simp add: entry_pos_def i_def fs_types)
    ultimately show ?thesis by (elim disjE) (simp_all add: b fat_store_def Let_def fs_types)
  qed
  moreover have "fat_store FS_FAT32 (unat clst) val (fat_byte blocks v) j = fat_byte blocks v j" if "\<not> (i \<le> j \<and> j < i + 4)" for j
    using that by (auto simp: fat_store_def entry_pos_def i_def[symmetric] Let_def fs_types)
  moreover have "length bs = 4" "bs \<noteq> []" by (simp_all add: b)
  ultimately show ?thesis
    using load_store[OF assms(1) _ i(1) _ _ m, of bs, folded v'] i(2,3) assms(4) by (simp add: stored_def)
qed

lemma put_fat_spec:
  assumes "coherent blocks v" "2 \<le> clst" "clst < n_fatent (fst v)" "put_fat E clst val v = (FR_OK, v')"
  shows "stored blocks v clst val v'"
proof -
  have "fat_type (fs_type (fst v))" using assms(1) by (simp add: coherent_def geometryD)
  then consider "fs_type (fst v) = FS_FAT12" | "fs_type (fst v) = FS_FAT16" | "fs_type (fst v) = FS_FAT32"
    by (auto simp: fat_type_def)
  then show ?thesis
    by cases (use put_fat12[OF assms(1-3) _ assms(4)] put_fat16[OF assms(1-3) _ assms(4)]
      put_fat32[OF assms(1-3) _ assms(4)] in simp_all)
qed

lemma fat_entry_cong:
  assumes "fat_type t" "\<And>j. entry_pos t c \<le> j \<Longrightarrow> j < entry_pos t c + entry_len t \<Longrightarrow> b j = b' j"
  shows "fat_entry t b c = fat_entry t b' c"
  using assms by (auto simp: fat_type_def fat_entry_def Let_def entry_len_def fs_types)

lemma fat_of_agree:
  assumes "coherent blocks v" "2 \<le> c" "c < n_fatent (fst v)" "same_volume (fst v) (fst v')"
    and "\<And>j. j < 512 * unat (fsize (fst v)) \<Longrightarrow> fat_byte blocks v' j = b j"
  shows "fat_of blocks v' c = fat_entry (fs_type (fst v)) b (unat c)"
proof -
  have g: "geometry (fst v)" using assms(1) by (simp add: coherent_def)
  show ?thesis unfolding fat_of_def same_volumeD(1)[OF assms(4)]
    by (rule fat_entry_cong[OF geometryD(1)[OF g]]) (use entry_bytes(1)[OF g assms(2,3)] assms(5) in auto)
qed

lemma fat_of_kept:
  assumes "coherent blocks v" "2 \<le> c" "c < n_fatent (fst v)" "kept blocks v v'"
  shows "fat_of blocks v' c = fat_of blocks v c"
  using fat_of_agree[OF assms(1-3), of v' "fat_byte blocks v"] fat_byte_kept[OF assms(4)] assms(4)
  by (simp add: kept_def fat_of_def)

lemma fat_of_stored:
  assumes "coherent blocks v" "2 \<le> c" "c < n_fatent (fst v)" "stored blocks v clst val v'"
  shows "fat_of blocks v' c = (if c = clst then val AND entry_mask (fs_type (fst v)) else fat_of blocks v c)"
proof -
  have "fat_type (fs_type (fst v))" using assms(1) by (simp add: coherent_def geometryD)
  note e = entry_same[OF this] entry_other[OF this]
  have "fat_of blocks v' c = fat_entry (fs_type (fst v)) (fat_store (fs_type (fst v)) (unat clst) val (fat_byte blocks v)) (unat c)"
    using assms(4) by (intro fat_of_agree[OF assms(1-3)]) (auto simp: stored_def kept_data_def)
  then show ?thesis using e(1)[of "unat clst"] e(2)[of "unat c" "unat clst"] by (auto simp: fat_of_def word_unat_eq_iff)
qed

lemma put_get:
  assumes "coherent blocks v" "2 \<le> clst" "clst < n_fatent (fst v)" "put_fat E clst val v = (FR_OK, v1)"
    and "2 \<le> c" "c < n_fatent (fst v)" "get_fat E c v1 = (r, v2)" "r \<noteq> 0xFFFFFFFF"
  shows "r = (if c = clst then val AND entry_mask (fs_type (fst v)) else fat_of blocks v c)"
proof -
  have st: "stored blocks v clst val v1" by (rule put_fat_spec[OF assms(1-4)])
  then have "same_volume (fst v) (fst v1)" by (simp add: stored_def kept_data_def)
  then have "r = fat_of blocks v1 c"
    using get_fat_spec[OF _ assms(5) _ assms(7,8)] st assms(6) by (simp add: stored_def fat_of_def same_volumeD)
  then show ?thesis using fat_of_stored[OF assms(1,5,6) st] by simp
qed

end

subsection \<open>Disks that work\<close>

text \<open>On a card that is ready and never fails, no operation on the table fails.\<close>

definition never_fails :: "'h fat_env \<Rightarrow> bool" where
  "never_fails E \<longleftrightarrow> (\<forall>h. sdc_ready (sd E) h) \<and> (\<forall>a n h. \<not> fst (sdc_read (sd E) a n h))
     \<and> (\<forall>a n data h. \<not> fst (sdc_write (sd E) a n data h))"

lemma disk_works:
  assumes "never_fails E"
  shows "fst (disk_write (sd E) SDC data a n d) = RES_OK" "\<exists>out d'. disk_read (sd E) SDC a n d = (RES_OK, Some out, d')"
  using assms by (auto simp: never_fails_def disk_write_def disk_read_def Let_def split: prod.splits) (metis fst_conv)+

lemma window_works:
  assumes "never_fails E" "drv (fst v) = SDC"
  shows "fst (sync_window E v) = FR_OK \<and> drv (fst (snd (sync_window E v))) = SDC"
    "fst (move_window E s v) = FR_OK \<and> drv (fst (snd (move_window E s v))) = SDC"
proof -
  show sy: "fst (sync_window E v) = FR_OK \<and> drv (fst (snd (sync_window E v))) = SDC"
    using disk_works(1)[OF assms(1)] assms(2) by (cases v) (auto simp: sync_window_def Let_def split: prod.splits, metis fst_conv)
  obtain fs d where v1: "sync_window E v = (FR_OK, (fs, d))" "drv fs = SDC" using sy by (cases "sync_window E v") auto
  obtain out d' where "disk_read (sd E) SDC s 1 d = (RES_OK, Some out, d')" using disk_works(2)[OF assms(1)] by blast
  then show "fst (move_window E s v) = FR_OK \<and> drv (fst (snd (move_window E s v))) = SDC"
    using v1 assms(2) by (simp add: move_window_def)
qed

lemma window_ok:
  assumes "never_fails E" "drv (fst v) = SDC"
  obtains v' where "move_window E s v = (FR_OK, v')" "drv (fst v') = SDC"
  using window_works(2)[OF assms, of s] by (cases "move_window E s v") auto

lemma not_all_ones: "\<not> bit (x :: u32) 31 \<Longrightarrow> x \<noteq> 0xFFFFFFFF"
  by auto

lemma not_bit16: "\<not> bit (x :: u16) 31"
  by (auto dest: bit_imp_le_length)

lemma get_fat_works:
  assumes "never_fails E" "drv (fst v) = SDC" "fat_type (fs_type (fst v))"
  shows "fst (get_fat E c v) \<noteq> 0xFFFFFFFF"
proof -
  consider "fs_type (fst v) = FS_FAT12" | "fs_type (fst v) = FS_FAT16" | "fs_type (fst v) = FS_FAT32"
    using assms(3) by (auto simp: fat_type_def)
  then show ?thesis
  proof cases
    case 1
    obtain v1 where v1: "move_window E (fatbase (fst v) + (c + c div 2) div SS) v = (FR_OK, v1)" "drv (fst v1) = SDC"
      by (rule window_ok[OF assms(1,2)])
    obtain v2 where "move_window E (fatbase (fst v1) + (c + c div 2 + 1) div SS) v1 = (FR_OK, v2)"
      by (rule window_ok[OF assms(1) v1(2)])
    then show ?thesis using 1 v1 by (auto simp: get_fat_def Let_def intro!: not_all_ones simp: fat_bits dest: bit_imp_le_length)
  next
    case 2
    obtain v1 where "move_window E (fatbase (fst v) + c div (SS div 2)) v = (FR_OK, v1)" by (rule window_ok[OF assms(1,2)])
    then show ?thesis using 2
      by (auto simp: get_fat_def Let_def fs_types intro!: not_all_ones simp: fat_bits not_bit16)
  next
    case 3
    obtain v1 where "move_window E (fatbase (fst v) + c div (SS div 4)) v = (FR_OK, v1)" by (rule window_ok[OF assms(1,2)])
    then show ?thesis using 3 by (auto simp: get_fat_def Let_def fs_types intro!: not_all_ones simp: fat_bits)
  qed
qed

lemma put_fat_works:
  assumes "never_fails E" "drv (fst v) = SDC" "fat_type (fs_type (fst v))" "2 \<le> c" "c < n_fatent (fst v)"
  shows "fst (put_fat E c val v) = FR_OK"
proof -
  have r: "\<not> c < 2" "\<not> c \<ge> n_fatent (fst v)" using assms(4,5) by (simp_all add: not_less not_le)
  consider "fs_type (fst v) = FS_FAT12" | "fs_type (fst v) = FS_FAT16" | "fs_type (fst v) = FS_FAT32"
    using assms(3) by (auto simp: fat_type_def)
  then show ?thesis
  proof cases
    case 1
    obtain v1 where v1: "move_window E (fatbase (fst v) + (c + c div 2) div SS) v = (FR_OK, v1)" "drv (fst v1) = SDC"
      by (rule window_ok[OF assms(1,2)])
    have d: "drv (fst (mark_dirty (put_win i bs (fst v1), snd v1))) = SDC" for i bs
      using v1(2) by (simp add: mark_dirty_def put_win_def)
    show ?thesis using 1 v1(1) r window_works(2)[OF assms(1) d]
      by (simp add: put_fat_def Let_def split_beta)
  next
    case 2
    obtain v1 where "move_window E (fatbase (fst v) + c div (SS div 2)) v = (FR_OK, v1)" by (rule window_ok[OF assms(1,2)])
    then show ?thesis using 2 r by (simp add: put_fat_def Let_def fs_types)
  next
    case 3
    obtain v1 where "move_window E (fatbase (fst v) + c div (SS div 4)) v = (FR_OK, v1)" by (rule window_ok[OF assms(1,2)])
    then show ?thesis using 3 r by (simp add: put_fat_def Let_def fs_types)
  qed
qed

subsection \<open>A disk in memory\<close>

text \<open>Sectors are padded to 512 bytes; transfers that touch a sector of \<open>bad\<close> fail.\<close>

definition pad512 :: "u8 list \<Rightarrow> u8 list" where
  "pad512 xs = take 512 (xs @ replicate 512 0)"

definition ram_driver :: "nat list \<Rightarrow> (nat \<Rightarrow> u8 list) sdc_driver" where
  "ram_driver bad = \<lparr>sdc_ready = (\<lambda>_. True), sdc_protected = (\<lambda>_. False),
     sdc_read = (\<lambda>a n h. if list_ex (\<lambda>k. unat a \<le> k \<and> k < unat a + n) bad then (True, [], h)
       else (False, concat (map (\<lambda>k. pad512 (h k)) [unat a..<unat a + n]), h)),
     sdc_write = (\<lambda>a n data h. if list_ex (\<lambda>k. unat a \<le> k \<and> k < unat a + n) bad then (True, h)
       else (False, \<lambda>k. if unat a \<le> k \<and> k < unat a + n then take 512 (drop ((k - unat a) * 512) data) else h k)),
     sdc_capacity = (\<lambda>_. 1000), block_size = 512\<rparr>"

definition ram_env :: "nat list \<Rightarrow> (nat \<Rightarrow> u8 list) fat_env" where
  "ram_env bad = \<lparr>sd = ram_driver bad, torn = (\<lambda>_ _. replicate 512 0xFF)\<rparr>"

definition ram_blocks :: "(nat \<Rightarrow> u8 list) \<Rightarrow> nat \<Rightarrow> u8 list" where
  "ram_blocks h k = pad512 (h k)"

lemma pad512_len [simp]: "length (pad512 xs) = 512"
  by (simp add: pad512_def)

lemma pad512_id: "length xs = 512 \<Longrightarrow> pad512 xs = xs"
  by (simp add: pad512_def)

interpretation ram: sector_disk "ram_env bad" ram_blocks for bad
proof
  fix a n data and h h' :: "nat \<Rightarrow> u8 list"
  assume w: "sdc_write (sd (ram_env bad)) a n data h = (False, h')" and l: "length data = n * unat (block_size (sd (ram_env bad)))"
  have h': "h' = (\<lambda>k. if unat a \<le> k \<and> k < unat a + n then take 512 (drop ((k - unat a) * 512) data) else h k)"
    using w by (auto simp: ram_env_def ram_driver_def split: if_splits)
  have l: "length data = n * 512" using l by (simp add: ram_env_def ram_driver_def)
  have p: "pad512 (take 512 (drop (i * 512) data)) = take 512 (drop (i * 512) data)" if "i < n" for i
  proof (rule pad512_id)
    have "(i + 1) * 512 \<le> n * 512" using that by (intro mult_right_mono) auto
    then show "length (take 512 (drop (i * 512) data)) = 512" by (simp add: l)
  qed
  have "map (ram_blocks h') [unat a..<unat a + n] = map (\<lambda>k. take 512 (drop (k * 512) data)) [0..<n]"
    by (intro nth_equalityI) (auto simp: h' ram_blocks_def p)
  then show "concat (map (ram_blocks h') [unat a..<unat a + n]) = data
      \<and> (\<forall>k. k < unat a \<or> unat a + n \<le> k \<longrightarrow> ram_blocks h' k = ram_blocks h k)"
    using concat_blocks[OF l] by (simp add: h' ram_blocks_def)
qed (auto simp: ram_env_def ram_driver_def ram_blocks_def[abs_def] split: if_splits)

lemma ram_works: "never_fails (ram_env [])"
  by (simp add: never_fails_def ram_env_def ram_driver_def)

definition ram_fs :: "u8 \<Rightarrow> fatfs" where
  "ram_fs t = \<lparr>fs_type = t, drv = SDC, csize = 1, n_fats = 2, wflag = False, fsi_flag = 0x80, fs_id = 1, n_rootdir = 16,
     last_clust = 0xFFFFFFFF, free_clust = 0xFFFFFFFF, n_fatent = 10, fsize = 1, volbase = 0, fatbase = 1, dirbase = 3,
     database = 4, winsect = 0, win = pad512 []\<rparr>"

definition ram_vol :: "u8 \<Rightarrow> (nat \<Rightarrow> u8 list) vol" where
  "ram_vol t = (ram_fs t, ((\<lambda>_. []), False))"

lemma ram_fields [simp]:
  "fst (ram_vol t) = ram_fs t" "snd (ram_vol t) = ((\<lambda>_. []), False)" "fs_type (ram_fs t) = t" "drv (ram_fs t) = SDC"
  "n_fatent (ram_fs t) = 10" "wflag (ram_fs t) = False" "fatbase (ram_fs t) = 1" "fsize (ram_fs t) = 1" "n_fats (ram_fs t) = 2"
  "winsect (ram_fs t) = 0" "torn (ram_env bad) s d = replicate 512 0xFF" "csize (ram_fs t) = 1" "database (ram_fs t) = 4"
  "free_clust (ram_fs t) = 0xFFFFFFFF"
  by (simp_all add: ram_vol_def ram_fs_def ram_env_def)

lemma ram_vol_coherent: "fat_type t \<Longrightarrow> coherent ram_blocks (ram_vol t)"
  by (auto simp: coherent_def ram_vol_def ram_fs_def geometry_def mirror_def ram_blocks_def fat_type_def fat_bytes_used_def
      entry_mask_def fs_types)

subsection \<open>Properties\<close>

text \<open>C34. On every disk that keeps its documented behaviour, and for entries of 12, 16 and 28 bits, an entry that \<open>put_fat\<close>
reported written is what \<open>get_fat\<close> reads next, and every other entry reads as before (entries of 12 bits share bytes
and may straddle two sectors, so the window is written back in between); no sector outside the copies of the table changes.
On a card that works neither call fails.\<close>
theorem fat_get_after_put:
  assumes "sector_disk E blocks" "coherent blocks v" "2 \<le> c" "c < n_fatent (fst v)" "2 \<le> d" "d < n_fatent (fst v)"
    and "put_fat E c val v = (r, v1)" "get_fat E d v1 = (x, v2)"
  shows "(r = FR_OK \<and> x \<noteq> 0xFFFFFFFF \<longrightarrow>
        x = (if d = c then val AND entry_mask (fs_type (fst v)) else fat_of blocks v d) \<and> coherent blocks v2 \<and> kept_data blocks v v2)
    \<and> (never_fails E \<and> drv (fst v) = SDC \<longrightarrow> r = FR_OK \<and> x \<noteq> 0xFFFFFFFF)"
proof (intro conjI impI)
  have t: "fat_type (fs_type (fst v))" using assms(2) by (simp add: coherent_def geometryD)
  have st: "stored blocks v c val v1" if "r = FR_OK"
    using sector_disk.put_fat_spec[OF assms(1-4)] assms(7) that by simp
  have sv: "same_volume (fst v) (fst v1)" if "r = FR_OK" using st[OF that] by (simp add: stored_def kept_data_def)
  show "r = FR_OK" if "never_fails E \<and> drv (fst v) = SDC"
    using put_fat_works[of E v c val] that t assms(3,4,7) by simp
  then show "x \<noteq> 0xFFFFFFFF" if "never_fails E \<and> drv (fst v) = SDC"
    using get_fat_works[of E v1 d] that t sv assms(8) by (simp add: same_volumeD)
  assume ok: "r = FR_OK \<and> x \<noteq> 0xFFFFFFFF"
  then show "x = (if d = c then val AND entry_mask (fs_type (fst v)) else fat_of blocks v d)"
    using sector_disk.put_get[OF assms(1-4) _ assms(5,6,8)] assms(7) by simp
  have g: "coherent blocks v2 \<and> kept blocks v1 v2"
    using sector_disk.get_fat_spec[OF assms(1) _ assms(5) _ assms(8)] st sv ok assms(6) by (simp add: stored_def same_volumeD)
  then show "coherent blocks v2" by simp
  show "kept_data blocks v v2"
    using kept_data_trans[of blocks v v1 v2] kept_data_if[of blocks v1 v2] st ok g by (simp add: stored_def)
qed

theorem fat_get_after_put_witness:
  "\<exists>v1 v2. put_fat (ram_env []) 3 0x123 (ram_vol FS_FAT12) = (FR_OK, v1) \<and> get_fat (ram_env []) 3 v1 = (0x123, v2)"
proof -
  obtain r v1 where p: "put_fat (ram_env []) 3 0x123 (ram_vol FS_FAT12) = (r, v1)" by (metis surj_pair)
  obtain x v2 where g: "get_fat (ram_env []) 3 v1 = (x, v2)" by (metis surj_pair)
  have "coherent ram_blocks (ram_vol FS_FAT12)" by (rule ram_vol_coherent) (simp add: fat_type_def)
  from fat_get_after_put[OF ram.sector_disk_axioms this _ _ _ _ p g]
  have "r = FR_OK \<and> x = 0x123" using ram_works by (simp add: entry_mask_def)
  then show ?thesis using p g by blast
qed




end
