(* ===== verification/Fat_Chain.thy ===== *)
theory Fat_Chain
  imports Fat_Table
begin

section \<open>Cluster chains (\<open>fatfs/src/ff.c\<close>: \<open>remove_chain\<close>, \<open>create_chain\<close>)\<close>

text \<open>
  A file is a chain of clusters: the entry of each is the number of the next, that of the last is not smaller
  than the number of entries. \<open>create_chain\<close> appends a free cluster to a chain or starts one,
  \<open>remove_chain\<close> frees one. Both count the free clusters for the FSINFO sector.
  The abstraction of a volume is its table \<open>fat_of\<close>; \<open>chain\<close> is a path in it.
\<close>

subsection \<open>Operations\<close>

definition count_freed :: "'h vol \<Rightarrow> 'h vol" where
  "count_freed v =
     (if free_clust (fst v) \<noteq> 0xFFFFFFFF
      then ((fst v)\<lparr>free_clust := free_clust (fst v) + 1, fsi_flag := fsi_flag (fst v) OR 1\<rparr>, snd v) else v)"

partial_function (option) remove_chain_loop :: "'h fat_env \<Rightarrow> u32 \<Rightarrow> fresult \<Rightarrow> 'h vol \<Rightarrow> (fresult \<times> 'h vol) option" where
  "remove_chain_loop E clst res v =
     (if clst < n_fatent (fst v) then
        let (nxt, v) = get_fat E clst v
        in if nxt = 0 then Some (res, v)
           else if nxt = 1 then Some (FR_INT_ERR, v)
           else if nxt = 0xFFFFFFFF then Some (FR_DISK_ERR, v)
           else let (res, v) = put_fat E clst 0 v
           in if res \<noteq> FR_OK then Some (res, v) else remove_chain_loop E nxt res (count_freed v)
      else Some (res, v))"

definition remove_chain :: "'h fat_env \<Rightarrow> u32 \<Rightarrow> 'h vol \<Rightarrow> (fresult \<times> 'h vol) option" where
  "remove_chain E clst v =
     (if clst < 2 \<or> clst \<ge> n_fatent (fst v) then Some (FR_INT_ERR, v) else remove_chain_loop E clst FR_OK v)"

text \<open>The search: \<open>Inl\<close> is what \<open>create_chain\<close> returns, \<open>Inr\<close> the free cluster.\<close>

partial_function (option) find_free :: "'h fat_env \<Rightarrow> u32 \<Rightarrow> u32 \<Rightarrow> 'h vol \<Rightarrow> ((u32 + u32) \<times> 'h vol) option" where
  "find_free E scl ncl v =
     (let ncl = ncl + 1; wrap = ncl \<ge> n_fatent (fst v); ncl = (if wrap then 2 else ncl)
      in if wrap \<and> ncl > scl then Some (Inl 0, v)
         else let (cs, v) = get_fat E ncl v
         in if cs = 0 then Some (Inr ncl, v)
            else if cs = 0xFFFFFFFF \<or> cs = 1 then Some (Inl cs, v)
            else if ncl = scl then Some (Inl 0, v)
            else find_free E scl ncl v)"

definition count_taken :: "u32 \<Rightarrow> 'h vol \<Rightarrow> 'h vol" where
  "count_taken ncl v =
     (let fs = (fst v)\<lparr>last_clust := ncl\<rparr>
      in (if free_clust fs \<noteq> 0xFFFFFFFF then fs\<lparr>free_clust := free_clust fs - 1, fsi_flag := fsi_flag fs OR 1\<rparr> else fs, snd v))"

definition link_cluster :: "'h fat_env \<Rightarrow> u32 \<Rightarrow> u32 \<Rightarrow> 'h vol \<Rightarrow> u32 \<times> 'h vol" where
  "link_cluster E clst ncl v =
     (let (res, v) = put_fat E ncl 0x0FFFFFFF v;
          (res, v) = (if res = FR_OK \<and> clst \<noteq> 0 then put_fat E clst ncl v else (res, v))
      in if res = FR_OK then (ncl, count_taken ncl v) else (if res = FR_DISK_ERR then 0xFFFFFFFF else 1, v))"

definition create_from :: "'h fat_env \<Rightarrow> u32 \<Rightarrow> u32 \<Rightarrow> 'h vol \<Rightarrow> (u32 \<times> 'h vol) option" where
  "create_from E clst scl v =
     Option.bind (find_free E scl scl v) (\<lambda>(r, v).
       case r of Inl e \<Rightarrow> Some (e, v) | Inr ncl \<Rightarrow> Some (link_cluster E clst ncl v))"

definition create_chain :: "'h fat_env \<Rightarrow> u32 \<Rightarrow> 'h vol \<Rightarrow> (u32 \<times> 'h vol) option" where
  "create_chain E clst v =
     (if clst = 0 then
        let scl = last_clust (fst v); scl = (if scl = 0 \<or> scl \<ge> n_fatent (fst v) then 1 else scl)
        in create_from E clst scl v
      else
        let (cs, v) = get_fat E clst v
        in if cs < 2 then Some (1, v)
           else if cs = 0xFFFFFFFF then Some (cs, v)
           else if cs < n_fatent (fst v) then Some (cs, v)
           else create_from E clst clst v)"

subsection \<open>Chains\<close>

fun chain :: "(u32 \<Rightarrow> u32) \<Rightarrow> u32 \<Rightarrow> u32 \<Rightarrow> u32 list \<Rightarrow> bool" where
  "chain F n c [] = (n \<le> c)"
| "chain F n c (x # xs) = (x = c \<and> 2 \<le> c \<and> c < n \<and> chain F n (F c) xs)"

lemma chain_range: "chain F n c cs \<Longrightarrow> x \<in> set cs \<Longrightarrow> 2 \<le> x \<and> x < n"
  by (induction cs arbitrary: c) auto

lemma chain_unique: "chain F n c xs \<Longrightarrow> chain F n c ys \<Longrightarrow> xs = ys"
proof (induction xs arbitrary: c ys)
  case Nil
  then show ?case by (cases ys) auto
next
  case (Cons x xs)
  then show ?case by (cases ys) auto
qed

lemma chain_suffix: "chain F n c (xs @ y # ys) \<Longrightarrow> chain F n y (y # ys)"
  by (induction xs arbitrary: c) auto

lemma chain_distinct: "chain F n c cs \<Longrightarrow> distinct cs"
proof (induction cs arbitrary: c)
  case (Cons x xs)
  have "x \<notin> set xs"
  proof
    assume "x \<in> set xs"
    then obtain as bs where xs: "xs = as @ x # bs" by (auto simp: in_set_conv_decomp)
    have "chain F n x (x # bs)" using chain_suffix[of F n "F c" as x bs] Cons.prems xs by auto
    moreover have "chain F n x (x # xs)" using Cons.prems by simp
    ultimately have "x # xs = x # bs" using chain_unique by blast
    then have "length xs = length bs" by simp
    then show False using xs by simp
  qed
  then show ?case using Cons by auto
qed simp

lemma chain_cong: "(\<And>x. x \<in> set cs \<Longrightarrow> F x = G x) \<Longrightarrow> chain F n c cs = chain G n c cs"
  by (induction cs arbitrary: c) auto

lemma chain_end: "chain F n c cs \<Longrightarrow> cs \<noteq> [] \<Longrightarrow> n \<le> F (last cs)"
  by (induction cs arbitrary: c) auto

lemma chain_append:
  assumes "chain F n c cs" "cs \<noteq> []" "2 \<le> r" "r < n" "r \<notin> set cs" "n \<le> e"
  shows "chain (F(r := e, last cs := r)) n c (cs @ [r])"
  using assms
proof (induction cs arbitrary: c)
  case (Cons x xs)
  show ?case
  proof (cases "xs = []")
    case True
    then show ?thesis using Cons.prems by simp
  next
    case False
    have d: "x \<notin> set xs" using chain_distinct[OF Cons.prems(1)] by simp
    have "chain (F(r := e, last xs := r)) n (F c) (xs @ [r])" using Cons.prems False by (intro Cons.IH) auto
    moreover have "c \<noteq> last xs" "c \<noteq> r" using d False Cons.prems by auto
    ultimately show ?thesis using Cons.prems False by (simp add: fun_upd_def)
  qed
qed simp

subsection \<open>Changes of the book-keeping\<close>

definition same_layout :: "fatfs \<Rightarrow> fatfs \<Rightarrow> bool" where
  "same_layout fs fs' \<longleftrightarrow> (\<exists>l f g. same_volume (fs\<lparr>last_clust := l, free_clust := f, fsi_flag := g\<rparr>) fs')"

text \<open>What changes at most the table and the book-keeping.\<close>

definition kept_sectors :: "('h \<Rightarrow> nat \<Rightarrow> u8 list) \<Rightarrow> 'h vol \<Rightarrow> 'h vol \<Rightarrow> bool" where
  "kept_sectors blocks v v' \<longleftrightarrow> same_layout (fst v) (fst v')
     \<and> (\<forall>k. k < unat (fatbase (fst v)) \<or> unat (fatbase (fst v)) + unat (n_fats (fst v)) * unat (fsize (fst v)) \<le> k \<longrightarrow>
          view blocks v' k = view blocks v k)"

lemma same_layoutD:
  assumes "same_layout fs fs'"
  shows "fs_type fs' = fs_type fs" "drv fs' = drv fs" "csize fs' = csize fs" "n_fats fs' = n_fats fs"
    "n_fatent fs' = n_fatent fs" "fsize fs' = fsize fs" "fatbase fs' = fatbase fs" "database fs' = database fs"
    "dirbase fs' = dirbase fs" "n_rootdir fs' = n_rootdir fs" "fs_id fs' = fs_id fs" "volbase fs' = volbase fs"
  using assms by (auto simp: same_layout_def dest: same_volumeD)

lemma same_layout_if: "same_volume fs fs' \<Longrightarrow> same_layout fs fs'"
  unfolding same_layout_def
  by (rule exI[of _ "last_clust fs"], rule exI[of _ "free_clust fs"], rule exI[of _ "fsi_flag fs"]) simp

lemma same_layout_book: "same_layout fs (fs\<lparr>last_clust := l, free_clust := f, fsi_flag := g\<rparr>)"
  unfolding same_layout_def by (rule exI[of _ l], rule exI[of _ f], rule exI[of _ g]) simp

lemma same_layout_trans: "same_layout a b \<Longrightarrow> same_layout b c \<Longrightarrow> same_layout a c"
  unfolding same_layout_def same_volume_def by force

lemma kept_sectors_if: "kept_data blocks v v' \<Longrightarrow> kept_sectors blocks v v'"
  by (simp add: kept_data_def kept_sectors_def same_layout_if)

lemma kept_sectors_trans: "kept_sectors blocks a b \<Longrightarrow> kept_sectors blocks b c \<Longrightarrow> kept_sectors blocks a c"
  by (auto simp: kept_sectors_def same_layoutD intro: same_layout_trans)

definition book :: "u32 \<Rightarrow> u32 \<Rightarrow> u8 \<Rightarrow> 'h vol \<Rightarrow> 'h vol" where
  "book l f g v = ((fst v)\<lparr>last_clust := l, free_clust := f, fsi_flag := g\<rparr>, snd v)"

lemma book_keeps [simp]:
  "coherent blocks (book l f g v) = coherent blocks v" "fat_byte blocks (book l f g v) = fat_byte blocks v"
  "kept_sectors blocks v (book l f g v)" "n_fatent (fst (book l f g v)) = n_fatent (fst v)"
  "fs_type (fst (book l f g v)) = fs_type (fst v)" "last_clust (fst (book l f g v)) = l" "free_clust (fst (book l f g v)) = f"
  by (simp_all add: book_def coherent_def geometry_def mirror_def fat_byte_def view_def kept_sectors_def
      same_layout_book fun_eq_iff)

lemma book_fat_of [simp]: "fat_of blocks (book l f g v) = fat_of blocks v"
  by (simp add: fun_eq_iff fat_of_def)

lemma book_same [simp]: "book (last_clust (fst v)) (free_clust (fst v)) (fsi_flag (fst v)) v = v"
  by (cases v) (simp add: book_def)

lemma count_freed_book:
  "count_freed v = (if free_clust (fst v) = 0xFFFFFFFF then v
     else book (last_clust (fst v)) (free_clust (fst v) + 1) (fsi_flag (fst v) OR 1) v)"
  by (cases v) (simp add: count_freed_def book_def)

lemma count_taken_book:
  "count_taken ncl v = (if free_clust (fst v) = 0xFFFFFFFF then book ncl (free_clust (fst v)) (fsi_flag (fst v)) v
     else book ncl (free_clust (fst v) - 1) (fsi_flag (fst v) OR 1) v)"
  by (cases v) (simp add: count_taken_def book_def Let_def)

lemma kept_sectors_refl [simp]: "kept_sectors blocks v v"
  by (simp add: kept_sectors_if)

lemma word_ge_2: "(x :: u32) \<noteq> 0 \<Longrightarrow> x \<noteq> 1 \<Longrightarrow> 2 \<le> x"
  by (simp add: word_le_nat_alt word_unat_eq_iff)

text \<open>The count of free clusters after \<open>n\<close> were freed; an unknown count stays unknown.\<close>

fun freed_count :: "u32 \<Rightarrow> nat \<Rightarrow> u32" where
  "freed_count f 0 = f"
| "freed_count f (Suc n) = freed_count (if f = 0xFFFFFFFF then f else f + 1) n"

definition kept_table :: "('h \<Rightarrow> nat \<Rightarrow> u8 list) \<Rightarrow> 'h vol \<Rightarrow> 'h vol \<Rightarrow> bool" where
  "kept_table blocks v v' \<longleftrightarrow> coherent blocks v' \<and> kept_sectors blocks v v' \<and> same_volume (fst v) (fst v')
     \<and> (\<forall>c. 2 \<le> c \<and> c < n_fatent (fst v) \<longrightarrow> fat_of blocks v' c = fat_of blocks v c)"

lemma kept_table_refl: "coherent blocks v \<Longrightarrow> kept_table blocks v v"
  by (simp add: kept_table_def)

lemma kept_table_trans: "kept_table blocks a b \<Longrightarrow> kept_table blocks b c \<Longrightarrow> kept_table blocks a c"
  using same_volumeD(5)[of "fst a" "fst b"] unfolding kept_table_def
  by (auto intro: kept_sectors_trans same_volume_trans)

text \<open>The clusters the search has looked at, and what it finds.\<close>

definition seen :: "u32 \<Rightarrow> u32 \<Rightarrow> u32 \<Rightarrow> bool" where
  "seen scl ncl c \<longleftrightarrow> (if scl \<le> ncl then scl < c \<and> c \<le> ncl else scl < c \<or> c \<le> ncl)"

definition search_found :: "('h \<Rightarrow> nat \<Rightarrow> u8 list) \<Rightarrow> 'h vol \<Rightarrow> (u32 + u32) \<Rightarrow> 'h vol \<Rightarrow> bool" where
  "search_found blocks v r v' \<longleftrightarrow> (case r of
      Inr x \<Rightarrow> kept_table blocks v v' \<and> 2 \<le> x \<and> x < n_fatent (fst v) \<and> fat_of blocks v x = 0
    | Inl e \<Rightarrow> e = 0xFFFFFFFF \<or> e = 0 \<and> kept_table blocks v v' \<and> (\<forall>c. 2 \<le> c \<and> c < n_fatent (fst v) \<longrightarrow> fat_of blocks v c \<noteq> 0)
        \<or> e = 1 \<and> (\<exists>c. 2 \<le> c \<and> c < n_fatent (fst v) \<and> fat_of blocks v c = 1))"

lemma search_found_step: "kept_table blocks v v1 \<Longrightarrow> search_found blocks v1 r v' \<Longrightarrow> search_found blocks v r v'"
  using same_volumeD(5)[of "fst v" "fst v1"] kept_table_trans[of blocks v v1 v']
  by (auto simp: search_found_def kept_table_def split: sum.splits)

lemma next_candidate:
  assumes "1 \<le> ncl" "ncl < n" "(n :: u32) < 0x80000000" "1 \<le> scl" "scl < n"
    and "x = (if ncl + 1 \<ge> n then 2 else ncl + 1)" "\<not> (ncl + 1 \<ge> n \<and> x > scl)"
  shows "2 \<le> x" "x < n" "seen scl x c \<Longrightarrow> x \<noteq> scl \<Longrightarrow> 2 \<le> c \<Longrightarrow> c < n \<Longrightarrow> seen scl ncl c \<or> c = x"
    "x = scl \<Longrightarrow> 2 \<le> c \<Longrightarrow> c < n \<Longrightarrow> seen scl ncl c \<or> c = x"
proof -
  have u: "unat (ncl + 1) = unat ncl + 1" using assms(2,3) by (simp add: unat_word_ariths word_less_nat_alt)
  have x: "unat x = (if unat ncl + 1 \<ge> unat n then 2 else unat ncl + 1)" using assms(6) u by (auto simp: word_le_nat_alt)
  note w = word_less_nat_alt word_le_nat_alt word_unat_eq_iff
  show "2 \<le> x" "x < n" using assms(1-5,7) x u by (auto simp: w split: if_splits)
  show "seen scl x c \<Longrightarrow> x \<noteq> scl \<Longrightarrow> 2 \<le> c \<Longrightarrow> c < n \<Longrightarrow> seen scl ncl c \<or> c = x"
    using assms(1-5,7) x u by (auto simp: w seen_def split: if_splits)
  show "x = scl \<Longrightarrow> 2 \<le> c \<Longrightarrow> c < n \<Longrightarrow> seen scl ncl c \<or> c = x"
    using assms(1-5,7) x u by (auto simp: w seen_def split: if_splits)
qed

lemma wrapped:
  assumes "ncl < n" "(n :: u32) < 0x80000000" "ncl + 1 \<ge> n" "2 > scl" "1 \<le> scl" "2 \<le> c" "c < n"
  shows "seen scl ncl c"
proof -
  have "unat (ncl + 1) = unat ncl + 1" using assms(1,2) by (simp add: unat_word_ariths word_less_nat_alt)
  then show ?thesis using assms by (auto simp: word_less_nat_alt word_le_nat_alt seen_def)
qed

lemma search_measure:
  assumes "1 \<le> ncl" "ncl < n" "(n :: u32) < 0x80000000" "x = (if ncl + 1 \<ge> n then 2 else ncl + 1)"
    and "\<not> (ncl + 1 \<ge> n \<and> x > scl)" "x \<noteq> scl" "scl < n"
  shows "(if scl \<le> x then unat n - unat x + unat scl else unat scl - unat x)
    < (if scl \<le> ncl then unat n - unat ncl + unat scl else unat scl - unat ncl)"
proof -
  have u: "unat (ncl + 1) = unat ncl + 1" using assms(2,3) by (simp add: unat_word_ariths word_less_nat_alt)
  have x: "unat x = (if unat ncl + 1 \<ge> unat n then 2 else unat ncl + 1)" using assms(4) u by (auto simp: word_le_nat_alt)
  show ?thesis using assms(1,2,5-7) x u by (auto simp: word_less_nat_alt word_le_nat_alt word_unat_eq_iff split: if_splits)
qed

lemma le_mask: "unat (x :: u32) < 2 ^ k \<Longrightarrow> x AND mask k = x"
  by (simp add: take_bit_eq_mask[symmetric] word_unat_eq_iff unsigned_take_bit_eq take_bit_nat_eq_self)

lemma in_mask: "x \<le> entry_mask t \<Longrightarrow> x AND entry_mask t = x"
  using le_mask[of x 12] le_mask[of x 16] le_mask[of x 28]
  by (simp add: entry_mask_def mask_eq_exp_minus_1 word_le_nat_alt split: if_splits)

lemma count_taken_keeps: "kept_sectors blocks v (count_taken x v)"
  by (simp add: count_taken_book)

definition appended :: "('h \<Rightarrow> nat \<Rightarrow> u8 list) \<Rightarrow> u32 \<Rightarrow> u32 \<Rightarrow> 'h vol \<Rightarrow> 'h vol \<Rightarrow> bool" where
  "appended blocks clst r v v' \<longleftrightarrow> 2 \<le> r \<and> r < n_fatent (fst v) \<and> fat_of blocks v r = 0
     \<and> coherent blocks v' \<and> kept_sectors blocks v v' \<and> last_clust (fst v') = r
     \<and> free_clust (fst v') = (if free_clust (fst v) = 0xFFFFFFFF then free_clust (fst v) else free_clust (fst v) - 1)
     \<and> (\<forall>c. 2 \<le> c \<and> c < n_fatent (fst v) \<longrightarrow> fat_of blocks v' c =
          (if clst \<noteq> 0 \<and> c = clst then r else if c = r then entry_mask (fs_type (fst v)) else fat_of blocks v c))"

lemma chain_nonzero: "chain F n c cs \<Longrightarrow> x \<in> set cs \<Longrightarrow> F x \<noteq> 0"
proof (induction cs arbitrary: c)
  case (Cons y cs)
  then show ?case by (cases cs) (auto simp: word_le_nat_alt word_less_nat_alt)
qed simp

context sector_disk
begin

lemma count_freed_keeps:
  "coherent blocks (count_freed v) = coherent blocks v" "fat_of blocks (count_freed v) = fat_of blocks v"
  "kept_sectors blocks v (count_freed v)" "n_fatent (fst (count_freed v)) = n_fatent (fst v)"
  by (simp_all add: count_freed_book)

lemma put_spec:
  assumes "coherent blocks v" "2 \<le> clst" "clst < n_fatent (fst v)" "put_fat E clst val v = (FR_OK, v')"
  shows "coherent blocks v'" "kept_sectors blocks v v'" "same_volume (fst v) (fst v')"
    "2 \<le> c \<Longrightarrow> c < n_fatent (fst v) \<Longrightarrow>
       fat_of blocks v' c = (if c = clst then val AND entry_mask (fs_type (fst v)) else fat_of blocks v c)"
proof -
  note st = put_fat_spec[OF assms]
  show "coherent blocks v'" "same_volume (fst v) (fst v')" using st by (simp_all add: stored_def kept_data_def)
  show "kept_sectors blocks v v'" using st by (intro kept_sectors_if) (simp add: stored_def)
  show "2 \<le> c \<Longrightarrow> c < n_fatent (fst v) \<Longrightarrow>
       fat_of blocks v' c = (if c = clst then val AND entry_mask (fs_type (fst v)) else fat_of blocks v c)"
    using fat_of_stored[OF assms(1) _ _ st] by simp
qed

lemma get_spec:
  assumes "coherent blocks v" "2 \<le> clst" "clst < n_fatent (fst v)" "get_fat E clst v = (r, v')" "r \<noteq> 0xFFFFFFFF"
  shows "r = fat_of blocks v clst" "coherent blocks v'" "kept_sectors blocks v v'" "same_volume (fst v) (fst v')"
    "2 \<le> c \<Longrightarrow> c < n_fatent (fst v) \<Longrightarrow> fat_of blocks v' c = fat_of blocks v c"
proof -
  note st = get_fat_spec[OF assms]
  show "r = fat_of blocks v clst" "coherent blocks v'" using st unfolding fat_of_def by blast+
  show "same_volume (fst v) (fst v')" using st unfolding kept_def by blast
  show "kept_sectors blocks v v'" using st by (blast intro: kept_sectors_if kept_data_if)
  show "2 \<le> c \<Longrightarrow> c < n_fatent (fst v) \<Longrightarrow> fat_of blocks v' c = fat_of blocks v c"
    using fat_of_kept[OF assms(1), of c v'] st by blast
qed

lemma remove_loop_ok:
  assumes "chain (fat_of blocks v) (n_fatent (fst v)) c cs" "coherent blocks v"
    and "remove_chain_loop E c FR_OK v = Some (FR_OK, v')"
  shows "coherent blocks v' \<and> kept_sectors blocks v v'
    \<and> (\<forall>x. 2 \<le> x \<and> x < n_fatent (fst v) \<longrightarrow> fat_of blocks v' x = (if x \<in> set cs then 0 else fat_of blocks v x))
    \<and> free_clust (fst v') = freed_count (free_clust (fst v)) (length cs)"
  using assms
proof (induction cs arbitrary: c v)
  case Nil
  then have "\<not> c < n_fatent (fst v)" by (simp add: not_less)
  then show ?case using Nil by (simp add: remove_chain_loop.simps[of E c])
next
  case (Cons x cs)
  then have c: "x = c" "2 \<le> c" "c < n_fatent (fst v)" by simp_all
  obtain nxt v1 where g: "get_fat E c v = (nxt, v1)" by (cases "get_fat E c v")
  from Cons.prems(3) c(3) g obtain v2 where nx: "nxt \<noteq> 0xFFFFFFFF" "nxt \<noteq> 0 \<longrightarrow> put_fat E c 0 v1 = (FR_OK, v2)"
    and r: "nxt \<noteq> 0 \<longrightarrow> remove_chain_loop E nxt FR_OK (count_freed v2) = Some (FR_OK, v')"
    by (subst (asm) remove_chain_loop.simps) (auto split: if_splits prod.splits)
  note gs = get_spec[OF Cons.prems(2) c(2,3) g nx(1)]
  have n0: "nxt \<noteq> 0" using Cons.prems(1) gs(1) by (cases cs) (auto simp: not_le[symmetric] dest: chain_range)
  have c1: "c < n_fatent (fst v1)" using c(3) same_volumeD(5)[OF gs(4)] by simp
  note ps = put_spec[OF gs(2) c(2) c1 mp[OF nx(2) n0]]
  have n2: "n_fatent (fst v2) = n_fatent (fst v)" using same_volumeD(5)[OF gs(4)] same_volumeD(5)[OF ps(3)] by simp
  have f2: "fat_of blocks v2 y = (if y = c then 0 else fat_of blocks v y)" if "2 \<le> y" "y < n_fatent (fst v)" for y
    using ps(4)[OF that(1)] gs(5)[OF that] that same_volumeD(5)[OF gs(4)] by simp
  let ?v2 = "count_freed v2"
  have cn: "c \<notin> set cs" using chain_distinct[OF Cons.prems(1)] c(1) by simp
  have "chain (fat_of blocks v) (n_fatent (fst v)) nxt cs" using Cons.prems(1) gs(1) by simp
  then have "chain (fat_of blocks ?v2) (n_fatent (fst ?v2)) nxt cs"
    using chain_range f2 cn by (subst chain_cong[of cs _ "fat_of blocks v"]) (auto simp: count_freed_keeps n2)
  from Cons.IH[OF this _ mp[OF r n0]] ps(1)
  have ih: "coherent blocks v' \<and> kept_sectors blocks ?v2 v'
    \<and> (\<forall>x. 2 \<le> x \<and> x < n_fatent (fst v) \<longrightarrow> fat_of blocks v' x = (if x \<in> set cs then 0 else fat_of blocks v2 x))
    \<and> free_clust (fst v') = freed_count (free_clust (fst ?v2)) (length cs)"
    by (simp add: count_freed_keeps n2)
  have "kept_sectors blocks v v'"
    using kept_sectors_trans[OF gs(3)] kept_sectors_trans[OF ps(2)] kept_sectors_trans[OF count_freed_keeps(3)] ih by blast
  moreover have "free_clust (fst ?v2) = (if free_clust (fst v) = 0xFFFFFFFF then free_clust (fst v) else free_clust (fst v) + 1)"
    using same_volumeD(12)[OF gs(4)] same_volumeD(12)[OF ps(3)] by (simp add: count_freed_book)
  ultimately show ?case using ih f2 c(1) by auto
qed

lemma free_entries_finite: "finite {c :: u32. 2 \<le> c \<and> c < n \<and> P c}"
  by simp

lemma remove_loop_works:
  assumes "chain (fat_of blocks v) (n_fatent (fst v)) c cs" "coherent blocks v" "never_fails E" "drv (fst v) = SDC"
  shows "\<exists>v'. remove_chain_loop E c FR_OK v = Some (FR_OK, v')"
  using assms
proof (induction cs arbitrary: c v)
  case Nil
  then have "\<not> c < n_fatent (fst v)" by (simp add: not_less)
  then show ?case by (subst remove_chain_loop.simps) (simp, metis surj_pair)
next
  case (Cons x cs)
  then have c: "2 \<le> c" "c < n_fatent (fst v)" by simp_all
  have t: "fat_type (fs_type (fst v))" using Cons.prems(2) by (simp add: coherent_def geometryD)
  obtain nxt v1 where g: "get_fat E c v = (nxt, v1)" by (cases "get_fat E c v")
  have nx: "nxt \<noteq> 0xFFFFFFFF" using get_fat_works[OF Cons.prems(3,4) t, of c] g by simp
  note gs = get_spec[OF Cons.prems(2) c g nx]
  note sv = same_volumeD[OF gs(4)]
  have c1: "c < n_fatent (fst v1)" using c(2) sv by simp
  obtain v2 where p: "put_fat E c 0 v1 = (FR_OK, v2)"
    using put_fat_works[OF Cons.prems(3) _ _ c(1) c1, of 0] Cons.prems(4) t sv by (metis fst_conv surj_pair)
  note ps = put_spec[OF gs(2) c(1) c1 p]
  have n2: "n_fatent (fst v2) = n_fatent (fst v)" "drv (fst v2) = SDC"
    using sv same_volumeD[OF ps(3)] Cons.prems(4) by simp_all
  have f2: "fat_of blocks v2 y = (if y = c then 0 else fat_of blocks v y)" if "2 \<le> y" "y < n_fatent (fst v)" for y
    using ps(4)[OF that(1)] gs(5)[OF that] that sv by simp
  have cn: "c \<notin> set cs" using chain_distinct[OF Cons.prems(1)] Cons.prems(1) by simp
  have ch: "chain (fat_of blocks v) (n_fatent (fst v)) nxt cs" using Cons.prems(1) gs(1) by simp
  then have "chain (fat_of blocks (count_freed v2)) (n_fatent (fst (count_freed v2))) nxt cs"
    using chain_range f2 cn by (subst chain_cong[of cs _ "fat_of blocks v"]) (auto simp: count_freed_keeps n2)
  moreover have "drv (fst (count_freed v2)) = SDC" using n2(2) by (simp add: count_freed_book book_def)
  ultimately obtain v' where "remove_chain_loop E nxt FR_OK (count_freed v2) = Some (FR_OK, v')"
    using Cons.IH[of "count_freed v2" nxt] ps(1) Cons.prems(3) by (auto simp: count_freed_keeps)
  moreover have "2 \<le> nxt"
    using ch c by (cases cs) (auto intro: order_trans[OF _ order_trans[OF less_imp_le]])
  then have "nxt \<noteq> 0" "nxt \<noteq> 1" by (auto simp: word_le_nat_alt)
  ultimately have "remove_chain_loop E c FR_OK v = Some (FR_OK, v')"
    using g p c nx by (subst remove_chain_loop.simps) simp
  then show ?case by blast
qed

text \<open>Whatever is in the table, the loop ends: every round clears an entry that was not clear.\<close>

lemma remove_loop_ends:
  assumes "coherent blocks v" "c < n_fatent (fst v) \<longrightarrow> 2 \<le> c"
  shows "remove_chain_loop E c r v \<noteq> None"
  using assms
proof (induction "card {c. 2 \<le> c \<and> c < n_fatent (fst v) \<and> fat_of blocks v c \<noteq> 0}" arbitrary: c r v rule: less_induct)
  case less
  show ?case
  proof (cases "c < n_fatent (fst v)")
    case False
    then show ?thesis by (subst remove_chain_loop.simps) simp
  next
    case True
    then have c: "2 \<le> c" "c < n_fatent (fst v)" using less.prems by simp_all
    obtain nxt v1 where g: "get_fat E c v = (nxt, v1)" by (cases "get_fat E c v")
    obtain r2 v2 where p: "put_fat E c 0 v1 = (r2, v2)" by (cases "put_fat E c 0 v1")
    show ?thesis
    proof (cases "nxt \<noteq> 0 \<and> nxt \<noteq> 1 \<and> nxt \<noteq> 0xFFFFFFFF \<and> r2 = FR_OK")
      case False
      then show ?thesis using g p c by (cases v1; cases v2) (subst remove_chain_loop.simps, auto)
    next
      case True
      note gs = get_spec[OF less.prems(1) c g conjunct1[OF conjunct2[OF conjunct2[OF True]]]]
      have c1: "c < n_fatent (fst v1)" using c(2) same_volumeD(5)[OF gs(4)] by simp
      have p': "put_fat E c 0 v1 = (FR_OK, v2)" using p True by simp
      note ps = put_spec[OF gs(2) c(1) c1 p']
      let ?v2 = "count_freed v2"
      have n2: "n_fatent (fst ?v2) = n_fatent (fst v)"
        using same_volumeD(5)[OF gs(4)] same_volumeD(5)[OF ps(3)] by (simp add: count_freed_keeps)
      have f2: "fat_of blocks ?v2 y = (if y = c then 0 else fat_of blocks v y)" if "2 \<le> y" "y < n_fatent (fst v)" for y
        using ps(4)[OF that(1)] gs(5)[OF that] that same_volumeD(5)[OF gs(4)] by (simp add: count_freed_keeps)
      let ?A = "\<lambda>v. {y. 2 \<le> y \<and> y < n_fatent (fst v) \<and> fat_of blocks v y \<noteq> 0}"
      have "c \<in> ?A v" using c True gs(1) by simp
      moreover have "?A ?v2 \<subseteq> ?A v - {c}"
      proof
        fix y
        assume "y \<in> ?A ?v2"
        then have "2 \<le> y" "y < n_fatent (fst v)" "fat_of blocks ?v2 y \<noteq> 0" using n2 by simp_all
        then show "y \<in> ?A v - {c}" using f2[of y] by (simp split: if_splits)
      qed
      ultimately have m: "card (?A ?v2) < card (?A v)" by (intro psubset_card_mono) auto
      have "2 \<le> nxt" using True by (blast intro: word_ge_2)
      then have "remove_chain_loop E nxt r2 ?v2 \<noteq> None"
        using less.hyps[OF m] ps(1) by (auto simp: count_freed_keeps)
      then show ?thesis using g p c True by (subst remove_chain_loop.simps) simp
    qed
  qed
qed

lemma get_kept:
  assumes "coherent blocks v" "2 \<le> clst" "clst < n_fatent (fst v)" "get_fat E clst v = (r, v')" "r \<noteq> 0xFFFFFFFF"
  shows "kept_table blocks v v' \<and> r = fat_of blocks v clst"
  using get_spec[OF assms] by (simp add: kept_table_def)

lemma find_free_ok:
  assumes "coherent blocks v" "1 \<le> scl" "scl < n_fatent (fst v)" "1 \<le> ncl" "ncl < n_fatent (fst v)"
    and "\<And>c. 2 \<le> c \<Longrightarrow> c < n_fatent (fst v) \<Longrightarrow> seen scl ncl c \<Longrightarrow> fat_of blocks v c \<noteq> 0"
  shows "\<exists>r v'. find_free E scl ncl v = Some (r, v') \<and> search_found blocks v r v'
    \<and> (r = Inl 0xFFFFFFFF \<longrightarrow> \<not> (never_fails E \<and> drv (fst v) = SDC))"
  using assms
proof (induction "if scl \<le> ncl then unat (n_fatent (fst v)) - unat ncl + unat scl else unat scl - unat ncl"
    arbitrary: ncl v rule: less_induct)
  case less
  let ?n = "n_fatent (fst v)"
  have "geometry (fst v)" using less.prems(1) by (simp add: coherent_def)
  then have n: "?n < 0x80000000" using geometryD(3)[of "fst v"] by (simp add: word_less_nat_alt)
  define x where "x = (if ncl + 1 \<ge> ?n then 2 else ncl + 1)"
  note unf = find_free.simps[of E scl ncl v, unfolded Let_def, folded x_def]
  show ?case
  proof (cases "ncl + 1 \<ge> ?n \<and> x > scl")
    case True
    then have "fat_of blocks v c \<noteq> 0" if "2 \<le> c" "c < ?n" for c
      using wrapped[OF less.prems(5) n _ _ less.prems(2) that] less.prems(6)[OF that] by (auto simp: x_def split: if_splits)
    then show ?thesis using True kept_table_refl[OF less.prems(1)] by (simp add: unf search_found_def)
  next
    case False
    note nx = next_candidate[OF less.prems(4,5) n less.prems(2,3) x_def False]
    obtain cs v1 where g: "get_fat E x v = (cs, v1)" by (cases "get_fat E x v")
    have u: "find_free E scl ncl v = (if cs = 0 then Some (Inr x, v1)
        else if cs = 0xFFFFFFFF \<or> cs = 1 then Some (Inl cs, v1)
        else if x = scl then Some (Inl 0, v1) else find_free E scl x v1)"
      unfolding unf if_not_P[OF False] g by simp
    show ?thesis
    proof (cases "cs = 0xFFFFFFFF")
      case True
      have "fat_type (fs_type (fst v))" using less.prems(1) by (simp add: coherent_def geometryD)
      then have "\<not> (never_fails E \<and> drv (fst v) = SDC)" using get_fat_works[of E v x] g True by auto
      then show ?thesis using True by (simp add: u search_found_def)
    next
      case nd: False
      have k: "kept_table blocks v v1" "cs = fat_of blocks v x" using get_kept[OF less.prems(1) nx(1,2) g nd] by auto
      consider "cs = 0" | "cs = 1" | "cs \<noteq> 0" "cs \<noteq> 1" "x = scl" | "cs \<noteq> 0" "cs \<noteq> 1" "x \<noteq> scl" by blast
      then show ?thesis
      proof cases
        case 3
        then show ?thesis using nd k nx less.prems(6) by (auto simp: u search_found_def)
      next
        case 4
        have sv: "n_fatent (fst v1) = ?n" using k(1) same_volumeD(5) by (auto simp: kept_table_def)
        have s: "fat_of blocks v1 c \<noteq> 0" if "2 \<le> c" "c < n_fatent (fst v1)" "seen scl x c" for c
          using nx(3)[OF that(3) 4(3)] that sv k 4(1) less.prems(6)[of c] by (auto simp: kept_table_def)
        have m: "(if scl \<le> x then unat (n_fatent (fst v1)) - unat x + unat scl else unat scl - unat x)
            < (if scl \<le> ncl then unat ?n - unat ncl + unat scl else unat scl - unat ncl)"
          unfolding sv using search_measure[OF less.prems(4,5) n x_def False 4(3) less.prems(3)] by (simp add: word_le_nat_alt)
        have x1: "1 \<le> x" using nx(1) by (simp add: word_le_nat_alt)
        have "coherent blocks v1" "drv (fst v1) = drv (fst v)" using k(1) by (auto simp: kept_table_def same_volumeD)
        with less.hyps[OF m _ less.prems(2) _ x1 _ s] less.prems(3) nx(2) sv
        obtain r v' where "find_free E scl x v1 = Some (r, v')" "search_found blocks v1 r v'"
          "r = Inl 0xFFFFFFFF \<longrightarrow> \<not> (never_fails E \<and> drv (fst v) = SDC)" by auto
        then show ?thesis using 4 nd search_found_step[OF k(1)] by (simp add: u)
      qed (use k nx nd in \<open>auto simp: u search_found_def\<close>)
    qed
  qed
qed


lemma put_kept:
  assumes "coherent blocks v" "2 \<le> clst" "clst < n_fatent (fst v)" "put_fat E clst val v = (FR_OK, v')"
    and "val AND entry_mask (fs_type (fst v)) = w"
  shows "coherent blocks v'" "kept_sectors blocks v v'" "same_volume (fst v) (fst v')"
    "2 \<le> c \<Longrightarrow> c < n_fatent (fst v) \<Longrightarrow> fat_of blocks v' c = (if c = clst then w else fat_of blocks v c)"
  using put_spec[OF assms(1-4)] assms(5) by blast+

lemma link_cluster_ok:
  assumes "coherent blocks v" "2 \<le> ncl" "ncl < n_fatent (fst v)" "clst = 0 \<or> 2 \<le> clst \<and> clst < n_fatent (fst v)"
    and "link_cluster E clst ncl v = (r, v')" "2 \<le> r" "r \<noteq> 0xFFFFFFFF"
  shows "r = ncl \<and> coherent blocks v' \<and> kept_sectors blocks v v' \<and> n_fatent (fst v') = n_fatent (fst v) \<and> last_clust (fst v') = ncl
    \<and> free_clust (fst v') = (if free_clust (fst v) = 0xFFFFFFFF then free_clust (fst v) else free_clust (fst v) - 1)
    \<and> (\<forall>c. 2 \<le> c \<and> c < n_fatent (fst v) \<longrightarrow> fat_of blocks v' c =
          (if clst \<noteq> 0 \<and> c = clst then ncl else if c = ncl then entry_mask (fs_type (fst v)) else fat_of blocks v c))"
proof -
  have g: "geometry (fst v)" using assms(1) by (simp add: coherent_def)
  have m: "0x0FFFFFFF AND entry_mask (fs_type (fst v)) = entry_mask (fs_type (fst v))" by (simp add: entry_mask_def)
  have nm: "ncl AND entry_mask (fs_type (fst v)) = ncl"
    using in_mask[of ncl "fs_type (fst v)"] assms(3) geometryD(7)[OF g] by simp
  obtain r1 v1 where r1: "put_fat E ncl 0x0FFFFFFF v = (r1, v1)" by (cases "put_fat E ncl 0x0FFFFFFF v")
  obtain r2 v2 where r2: "put_fat E clst ncl v1 = (r2, v2)" by (cases "put_fat E clst ncl v1")
  have f: "r \<noteq> 1" using assms(6) by (auto simp: word_le_nat_alt)
  have p1: "put_fat E ncl 0x0FFFFFFF v = (FR_OK, v1)"
    using assms(5,7) f r1 by (cases "r1 = FR_OK") (simp_all add: link_cluster_def split: if_splits)
  then have r: "r = ncl" and l: "if clst \<noteq> 0 then put_fat E clst ncl v1 = (FR_OK, v2) \<and> v' = count_taken ncl v2 else v' = count_taken ncl v1"
    using assms(5,7) f r2 by (cases "clst = 0"; cases "r2 = FR_OK"; simp add: link_cluster_def split: if_splits)+
  note k1 = put_kept[OF assms(1-3) p1 m]
  show ?thesis
  proof (cases "clst = 0")
    case True
    have "kept_sectors blocks v (count_taken ncl v1)" by (rule kept_sectors_trans[OF k1(2) count_taken_keeps])
    then show ?thesis using True k1(1,4) l r same_volumeD(5,12)[OF k1(3)] by (simp add: count_taken_book)
  next
    case False
    then have v2: "put_fat E clst ncl v1 = (FR_OK, v2)" "v' = count_taken ncl v2" using l by simp_all
    have c: "2 \<le> clst" "clst < n_fatent (fst v1)" using False assms(4) same_volumeD(5)[OF k1(3)] by auto
    have nm1: "ncl AND entry_mask (fs_type (fst v1)) = ncl" using nm same_volumeD(1)[OF k1(3)] by simp
    note k2 = put_kept[OF k1(1) c v2(1) nm1]
    note sv2 = same_volume_trans[OF k1(3) k2(3)]
    have ks: "kept_sectors blocks v v'"
      unfolding v2(2) by (rule kept_sectors_trans[OF kept_sectors_trans[OF k1(2) k2(2)] count_taken_keeps])
    have "fat_of blocks v2 x = (if x = clst then ncl else if x = ncl then entry_mask (fs_type (fst v)) else fat_of blocks v x)"
      if "2 \<le> x" "x < n_fatent (fst v)" for x using k1(4) k2(4) that same_volumeD(5)[OF k1(3)] by simp
    then show ?thesis using False r k2(1) ks same_volumeD(5,12)[OF sv2] by (simp add: v2(2) count_taken_book)
  qed
qed

lemma link_cluster_works:
  assumes "coherent blocks v" "2 \<le> ncl" "ncl < n_fatent (fst v)" "clst = 0 \<or> 2 \<le> clst \<and> clst < n_fatent (fst v)"
    and "never_fails E" "drv (fst v) = SDC"
  shows "fst (link_cluster E clst ncl v) = ncl"
proof -
  have t: "fat_type (fs_type (fst v))" using assms(1) by (simp add: coherent_def geometryD)
  obtain v1 where p1: "put_fat E ncl 0x0FFFFFFF v = (FR_OK, v1)"
    using put_fat_works[OF assms(5,6) t assms(2,3)] by (metis fst_conv surj_pair)
  note k1 = put_spec[OF assms(1-3) p1]
  have "fst (put_fat E clst ncl v1) = FR_OK" if "clst \<noteq> 0"
    using put_fat_works[OF assms(5), of v1 clst ncl] that assms(4,6) t same_volumeD[OF k1(3)] by simp
  then show ?thesis using p1 by (cases "clst = 0") (auto simp: link_cluster_def Let_def split_beta)
qed

lemma appended_step:
  assumes "kept_table blocks v v1" "appended blocks clst r v1 v'"
  shows "appended blocks clst r v v'"
proof -
  have sv: "same_volume (fst v) (fst v1)" using assms(1) by (simp add: kept_table_def)
  have "kept_sectors blocks v v'"
    using assms kept_sectors_trans[of blocks v v1 v'] by (simp add: kept_table_def appended_def)
  moreover have "fat_of blocks v1 x = fat_of blocks v x" if "2 \<le> x" "x < n_fatent (fst v)" for x
    using assms(1) that by (simp add: kept_table_def)
  moreover from this[of r] have "fat_of blocks v r = 0" using assms(2) same_volumeD(5)[OF sv] by (simp add: appended_def)
  ultimately show ?thesis using assms(2) same_volumeD(1,5,12)[OF sv] by (simp add: appended_def)
qed

lemma create_from_ok:
  assumes "coherent blocks v" "1 \<le> scl" "scl < n_fatent (fst v)" "clst = 0 \<or> 2 \<le> clst \<and> clst < n_fatent (fst v)"
  shows "\<exists>r v'. create_from E clst scl v = Some (r, v')
    \<and> (r = 0 \<longrightarrow> kept_table blocks v v' \<and> (\<forall>c. 2 \<le> c \<and> c < n_fatent (fst v) \<longrightarrow> fat_of blocks v c \<noteq> 0))
    \<and> (2 \<le> r \<and> r \<noteq> 0xFFFFFFFF \<longrightarrow> appended blocks clst r v v')
    \<and> (never_fails E \<and> drv (fst v) = SDC \<longrightarrow> r \<noteq> 0xFFFFFFFF
        \<and> (r = 1 \<longrightarrow> (\<exists>c. 2 \<le> c \<and> c < n_fatent (fst v) \<and> fat_of blocks v c = 1)))"
proof -
  have "\<not> seen scl scl c" for c by (auto simp: seen_def)
  then obtain x v1 where f: "find_free E scl scl v = Some (x, v1)" "search_found blocks v x v1"
    and w: "x = Inl 0xFFFFFFFF \<longrightarrow> \<not> (never_fails E \<and> drv (fst v) = SDC)"
    using find_free_ok[OF assms(1,2,3,2,3)] by blast
  show ?thesis
  proof (cases x)
    case (Inl e)
    then show ?thesis using f w by (auto simp: create_from_def search_found_def word_le_nat_alt)
  next
    case (Inr ncl)
    obtain r v' where l: "link_cluster E clst ncl v1 = (r, v')" by (cases "link_cluster E clst ncl v1")
    have k: "kept_table blocks v v1" "2 \<le> ncl" "ncl < n_fatent (fst v)" "fat_of blocks v ncl = 0"
      using f(2) Inr by (simp_all add: search_found_def)
    have sv: "n_fatent (fst v1) = n_fatent (fst v)" using k(1) by (auto simp: kept_table_def same_volumeD)
    have "appended blocks clst r v1 v'" if "2 \<le> r" "r \<noteq> 0xFFFFFFFF"
      using link_cluster_ok[OF _ k(2) _ _ l that] k assms(4) sv by (simp add: appended_def kept_table_def)
    moreover have "r \<noteq> 0"
      using l k(2) by (auto simp: link_cluster_def word_le_nat_alt split: if_splits prod.splits)
    moreover have "r = ncl" if "never_fails E" "drv (fst v) = SDC"
    proof -
      have "coherent blocks v1" "drv (fst v1) = SDC" using k(1) that(2) by (auto simp: kept_table_def same_volumeD)
      then show ?thesis using link_cluster_works[OF _ k(2) _ _ that(1)] k(3) assms(4) sv l by (metis fst_conv)
    qed
    moreover have "ncl \<noteq> 1" "ncl \<noteq> 0xFFFFFFFF"
      using k(2,3) geometryD(3)[of "fst v"] assms(1) by (auto simp: coherent_def word_le_nat_alt word_less_nat_alt)
    ultimately show ?thesis using f(1) Inr l appended_step[OF k(1)] by (auto simp: create_from_def)
  qed
qed

text \<open>A new chain, or a chain with a new last cluster.\<close>

lemma create_chain_ok:
  assumes "coherent blocks v" "clst = 0 \<or> 2 \<le> clst \<and> clst < n_fatent (fst v)"
    and "clst \<noteq> 0 \<Longrightarrow> n_fatent (fst v) \<le> fat_of blocks v clst"
  shows "\<exists>r v'. create_chain E clst v = Some (r, v')
    \<and> (r = 0 \<longrightarrow> kept_table blocks v v' \<and> (\<forall>c. 2 \<le> c \<and> c < n_fatent (fst v) \<longrightarrow> fat_of blocks v c \<noteq> 0))
    \<and> (2 \<le> r \<and> r \<noteq> 0xFFFFFFFF \<longrightarrow> appended blocks clst r v v')
    \<and> (never_fails E \<and> drv (fst v) = SDC \<longrightarrow> r \<noteq> 0xFFFFFFFF
        \<and> (r = 1 \<longrightarrow> (\<exists>c. 2 \<le> c \<and> c < n_fatent (fst v) \<and> fat_of blocks v c = 1)))"
proof (cases "clst = 0")
  case True
  let ?scl = "if last_clust (fst v) = 0 \<or> last_clust (fst v) \<ge> n_fatent (fst v) then 1 else last_clust (fst v)"
  have "2 \<le> n_fatent (fst v)" using assms(1) geometryD(2)[of "fst v"] by (simp add: coherent_def word_le_nat_alt)
  then have "1 \<le> ?scl" "?scl < n_fatent (fst v)" by (auto simp: word_le_nat_alt word_less_nat_alt word_unat_eq_iff)
  from create_from_ok[OF assms(1) this assms(2)] show ?thesis using True by (simp add: create_chain_def Let_def)
next
  case False
  then have c: "2 \<le> clst" "clst < n_fatent (fst v)" "n_fatent (fst v) \<le> fat_of blocks v clst" using assms(2,3) by auto
  obtain cs v1 where g: "get_fat E clst v = (cs, v1)" by (cases "get_fat E clst v")
  show ?thesis
  proof (cases "cs = 0xFFFFFFFF")
    case True
    have "fat_type (fs_type (fst v))" using assms(1) by (simp add: coherent_def geometryD)
    then have "\<not> (never_fails E \<and> drv (fst v) = SDC)" using get_fat_works[of E v clst] g True by auto
    then show ?thesis using True False g by (simp add: create_chain_def)
  next
    case nd: False
    have k: "kept_table blocks v v1" "cs = fat_of blocks v clst" using get_kept[OF assms(1) c(1,2) g nd] by auto
    have sv: "n_fatent (fst v1) = n_fatent (fst v)" using k(1) by (auto simp: kept_table_def same_volumeD)
    have "2 \<le> cs" "n_fatent (fst v) \<le> cs" using c k(2) by (auto intro: order_trans less_imp_le)
    then have "\<not> cs < 2" "\<not> cs < n_fatent (fst v1)" using sv by (simp_all add: not_less)
    then have e: "create_chain E clst v = create_from E clst clst v1"
      using False g nd by (simp add: create_chain_def)
    have "1 \<le> clst" using c(1) by (simp add: word_le_nat_alt)
    moreover have "coherent blocks v1" "clst < n_fatent (fst v1)" using k(1) c(2) sv by (simp_all add: kept_table_def)
    ultimately obtain r v' where r: "create_from E clst clst v1 = Some (r, v')"
      "r = 0 \<longrightarrow> kept_table blocks v1 v' \<and> (\<forall>c. 2 \<le> c \<and> c < n_fatent (fst v1) \<longrightarrow> fat_of blocks v1 c \<noteq> 0)"
      "2 \<le> r \<and> r \<noteq> 0xFFFFFFFF \<longrightarrow> appended blocks clst r v1 v'"
      "never_fails E \<and> drv (fst v1) = SDC \<longrightarrow> r \<noteq> 0xFFFFFFFF
        \<and> (r = 1 \<longrightarrow> (\<exists>c. 2 \<le> c \<and> c < n_fatent (fst v1) \<and> fat_of blocks v1 c = 1))"
      using create_from_ok[of v1 clst clst] c(1) by blast
    have "r = 0 \<longrightarrow> kept_table blocks v v' \<and> (\<forall>c. 2 \<le> c \<and> c < n_fatent (fst v) \<longrightarrow> fat_of blocks v c \<noteq> 0)"
      using r(2) kept_table_trans[OF k(1)] k(1) sv by (auto simp: kept_table_def)
    moreover have "never_fails E \<and> drv (fst v) = SDC \<longrightarrow> r \<noteq> 0xFFFFFFFF
        \<and> (r = 1 \<longrightarrow> (\<exists>c. 2 \<le> c \<and> c < n_fatent (fst v) \<and> fat_of blocks v c = 1))"
      using r(4) k(1) sv by (auto simp: kept_table_def same_volumeD)
    ultimately show ?thesis using e r(1,3) appended_step[OF k(1)] by auto
  qed
qed

lemma appended_chain:
  assumes "appended blocks (last cs) r v v'" "chain (fat_of blocks v) (n_fatent (fst v)) c cs" "cs \<noteq> []" "coherent blocks v"
  shows "chain (fat_of blocks v') (n_fatent (fst v)) c (cs @ [r])"
    "chain (fat_of blocks v) (n_fatent (fst v)) d ds \<Longrightarrow> last cs \<notin> set ds \<Longrightarrow> chain (fat_of blocks v') (n_fatent (fst v)) d ds"
proof -
  let ?n = "n_fatent (fst v)" and ?e = "entry_mask (fs_type (fst v))" and ?F = "fat_of blocks v"
  have r: "2 \<le> r" "r < ?n" "?F r = 0" using assms(1) by (simp_all add: appended_def)
  have l: "2 \<le> last cs" "last cs < ?n" "last cs \<noteq> 0"
    using chain_range[OF assms(2) last_in_set[OF assms(3)]] by (auto simp: word_le_nat_alt)
  have nr: "r \<notin> set ds" if "chain ?F ?n d ds" for d ds
    using chain_nonzero[OF that] r(3) by auto
  have F': "fat_of blocks v' x = (?F(r := ?e, last cs := r)) x" if "2 \<le> x" "x < ?n" for x
    using assms(1) that l(3) by (simp add: appended_def)
  have e: "?n \<le> ?e" using assms(4) by (simp add: coherent_def geometryD)
  have a: "chain (?F(r := ?e, last cs := r)) ?n c (cs @ [r])"
    by (rule chain_append[OF assms(2,3) r(1,2) nr[OF assms(2)] e])
  then show "chain (fat_of blocks v') ?n c (cs @ [r])"
    using chain_range[OF a] F' by (subst chain_cong[of "cs @ [r]" _ "?F(r := ?e, last cs := r)"]) auto
  show "chain ?F ?n d ds \<Longrightarrow> last cs \<notin> set ds \<Longrightarrow> chain (fat_of blocks v') ?n d ds"
    using chain_range nr F' by (subst chain_cong[of ds _ ?F]) auto
qed

end

subsection \<open>Properties\<close>

text \<open>C36. \<open>remove_chain\<close> returns for every content of the table, chains with loops included. When it reports success on a
chain, exactly the entries of the chain are free and no sector outside the table changes, so every chain that shares no cluster
with it is still there; a known count of free clusters grows by one per cluster. On a card that works it always reports success
on a chain, and a start that is not a cluster is refused without a change.\<close>
theorem remove_chain_frees:
  assumes "sector_disk E blocks" "coherent blocks v"
  shows "\<exists>r v'. remove_chain E c v = Some (r, v')
    \<and> (c < 2 \<or> c \<ge> n_fatent (fst v) \<longrightarrow> r = FR_INT_ERR \<and> v' = v)
    \<and> (\<forall>cs. chain (fat_of blocks v) (n_fatent (fst v)) c cs \<and> cs \<noteq> [] \<longrightarrow>
        (r = FR_OK \<longrightarrow> coherent blocks v' \<and> kept_sectors blocks v v'
          \<and> (\<forall>x. 2 \<le> x \<and> x < n_fatent (fst v) \<longrightarrow> fat_of blocks v' x = (if x \<in> set cs then 0 else fat_of blocks v x))
          \<and> (\<forall>d ds. chain (fat_of blocks v) (n_fatent (fst v)) d ds \<and> set ds \<inter> set cs = {} \<longrightarrow>
                chain (fat_of blocks v') (n_fatent (fst v)) d ds)
          \<and> free_clust (fst v') = freed_count (free_clust (fst v)) (length cs))
        \<and> (never_fails E \<and> drv (fst v) = SDC \<longrightarrow> r = FR_OK))"
proof (cases "c < 2 \<or> c \<ge> n_fatent (fst v)")
  case True
  have "\<not> (chain (fat_of blocks v) (n_fatent (fst v)) c cs \<and> cs \<noteq> [])" for cs using True by (cases cs) auto
  then show ?thesis using True by (intro exI[of _ FR_INT_ERR] exI[of _ v]) (simp add: remove_chain_def, blast)
next
  case False
  then obtain r v' where l: "remove_chain_loop E c FR_OK v = Some (r, v')"
    using sector_disk.remove_loop_ends[OF assms, of c FR_OK] by force
  have ok: "coherent blocks v' \<and> kept_sectors blocks v v'
      \<and> (\<forall>x. 2 \<le> x \<and> x < n_fatent (fst v) \<longrightarrow> fat_of blocks v' x = (if x \<in> set cs then 0 else fat_of blocks v x))
      \<and> free_clust (fst v') = freed_count (free_clust (fst v)) (length cs)"
    if "chain (fat_of blocks v) (n_fatent (fst v)) c cs" "r = FR_OK" for cs
    using sector_disk.remove_loop_ok[OF assms(1) that(1) assms(2)] l that(2) by simp
  have "chain (fat_of blocks v') (n_fatent (fst v)) d ds"
    if "chain (fat_of blocks v) (n_fatent (fst v)) c cs" "r = FR_OK"
      "chain (fat_of blocks v) (n_fatent (fst v)) d ds" "set ds \<inter> set cs = {}" for cs d ds
    using ok[OF that(1,2)] chain_range[OF that(3)] that(3,4) by (subst chain_cong[of ds _ "fat_of blocks v"]) auto
  moreover have "r = FR_OK" if "chain (fat_of blocks v) (n_fatent (fst v)) c cs" "never_fails E" "drv (fst v) = SDC" for cs
    using sector_disk.remove_loop_works[OF assms(1) that(1) assms(2) that(2,3)] l by simp
  ultimately show ?thesis using l ok False by (simp add: remove_chain_def) blast
qed

text \<open>C37. \<open>create_chain\<close> always returns, for a chain it is to extend (its last cluster) or for a new one. A cluster it returns
was free, is now the last of the chain, and no other entry and no sector outside the table changes, so every chain that does not
end in the extended one's last cluster is as before; the free count goes down by one. It returns 0 only when no cluster is free.\<close>
theorem create_chain_extends:
  assumes "sector_disk E blocks" "coherent blocks v"
    and "clst = 0 \<and> cs = [] \<or> cs \<noteq> [] \<and> clst = last cs \<and> chain (fat_of blocks v) (n_fatent (fst v)) c cs"
  shows "\<exists>r v'. create_chain E clst v = Some (r, v')
    \<and> (r = 0 \<longrightarrow> (\<forall>x. 2 \<le> x \<and> x < n_fatent (fst v) \<longrightarrow> fat_of blocks v x \<noteq> 0 \<and> fat_of blocks v' x = fat_of blocks v x))
    \<and> (2 \<le> r \<and> r \<noteq> 0xFFFFFFFF \<longrightarrow> fat_of blocks v r = 0 \<and> coherent blocks v' \<and> kept_sectors blocks v v'
        \<and> chain (fat_of blocks v') (n_fatent (fst v)) (if cs = [] then r else c) (cs @ [r])
        \<and> (\<forall>d ds. chain (fat_of blocks v) (n_fatent (fst v)) d ds \<and> (cs = [] \<or> last cs \<notin> set ds) \<longrightarrow>
              chain (fat_of blocks v') (n_fatent (fst v)) d ds)
        \<and> free_clust (fst v') = (if free_clust (fst v) = 0xFFFFFFFF then free_clust (fst v) else free_clust (fst v) - 1))
    \<and> (never_fails E \<and> drv (fst v) = SDC \<longrightarrow> r \<noteq> 0xFFFFFFFF
        \<and> (r = 1 \<longrightarrow> (\<exists>x. 2 \<le> x \<and> x < n_fatent (fst v) \<and> fat_of blocks v x = 1)))"
proof -
  let ?n = "n_fatent (fst v)" and ?F = "fat_of blocks v"
  have cl: "clst = 0 \<or> 2 \<le> clst \<and> clst < ?n" "clst \<noteq> 0 \<Longrightarrow> ?n \<le> ?F clst"
    using assms(3) chain_range[of ?F ?n c cs clst] chain_end[of ?F ?n c cs] by auto
  obtain r v' where r: "create_chain E clst v = Some (r, v')"
    "r = 0 \<longrightarrow> kept_table blocks v v' \<and> (\<forall>c. 2 \<le> c \<and> c < ?n \<longrightarrow> ?F c \<noteq> 0)"
    "2 \<le> r \<and> r \<noteq> 0xFFFFFFFF \<longrightarrow> appended blocks clst r v v'"
    "never_fails E \<and> drv (fst v) = SDC \<longrightarrow> r \<noteq> 0xFFFFFFFF \<and> (r = 1 \<longrightarrow> (\<exists>c. 2 \<le> c \<and> c < ?n \<and> ?F c = 1))"
    using sector_disk.create_chain_ok[OF assms(1,2) cl] by blast
  have e: "?n \<le> entry_mask (fs_type (fst v))" using assms(2) by (simp add: coherent_def geometryD)
  have "chain (fat_of blocks v') ?n (if cs = [] then r else c) (cs @ [r])
      \<and> (\<forall>d ds. chain ?F ?n d ds \<and> (cs = [] \<or> last cs \<notin> set ds) \<longrightarrow> chain (fat_of blocks v') ?n d ds)"
    if a: "appended blocks clst r v v'"
  proof (cases "cs = []")
    case True
    then have c0: "clst = 0" using assms(3) by auto
    have "chain (fat_of blocks v') ?n d ds" if d: "chain ?F ?n d ds" for d ds
      using chain_range[OF d] chain_nonzero[OF d] a d c0 by (subst chain_cong[of ds _ ?F]) (auto simp: appended_def)
    then show ?thesis using True a e c0 by (auto simp: appended_def)
  next
    case False
    then have c: "clst = last cs" "chain ?F ?n c cs" using assms(3) by auto
    from sector_disk.appended_chain[OF assms(1) a[unfolded c(1)] c(2) False assms(2)] False show ?thesis by auto
  qed
  then show ?thesis using r by (auto simp: appended_def kept_table_def)
qed

text \<open>Cluster 3 is made a chain and freed again.\<close>

theorem remove_chain_frees_witness:
  "\<exists>v v'. coherent ram_blocks v \<and> chain (fat_of ram_blocks v) 10 3 [3] \<and> remove_chain (ram_env []) 3 v = Some (FR_OK, v')
    \<and> fat_of ram_blocks v' 3 = 0"
proof -
  have c0: "coherent ram_blocks (ram_vol FS_FAT12)" by (rule ram_vol_coherent) (simp add: fat_type_def)
  obtain r v where p: "put_fat (ram_env []) 3 0xFFF (ram_vol FS_FAT12) = (r, v)" by (metis surj_pair)
  have r: "r = FR_OK"
    using put_fat_works[of "ram_env []" "ram_vol FS_FAT12" 3 "0xFFF"] p ram_works by (simp add: fat_type_def)
  have "stored ram_blocks (ram_vol FS_FAT12) 3 0xFFF v"
    using ram.put_fat_spec[OF c0, of 3 "[]" "0xFFF"] p r by simp
  then have v: "coherent ram_blocks v" "fat_of ram_blocks v 3 = 0xFFF" "n_fatent (fst v) = 10" "drv (fst v) = SDC"
    using ram.fat_of_stored[OF c0, where c=3 and clst=3 and val="0xFFF" and v'=v]
    by (auto simp: stored_def kept_data_def entry_mask_def dest: same_volumeD)
  then have ch: "chain (fat_of ram_blocks v) 10 3 [3]" by simp
  show ?thesis
    using remove_chain_frees[OF ram.sector_disk_axioms v(1), of "[]" 3]
  proof (elim exE conjE)
    fix r v'
    assume a: "remove_chain (ram_env []) 3 v = Some (r, v')"
    assume "\<forall>cs. chain (fat_of ram_blocks v) (n_fatent (fst v)) 3 cs \<and> cs \<noteq> [] \<longrightarrow>
        (r = FR_OK \<longrightarrow> coherent ram_blocks v' \<and> kept_sectors ram_blocks v v'
          \<and> (\<forall>x. 2 \<le> x \<and> x < n_fatent (fst v) \<longrightarrow> fat_of ram_blocks v' x = (if x \<in> set cs then 0 else fat_of ram_blocks v x))
          \<and> (\<forall>d ds. chain (fat_of ram_blocks v) (n_fatent (fst v)) d ds \<and> set ds \<inter> set cs = {} \<longrightarrow>
                chain (fat_of ram_blocks v') (n_fatent (fst v)) d ds)
          \<and> free_clust (fst v') = freed_count (free_clust (fst v)) (length cs))
        \<and> (never_fails (ram_env []) \<and> drv (fst v) = SDC \<longrightarrow> r = FR_OK)"
    from spec[OF this, of "[3]"] have "r = FR_OK" "fat_of ram_blocks v' 3 = 0" using ch v(3,4) ram_works by simp_all
    then show ?thesis using a v(1) ch by blast
  qed
qed

lemma ram_table_empty: "fat_of ram_blocks (ram_vol FS_FAT16) x = 0"
  by (simp add: fat_of_def fat_entry_def fat_byte_def view_def ram_blocks_def pad512_def ram_vol_def ram_fs_def fs_types)

theorem create_chain_extends_witness:
  "\<exists>r v'. create_chain (ram_env []) 0 (ram_vol FS_FAT16) = Some (r, v') \<and> 2 \<le> r \<and> coherent ram_blocks v'
    \<and> chain (fat_of ram_blocks v') 10 r [r]"
proof -
  have "coherent ram_blocks (ram_vol FS_FAT16)" by (rule ram_vol_coherent) (simp add: fat_type_def)
  from create_chain_extends[OF ram.sector_disk_axioms this, of 0 "[]" 0 "[]"] ram_works
  obtain r v' where r: "create_chain (ram_env []) 0 (ram_vol FS_FAT16) = Some (r, v')" "r \<noteq> 0xFFFFFFFF"
    "r = 0 \<longrightarrow> (\<forall>x. 2 \<le> x \<and> x < (10 :: u32) \<longrightarrow> fat_of ram_blocks (ram_vol FS_FAT16) x \<noteq> 0)"
    "r = 1 \<longrightarrow> (\<exists>x. fat_of ram_blocks (ram_vol FS_FAT16) x = 1)"
    "2 \<le> r \<and> r \<noteq> 0xFFFFFFFF \<longrightarrow> coherent ram_blocks v' \<and> chain (fat_of ram_blocks v') 10 r [r]"
    by (simp del: split_paired_All split_paired_Ex chain.simps) blast
  have "r \<noteq> 0" using r(3) ram_table_empty[of 2] by auto
  moreover have "r \<noteq> 1" using r(4) ram_table_empty by auto
  ultimately have "2 \<le> r" by (rule word_ge_2)
  then show ?thesis using r by blast
qed

end
