(* ===== verification/Fat_Mount.thy ===== *)
theory Fat_Mount
  imports Fat_Chain
begin

section \<open>Mounting a volume (\<open>fatfs/src/ff.c\<close>: \<open>f_mount\<close>, \<open>find_volume\<close>)\<close>

text \<open>
  A volume is mounted by the first function that needs it, or at once by \<open>f_mount\<close> with option 1: the boot
  sector is looked for in sector 0 and in the four partitions, and its fields give the geometry that the
  operations of \<open>Fat_Table\<close> and \<open>Fat_Chain\<close> rely on. The state is the registration of the one file
  system object of the firmware (\<open>FatFs[0]\<close>), the object with its disk, and the counter of mounts.
\<close>

record 'h ff_state =
  registered :: bool
  volume :: "'h vol"
  Fsid :: u16

definition MIN_FAT16 :: u32 where "MIN_FAT16 = 4086"
definition MIN_FAT32 :: u32 where "MIN_FAT32 = 65526"
definition BPB_BytsPerSec :: u32 where "BPB_BytsPerSec = 11"
definition BPB_SecPerClus :: u32 where "BPB_SecPerClus = 13"
definition BPB_RsvdSecCnt :: u32 where "BPB_RsvdSecCnt = 14"
definition BPB_NumFATs :: u32 where "BPB_NumFATs = 16"
definition BPB_RootEntCnt :: u32 where "BPB_RootEntCnt = 17"
definition BPB_TotSec16 :: u32 where "BPB_TotSec16 = 19"
definition BPB_FATSz16 :: u32 where "BPB_FATSz16 = 22"
definition BPB_TotSec32 :: u32 where "BPB_TotSec32 = 32"
definition BPB_FATSz32 :: u32 where "BPB_FATSz32 = 36"
definition BPB_RootClus :: u32 where "BPB_RootClus = 44"
definition BPB_FSInfo :: u32 where "BPB_FSInfo = 48"
definition BS_FilSysType :: u32 where "BS_FilSysType = 54"
definition BS_FilSysType32 :: u32 where "BS_FilSysType32 = 82"
definition FSI_LeadSig :: u32 where "FSI_LeadSig = 0"
definition FSI_StrucSig :: u32 where "FSI_StrucSig = 484"
definition FSI_Free_Count :: u32 where "FSI_Free_Count = 488"
definition FSI_Nxt_Free :: u32 where "FSI_Nxt_Free = 492"
definition MBR_Table :: u32 where "MBR_Table = 446"
definition SZ_PTE :: u32 where "SZ_PTE = 16"
definition BS_55AA :: u32 where "BS_55AA = 510"
definition SZ_DIR :: u32 where "SZ_DIR = 32"

lemmas offsets = BPB_BytsPerSec_def BPB_SecPerClus_def BPB_RsvdSecCnt_def BPB_NumFATs_def BPB_RootEntCnt_def
  BPB_TotSec16_def BPB_FATSz16_def BPB_TotSec32_def BPB_FATSz32_def BPB_RootClus_def BPB_FSInfo_def BS_FilSysType_def
  BS_FilSysType32_def FSI_LeadSig_def FSI_StrucSig_def FSI_Free_Count_def FSI_Nxt_Free_def MBR_Table_def SZ_PTE_def
  BS_55AA_def SZ_DIR_def

subsection \<open>Operations\<close>

text \<open>The drive number in front of a path; \<open>-1\<close> is an invalid drive.\<close>

definition get_ldnumber :: "string \<Rightarrow> int \<times> string" where
  "get_ldnumber path =
     (let tt = dropWhile (\<lambda>c. of_char c \<ge> (of_char CHR ''!'' :: u32) \<and> c \<noteq> CHR '':'') path
      in if tt \<noteq> [] \<and> hd tt = CHR '':''
         then let i = of_char (hd path) - of_char CHR ''0'' :: u32
              in if i < 10 \<and> length path = length tt + 1 \<and> i < 1 then (sint i, tl tt) else (- 1, path)
         else (0, path))"

definition check_fs :: "'h fat_env \<Rightarrow> u32 \<Rightarrow> 'h vol \<Rightarrow> u8 \<times> 'h vol" where
  "check_fs E sect v =
     (let (r, v) = move_window E sect ((fst v)\<lparr>wflag := False, winsect := 0xFFFFFFFF\<rparr>, snd v)
      in if r \<noteq> FR_OK then (3, v)
         else if win_word (fst v) BS_55AA \<noteq> 0xAA55 then (2, v)
         else if win_dword (fst v) BS_FilSysType AND 0xFFFFFF = 0x544146 then (0, v)
         else if win_dword (fst v) BS_FilSysType32 AND 0xFFFFFF = 0x544146 then (0, v)
         else (1, v))"

definition partition_offset :: "fatfs \<Rightarrow> u32 \<Rightarrow> u32" where
  "partition_offset fs i =
     (let pt = MBR_Table + i * SZ_PTE in if win fs ! unat (pt + 4) \<noteq> 0 then win_dword fs (pt + 8) else 0)"

text \<open>The loop over the partitions: the last check, its sector and the volume.\<close>

fun find_partition :: "'h fat_env \<Rightarrow> u32 list \<Rightarrow> u8 \<times> u32 \<times> 'h vol \<Rightarrow> u8 \<times> u32 \<times> 'h vol" where
  "find_partition E [] r = r"
| "find_partition E (bsect # br) (fmt, b, v) =
     (let (fmt, v) = (if bsect \<noteq> 0 then check_fs E bsect v else (2, v))
      in if fmt \<noteq> 0 then find_partition E br (fmt, bsect, v) else (fmt, bsect, v))"

text \<open>The fields of the boot sector in the window; the type of the table is returned, not stored yet.\<close>

definition fat_sub_type :: "u32 \<Rightarrow> u8" where
  "fat_sub_type nclst =
     (let fmt = FS_FAT12; fmt = (if nclst \<ge> MIN_FAT16 then FS_FAT16 else fmt)
      in if nclst \<ge> MIN_FAT32 then FS_FAT32 else fmt)"

text \<open>Where the flag is false, \<open>find_volume\<close> returns \<open>FR_NO_FILESYSTEM\<close>.\<close>

definition read_sizes :: "fatfs \<Rightarrow> bool \<times> fatfs" where
  "read_sizes fs =
     (if ucast (win_word fs BPB_BytsPerSec) \<noteq> SS then (False, fs)
      else let fasize = ucast (win_word fs BPB_FATSz16); fasize = (if fasize = 0 then win_dword fs BPB_FATSz32 else fasize);
               fs = fs\<lparr>fsize := fasize, n_fats := win fs ! unat BPB_NumFATs\<rparr>
      in if n_fats fs \<noteq> 1 \<and> n_fats fs \<noteq> 2 then (False, fs)
      else let fs = fs\<lparr>csize := win fs ! unat BPB_SecPerClus\<rparr>
      in if csize fs = 0 \<or> csize fs AND (csize fs - 1) \<noteq> 0 then (False, fs)
      else let fs = fs\<lparr>n_rootdir := win_word fs BPB_RootEntCnt\<rparr>
      in (ucast (n_rootdir fs) mod (SS div SZ_DIR) = 0, fs))"

definition read_layout :: "u32 \<Rightarrow> fatfs \<Rightarrow> bool \<times> u8 \<times> fatfs" where
  "read_layout bsect fs =
     (let fasize = fsize fs * ucast (n_fats fs);
          tsect = ucast (win_word fs BPB_TotSec16); tsect = (if tsect = 0 then win_dword fs BPB_TotSec32 else tsect);
          nrsv = win_word fs BPB_RsvdSecCnt
      in if nrsv = 0 then (False, 0, fs)
      else let sysect = ucast nrsv + fasize + ucast (n_rootdir fs) div (SS div SZ_DIR)
      in if tsect < sysect then (False, 0, fs)
      else let nclst = (tsect - sysect) div ucast (csize fs)
      in if nclst = 0 then (False, 0, fs)
      else let fmt = fat_sub_type nclst;
               fs = fs\<lparr>n_fatent := nclst + 2, volbase := bsect, fatbase := bsect + ucast nrsv, database := bsect + sysect\<rparr>
      in if (fmt = FS_FAT32) = (n_rootdir fs \<noteq> 0) then (False, 0, fs)
      else let fs = fs\<lparr>dirbase := (if fmt = FS_FAT32 then win_dword fs BPB_RootClus else fatbase fs + fasize)\<rparr>;
               szbfat = (if fmt = FS_FAT32 then n_fatent fs * 4
                         else if fmt = FS_FAT16 then n_fatent fs * 2 else n_fatent fs * 3 div 2 + (n_fatent fs AND 1))
      in (\<not> fsize fs < (szbfat + (SS - 1)) div SS, fmt, fs))"

definition read_bpb :: "u32 \<Rightarrow> fatfs \<Rightarrow> fresult \<times> u8 \<times> fatfs" where
  "read_bpb bsect fs =
     (let (ok, fs) = read_sizes fs
      in if \<not> ok then (FR_NO_FILESYSTEM, 0, fs)
         else let (ok, fmt, fs) = read_layout bsect fs in (if ok then FR_OK else FR_NO_FILESYSTEM, fmt, fs))"

definition read_fsinfo :: "'h fat_env \<Rightarrow> u32 \<Rightarrow> u8 \<Rightarrow> 'h vol \<Rightarrow> 'h vol" where
  "read_fsinfo E bsect fmt v =
     (let v = ((fst v)\<lparr>last_clust := 0xFFFFFFFF, free_clust := 0xFFFFFFFF, fsi_flag := 0x80\<rparr>, snd v)
      in if fmt = FS_FAT32 \<and> win_word (fst v) BPB_FSInfo = 1
         then let (r, v) = move_window E (bsect + 1) v
              in if r \<noteq> FR_OK then v
                 else let fs = (fst v)\<lparr>fsi_flag := 0\<rparr>
                 in (if win_word fs BS_55AA = 0xAA55 \<and> win_dword fs FSI_LeadSig = 0x41615252
                        \<and> win_dword fs FSI_StrucSig = 0x61417272
                     then fs\<lparr>free_clust := win_dword fs FSI_Free_Count, last_clust := win_dword fs FSI_Nxt_Free\<rparr>
                     else fs, snd v)
         else v)"

text \<open>The analysis of the disk, after the drive is initialised: \<open>mount_volume\<close> is the rest of \<open>find_volume\<close>.\<close>

definition mount_volume :: "'h fat_env \<Rightarrow> 'h ff_state \<Rightarrow> fresult \<times> 'h ff_state" where
  "mount_volume E s =
     (let (fmt, v) = check_fs E 0 (volume s);
          (fmt, bsect, v) = (if fmt = 1 then find_partition E (map (partition_offset (fst v)) [0, 1, 2, 3]) (fmt, 0, v)
                             else (fmt, 0, v))
      in if fmt = 3 then (FR_DISK_ERR, s\<lparr>volume := v\<rparr>)
         else if fmt \<noteq> 0 then (FR_NO_FILESYSTEM, s\<lparr>volume := v\<rparr>)
         else let (r, fmt, fs) = read_bpb bsect (fst v); v = (fs, snd v)
         in if r \<noteq> FR_OK then (r, s\<lparr>volume := v\<rparr>)
         else let v = read_fsinfo E bsect fmt v
         in (FR_OK, s\<lparr>volume := ((fst v)\<lparr>fs_type := fmt, fs_id := Fsid s + 1\<rparr>, snd v), Fsid := Fsid s + 1\<rparr>))"

text \<open>The result has the path behind the drive number.\<close>

definition find_volume :: "'h fat_env \<Rightarrow> string \<Rightarrow> u8 \<Rightarrow> 'h ff_state \<Rightarrow> fresult \<times> string \<times> 'h ff_state" where
  "find_volume E path wmode s =
     (let (vol, path) = get_ldnumber path
      in if vol < 0 then (FR_INVALID_DRIVE, path, s)
         else if \<not> registered s then (FR_NOT_ENABLED, path, s)
         else let (fs, d) = volume s; stat = disk_status (sd E) (drv fs) d
         in if fs_type fs \<noteq> 0 \<and> stat AND STA_NOINIT = 0
            then (if wmode \<noteq> 0 \<and> stat AND STA_PROTECT \<noteq> 0 then FR_WRITE_PROTECTED else FR_OK, path, s)
            else let s = s\<lparr>volume := (fs\<lparr>fs_type := 0, drv := of_int vol\<rparr>, d)\<rparr>;
                     stat = disk_initialize (sd E) (of_int vol) d
                 in if stat AND STA_NOINIT \<noteq> 0 then (FR_NOT_READY, path, s)
                    else if wmode \<noteq> 0 \<and> stat AND STA_PROTECT \<noteq> 0 then (FR_WRITE_PROTECTED, path, s)
                    else let (r, s) = mount_volume E s in (r, path, s))"

text \<open>\<open>obj\<close>: a file system object is given (there is one in the firmware), not a null pointer.\<close>

definition f_mount :: "'h fat_env \<Rightarrow> bool \<Rightarrow> string \<Rightarrow> u8 \<Rightarrow> 'h ff_state \<Rightarrow> fresult \<times> 'h ff_state" where
  "f_mount E obj path opt s =
     (let (vol, rp) = get_ldnumber path
      in if vol < 0 then (FR_INVALID_DRIVE, s)
         else let s = (if registered s \<or> obj then s\<lparr>volume := ((fst (volume s))\<lparr>fs_type := 0\<rparr>, snd (volume s))\<rparr> else s);
                  s = s\<lparr>registered := obj\<rparr>
         in if \<not> obj \<or> opt \<noteq> 1 then (FR_OK, s)
            else let (r, _, s) = find_volume E path 0 s in (r, s))"

text \<open>A file or directory object is valid while the volume it was opened on is mounted.\<close>

definition sync_fs :: "'h fat_env \<Rightarrow> 'h vol \<Rightarrow> fresult \<times> 'h vol" where
  "sync_fs E v =
     (let (r, v) = sync_window E v
      in if r \<noteq> FR_OK then (r, v)
         else let v = (if fs_type (fst v) = FS_FAT32 \<and> fsi_flag (fst v) = 1
                       then let fs = (fst v)\<lparr>win := replicate 512 0\<rparr>;
                                fs = put_win BS_55AA (le_bytes16 0xAA55) fs;
                                fs = put_win FSI_LeadSig (le_bytes32 0x41615252) fs;
                                fs = put_win FSI_StrucSig (le_bytes32 0x61417272) fs;
                                fs = put_win FSI_Free_Count (le_bytes32 (free_clust fs)) fs;
                                fs = put_win FSI_Nxt_Free (le_bytes32 (last_clust fs)) fs;
                                fs = fs\<lparr>winsect := volbase fs + 1\<rparr>;
                                d = snd (disk_write (sd E) (drv fs) (win fs) (winsect fs) 1 (snd v))
                            in (fs\<lparr>fsi_flag := 0\<rparr>, d)
                       else v)
         in (if fst (disk_ioctl (sd E) (drv (fst v)) CTRL_SYNC (snd v)) \<noteq> RES_OK then FR_DISK_ERR else FR_OK, v))"

subsection \<open>What a boot sector says\<close>

definition boot16 :: "u8 list \<Rightarrow> nat \<Rightarrow> nat" where
  "boot16 bs i = unat (le_word16 (take 2 (drop i bs)))"

definition boot32 :: "u8 list \<Rightarrow> nat \<Rightarrow> nat" where
  "boot32 bs i = unat (le_word32 (take 4 (drop i bs)))"

text \<open>The sectors of one copy of the table, of the volume, in front of the clusters, and the number of clusters.\<close>

definition boot_table :: "u8 list \<Rightarrow> nat" where
  "boot_table bs = (if boot16 bs 22 = 0 then boot32 bs 36 else boot16 bs 22)"

definition boot_total :: "u8 list \<Rightarrow> nat" where
  "boot_total bs = (if boot16 bs 19 = 0 then boot32 bs 32 else boot16 bs 19)"

definition boot_system :: "u8 list \<Rightarrow> nat" where
  "boot_system bs = boot16 bs 14 + unat (bs ! 16) * boot_table bs + boot16 bs 17 div 16"

definition boot_clusters :: "u8 list \<Rightarrow> nat" where
  "boot_clusters bs = (boot_total bs - boot_system bs) div unat (bs ! 13)"

text \<open>The clusters lie behind the copies of the table, and the sector of every cluster is a 32-bit number.\<close>

definition data_layout :: "fatfs \<Rightarrow> bool" where
  "data_layout fs \<longleftrightarrow> csize fs \<noteq> 0 \<and> csize fs AND (csize fs - 1) = 0
     \<and> unat (fatbase fs) + unat (n_fats fs) * unat (fsize fs) \<le> unat (database fs)
     \<and> unat (database fs) + (unat (n_fatent fs) - 2) * unat (csize fs) < 2 ^ 32"

lemma unat_ucast_up: "unat (ucast (x :: u16) :: u32) = unat x" "unat (ucast (y :: u8) :: u32) = unat y"
  by (simp_all add: unsigned_ucast_eq, (rule take_bit_nat_eq_self, rule order.strict_trans2[OF unsigned_less], simp)+)

lemma ucast16_eq_0: "(ucast (x :: u16) :: u32) = 0 \<longleftrightarrow> x = 0"
  by (simp add: word_unat_eq_iff unat_ucast_up)

lemma read_sizesD:
  assumes "read_sizes fs = (True, fs')"
  shows "\<exists>f n c r. fs' = fs\<lparr>fsize := f, n_fats := n, csize := c, n_rootdir := r\<rparr>
      \<and> f = (if win_word fs 22 = 0 then win_dword fs 36 else ucast (win_word fs 22)) \<and> n = win fs ! 16 \<and> (n = 1 \<or> n = 2)
      \<and> c = win fs ! 13 \<and> c \<noteq> 0 \<and> c AND (c - 1) = 0 \<and> r = win_word fs 17"
  using assms unfolding read_sizes_def offsets SS_def
  by (auto simp: Let_def win_word_def win_dword_def ucast16_eq_0 split: if_splits)

lemma read_layoutD:
  assumes "read_layout b fs = (True, fmt, fs')"
  shows "\<exists>nclst sysect tsect dir. fs' = fs\<lparr>n_fatent := nclst + 2, volbase := b, fatbase := b + ucast (win_word fs 14),
        database := b + sysect, dirbase := dir\<rparr> \<and> win_word fs 14 \<noteq> 0
      \<and> sysect = ucast (win_word fs 14) + fsize fs * ucast (n_fats fs) + ucast (n_rootdir fs) div 16
      \<and> tsect = (if win_word fs 19 = 0 then win_dword fs 32 else ucast (win_word fs 19)) \<and> sysect \<le> tsect
      \<and> nclst = (tsect - sysect) div ucast (csize fs) \<and> nclst \<noteq> 0 \<and> fmt = fat_sub_type nclst
      \<and> ((if fmt = FS_FAT32 then (nclst + 2) * 4 else if fmt = FS_FAT16 then (nclst + 2) * 2
           else (nclst + 2) * 3 div 2 + ((nclst + 2) AND 1)) + 511) div 512 \<le> fsize fs"
  using assms unfolding read_layout_def offsets SS_def
  by (auto simp: Let_def not_less win_word_def win_dword_def ucast16_eq_0 split: if_splits)

lemma boot16_win: "unat (win_word fs i) = boot16 (win fs) (unat i)"
  by (simp add: boot16_def win_word_def)

lemma boot32_win: "unat (win_dword fs i) = boot32 (win fs) (unat i)"
  by (simp add: boot32_def win_dword_def)

lemma boot16_less: "boot16 bs i < 2 ^ 16"
  using unsigned_less[of "le_word16 (take 2 (drop i bs))"] by (simp add: boot16_def)

lemma sub_type_bounds:
  "unat n + 2 \<le> unat (entry_mask (fat_sub_type n)) \<or> fat_sub_type n = FS_FAT32" "fat_type (fat_sub_type n)"
  by (auto simp: fat_sub_type_def Let_def fat_type_def entry_mask_def fs_types MIN_FAT16_def MIN_FAT32_def
      word_le_nat_alt not_le)

lemma fat32_clusters: "fat_sub_type n = FS_FAT32 \<Longrightarrow> 65526 \<le> unat n"
  by (auto simp: fat_sub_type_def Let_def fs_types MIN_FAT16_def MIN_FAT32_def word_le_nat_alt split: if_splits)

lemma needed_table:
  assumes "unat (n :: u32) < 2 ^ 29" "fat_type t"
    and "((if t = FS_FAT32 then n * 4 else if t = FS_FAT16 then n * 2 else n * 3 div 2 + (n AND 1)) + 511) div 512 \<le> f"
  shows "fat_bytes_used t (unat n) \<le> 512 * unat f"
proof -
  have p: "unat (n AND 1) = unat n mod 2" by (simp add: unsigned_and_eq and_one_eq unat_mod)
  have m: "unat (n * 4) = unat n * 4" "unat (n * 2) = unat n * 2" "unat (n * 3) = unat n * 3"
    using assms(1) by (simp_all add: unat_word_ariths)
  have q: "unat (n * 3 div 2 + (n AND 1)) = unat n * 3 div 2 + unat n mod 2"
    using assms(1) by (simp add: unat_word_ariths(1) unat_div m p)
  let ?s = "if t = FS_FAT32 then n * 4 else if t = FS_FAT16 then n * 2 else n * 3 div 2 + (n AND 1)"
  have s: "unat ?s = fat_bytes_used t (unat n)"
    using assms(2) by (auto simp: fat_bytes_used_def fat_type_def fs_types m q)
  have "unat n div 2 + unat n mod 2 \<le> 3 * unat n" using div_mult_mod_eq[of "unat n" 2] by linarith
  then have "fat_bytes_used t (unat n) \<le> 4 * unat n" by (simp add: fat_bytes_used_def)
  then have "unat (?s + 511) = fat_bytes_used t (unat n) + 511" using assms(1) s by (simp add: unat_word_ariths(1))
  then have "unat ((?s + 511) div 512) = (fat_bytes_used t (unat n) + 511) div 512" by (simp add: unat_div)
  then have "(fat_bytes_used t (unat n) + 511) div 512 \<le> unat f" using assms(3) by (simp add: word_le_nat_alt)
  then show ?thesis by linarith
qed

lemma bpb_frame:
  assumes "read_bpb b fs = (FR_OK, fmt, fs')"
  shows "win fs' = win fs \<and> wflag fs' = wflag fs \<and> winsect fs' = winsect fs \<and> drv fs' = drv fs \<and> volbase fs' = b"
proof -
  obtain fs1 where s1: "read_sizes fs = (True, fs1)" and s2: "read_layout b fs1 = (True, fmt, fs')"
    using assms by (auto simp: read_bpb_def Let_def split: prod.splits if_splits)
  show ?thesis using read_sizesD[OF s1] read_layoutD[OF s2] by auto
qed

text \<open>A boot sector whose numbers fit: the volume ends below sector \<open>2\<^sup>2\<^sup>8\<close> (128 GB), and so does its table.\<close>

definition boot_fits :: "u32 \<Rightarrow> u8 list \<Rightarrow> bool" where
  "boot_fits b bs \<longleftrightarrow> unat b + boot_total bs \<le> 2 ^ 28 \<and> boot_table bs \<le> 2 ^ 28"

lemma bpb_fields:
  assumes "read_bpb b fs = (FR_OK, fmt, fs')" "boot_fits b (win fs)"
  defines "bs \<equiv> win fs"
  shows "\<exists>r n. fs' = fs\<lparr>fsize := fsize fs', n_fats := bs ! 16, csize := bs ! 13, n_rootdir := r, n_fatent := n, volbase := b,
        fatbase := fatbase fs', database := database fs', dirbase := dirbase fs'\<rparr>
      \<and> unat (fsize fs') = boot_table bs \<and> unat (fatbase fs') = unat b + boot16 bs 14
      \<and> unat (database fs') = unat b + boot_system bs \<and> unat n = boot_clusters bs + 2
      \<and> boot_system bs \<le> boot_total bs \<and> 0 < boot16 bs 14 \<and> 0 < boot_clusters bs
      \<and> (bs ! 16 = 1 \<or> bs ! 16 = 2) \<and> bs ! 13 \<noteq> 0 \<and> bs ! 13 AND (bs ! 13 - 1) = 0
      \<and> fat_type fmt \<and> n \<le> entry_mask fmt \<and> fat_bytes_used fmt (unat n) \<le> 512 * unat (fsize fs')"
proof -
  obtain fs1 where s1: "read_sizes fs = (True, fs1)" and s2: "read_layout b fs1 = (True, fmt, fs')"
    using assms(1) by (auto simp: read_bpb_def Let_def split: prod.splits if_splits)
  obtain f n c r where fs1: "fs1 = fs\<lparr>fsize := f, n_fats := n, csize := c, n_rootdir := r\<rparr>"
    and f: "f = (if win_word fs 22 = 0 then win_dword fs 36 else ucast (win_word fs 22))" "n = bs ! 16" "n = 1 \<or> n = 2"
    and c: "c = bs ! 13" "c \<noteq> 0" "c AND (c - 1) = 0" and r: "r = win_word fs 17"
    using read_sizesD[OF s1] unfolding bs_def by blast
  have ww: "win_word fs1 i = win_word fs i" "win_dword fs1 i = win_dword fs i" for i
    by (simp_all add: fs1 win_word_def win_dword_def)
  obtain nclst sysect tsect dir where fs': "fs' = fs1\<lparr>n_fatent := nclst + 2, volbase := b, fatbase := b + ucast (win_word fs 14),
        database := b + sysect, dirbase := dir\<rparr>" and z: "win_word fs 14 \<noteq> 0"
    and sy: "sysect = ucast (win_word fs 14) + f * ucast n + ucast r div 16"
    and ts: "tsect = (if win_word fs 19 = 0 then win_dword fs 32 else ucast (win_word fs 19))" "sysect \<le> tsect"
    and nc: "nclst = (tsect - sysect) div ucast c" "nclst \<noteq> 0" and fm: "fmt = fat_sub_type nclst"
    and fit: "((if fmt = FS_FAT32 then (nclst + 2) * 4 else if fmt = FS_FAT16 then (nclst + 2) * 2
           else (nclst + 2) * 3 div 2 + ((nclst + 2) AND 1)) + 511) div 512 \<le> f"
    using read_layoutD[OF s2] unfolding ww by (auto simp: fs1)
  have w0: "boot16 bs 22 = unat (win_word fs 22)" "boot16 bs 19 = unat (win_word fs 19)" "boot16 bs 14 = unat (win_word fs 14)"
    "boot16 bs 17 = unat r" by (simp_all add: boot16_win bs_def r)
  have uf: "unat f = boot_table bs"
    by (simp add: f(1) boot_table_def unat_ucast_up w0 boot32_win bs_def[symmetric] unsigned_eq_0_iff)
  have ut: "unat tsect = boot_total bs"
    by (simp add: ts(1) boot_total_def unat_ucast_up w0 boot32_win bs_def[symmetric] unsigned_eq_0_iff)
  have l: "boot_table bs \<le> 2 ^ 28" "unat b + boot_total bs \<le> 2 ^ 28" "boot16 bs 14 < 2 ^ 16" "boot16 bs 17 < 2 ^ 16"
    using assms(2) boot16_less by (simp_all add: boot_fits_def bs_def)
  have un: "unat (f * ucast n) = unat n * boot_table bs" "unat n \<le> 2"
    using f(3) l(1) uf by (auto simp: unat_word_ariths)
  have us: "unat sysect = boot_system bs"
    using un f(3) l uf
    by (auto simp: sy boot_system_def unat_word_ariths(1) unat_div unat_ucast_up w0 f(2)[symmetric])
  have le: "boot_system bs \<le> boot_total bs" using ts(2) us ut by (simp add: word_le_nat_alt)
  have uc: "unat nclst = boot_clusters bs"
    using ts(2) us ut by (simp add: nc(1) boot_clusters_def unat_div unat_sub unat_ucast_up c(1))
  have cl: "boot_clusters bs \<le> boot_total bs - boot_system bs" by (simp add: boot_clusters_def)
  have s1: "1 \<le> boot16 bs 14" using z w0(3) by (simp add: Suc_le_eq unsigned_eq_0_iff flip: neq0_conv)
  have n2: "unat (nclst + 2) = boot_clusters bs + 2" using cl l uc by (simp add: unat_word_ariths(1))
  have d: "unat (b + sysect) = unat b + boot_system bs" "unat (b + ucast (win_word fs 14)) = unat b + boot16 bs 14"
    using l le us s1 by (auto simp: unat_word_ariths(1) unat_ucast_up w0)
  have bytes: "fat_bytes_used fmt (unat (nclst + 2)) \<le> 512 * unat f"
    using needed_table[of "nclst + 2" fmt f] fit sub_type_bounds(2)[of nclst] cl l(2) n2 fm
    by simp
  have "nclst + 2 \<le> entry_mask fmt"
  proof (cases "fmt = FS_FAT32")
    case True
    then have "65526 \<le> boot_clusters bs" using fat32_clusters[of nclst] fm uc by simp
    then have "511 \<le> boot_table bs" using bytes True n2 uf by (simp add: fat_bytes_used_def fs_types)
    moreover have "1 * boot_table bs \<le> unat (bs ! 16) * boot_table bs"
      using f(2,3) by (intro mult_right_mono) auto
    ultimately have "512 \<le> boot_system bs" using s1 unfolding boot_system_def by linarith
    moreover have "boot_clusters bs + boot_system bs \<le> boot_total bs" using cl le by simp
    ultimately have "boot_clusters bs + 2 \<le> 0x0FFFFFFF" using l(2) by simp
    then show ?thesis using True n2 by (simp add: entry_mask_def fs_types word_le_nat_alt)
  next
    case False
    then show ?thesis using sub_type_bounds(1)[of nclst] n2 uc fm by (simp add: word_le_nat_alt)
  qed
  moreover have "0 < boot_clusters bs" using nc(2) uc by (metis gr0I unsigned_eq_0_iff)
  moreover have "fs' = fs\<lparr>fsize := fsize fs', n_fats := bs ! 16, csize := bs ! 13, n_rootdir := r, n_fatent := nclst + 2,
      volbase := b, fatbase := fatbase fs', database := database fs', dirbase := dirbase fs'\<rparr>"
    by (simp add: fs' fs1 f(2) c(1))
  ultimately show ?thesis
    using bytes uf d us n2 le s1 f(2,3) c fm sub_type_bounds(2)[of nclst]
    by (intro exI[of _ r] exI[of _ "nclst + 2"]) (simp add: fs' fs1)
qed

lemma bpb_geometry:
  assumes "read_bpb b fs = (FR_OK, fmt, fs')" "boot_fits b (win fs)"
  shows "geometry (fs'\<lparr>fs_type := fmt\<rparr>)" "data_layout fs'"
proof -
  let ?bs = "win fs"
  obtain r n where e: "fs' = fs\<lparr>fsize := fsize fs', n_fats := ?bs ! 16, csize := ?bs ! 13, n_rootdir := r, n_fatent := n, volbase := b,
        fatbase := fatbase fs', database := database fs', dirbase := dirbase fs'\<rparr>"
    and u: "unat (fsize fs') = boot_table ?bs" "unat (fatbase fs') = unat b + boot16 ?bs 14"
      "unat (database fs') = unat b + boot_system ?bs" "unat n = boot_clusters ?bs + 2"
    and l: "boot_system ?bs \<le> boot_total ?bs" "0 < boot16 ?bs 14" "0 < boot_clusters ?bs"
    and c: "?bs ! 16 = 1 \<or> ?bs ! 16 = 2" "?bs ! 13 \<noteq> 0" "?bs ! 13 AND (?bs ! 13 - 1) = 0"
    and t: "fat_type fmt" "n \<le> entry_mask fmt" "fat_bytes_used fmt (unat n) \<le> 512 * unat (fsize fs')"
    using bpb_fields[OF assms] by blast
  have f: "n_fats fs' = ?bs ! 16" "csize fs' = ?bs ! 13" "n_fatent fs' = n" by (subst e, simp)+
  have b: "unat b + boot_total ?bs \<le> 2 ^ 28" using assms(2) by (simp add: boot_fits_def)
  have s: "boot16 ?bs 14 + unat (?bs ! 16) * boot_table ?bs \<le> boot_system ?bs" by (simp add: boot_system_def)
  show "geometry (fs'\<lparr>fs_type := fmt\<rparr>)" using f u t c(1) b s l(1) by (auto simp: geometry_def)
  have "boot_clusters ?bs * unat (?bs ! 13) \<le> boot_total ?bs - boot_system ?bs" by (simp add: boot_clusters_def)
  then show "data_layout fs'" using f u c b s l(1) by (simp add: data_layout_def)
qed


subsection \<open>The window while mounting\<close>

definition clean :: "('h \<Rightarrow> nat \<Rightarrow> u8 list) \<Rightarrow> 'h vol \<Rightarrow> bool" where
  "clean blocks v \<longleftrightarrow> \<not> wflag (fst v) \<and> win (fst v) = blocks (fst (snd v)) (unat (winsect (fst v)))"

context sector_disk
begin

text \<open>An unchanged window is replaced without a write.\<close>

lemma move_unwritten:
  assumes "\<not> wflag (fst v)" "move_window E s v = (r, v')"
  shows "blocks (fst (snd v')) = blocks (fst (snd v)) \<and> same_volume (fst v) (fst v') \<and> \<not> wflag (fst v')"
    and "r = FR_OK \<Longrightarrow> s \<noteq> winsect (fst v) \<or> clean blocks v \<Longrightarrow> clean blocks v' \<and> winsect (fst v') = s"
proof -
  have sy: "sync_window E v = (FR_OK, v)" using assms(1) by (cases v) (simp add: sync_window_def)
  obtain e out d where rd: "disk_read (sd E) (drv (fst v)) s 1 (snd v) = (e, out, d)" by (metis surj_pair)
  have two: "same_volume fs (fs\<lparr>win := w, winsect := s\<rparr>)" for fs w
    using same_volume_trans[OF same_volume_upd(3) same_volume_upd(2)] by simp
  show "blocks (fst (snd v')) = blocks (fst (snd v)) \<and> same_volume (fst v) (fst v') \<and> \<not> wflag (fst v')"
    using assms rd disk_read_frame[OF rd] two
    by (auto simp: move_window_def sy split_beta split: if_splits dresult.splits option.splits)
  show "clean blocks v' \<and> winsect (fst v') = s" if "r = FR_OK" "s \<noteq> winsect (fst v) \<or> clean blocks v"
    using assms that rd disk_read_1[of "drv (fst v)" s "snd v" out d]
    by (auto simp: move_window_def sy split_beta clean_def split: if_splits dresult.splits option.splits)
qed

lemma check_fs_clean:
  assumes "check_fs E s v = (fmt, v')"
  shows "blocks (fst (snd v')) = blocks (fst (snd v))" "\<not> wflag (fst v')" "same_volume (fst v) (fst v')"
    and "fmt \<noteq> 3 \<Longrightarrow> s \<noteq> 0xFFFFFFFF \<Longrightarrow> clean blocks v' \<and> winsect (fst v') = s"
proof -
  let ?v = "((fst v)\<lparr>wflag := False, winsect := 0xFFFFFFFF\<rparr>, snd v)"
  obtain r where m: "move_window E s ?v = (r, v')" and r: "r = FR_OK \<or> fmt = 3"
    using assms by (auto simp: check_fs_def Let_def split: prod.splits if_splits)
  have "same_volume (fst v) (fst ?v)"
    using same_volume_trans[OF same_volume_upd(1)[of "fst v" False] same_volume_upd(2)] by simp
  then show "blocks (fst (snd v')) = blocks (fst (snd v))" "\<not> wflag (fst v')" "same_volume (fst v) (fst v')"
    using move_unwritten(1)[OF _ m] same_volume_trans[of "fst v" "fst ?v" "fst v'"] by simp_all
  show "clean blocks v' \<and> winsect (fst v') = s" if "fmt \<noteq> 3" "s \<noteq> 0xFFFFFFFF"
    using move_unwritten(2)[OF _ m] r that by simp
qed

lemma find_partition_clean:
  assumes "find_partition E br (f0, b0, v) = (fmt, b, v')" "\<not> wflag (fst v)" "f0 \<noteq> 0"
  shows "blocks (fst (snd v')) = blocks (fst (snd v)) \<and> \<not> wflag (fst v') \<and> same_volume (fst v) (fst v')
    \<and> (fmt = 0 \<and> b \<noteq> 0xFFFFFFFF \<longrightarrow> clean blocks v' \<and> winsect (fst v') = b)"
  using assms
proof (induction br arbitrary: f0 b0 v)
  case (Cons x br)
  obtain f1 v1 where c: "(if x \<noteq> 0 then check_fs E x v else (2, v)) = (f1, v1)" by (metis surj_pair)
  have v1: "blocks (fst (snd v1)) = blocks (fst (snd v))" "\<not> wflag (fst v1)" "same_volume (fst v) (fst v1)"
    using c check_fs_clean(1,2,3)[of x v f1 v1] Cons.prems(2) by (auto split: if_splits)
  show ?case
  proof (cases "f1 = 0")
    case True
    then have "check_fs E x v = (0, v1)" using c by (auto split: if_splits)
    from check_fs_clean(4)[OF this] show ?thesis using Cons.prems(1) c True v1 by auto
  next
    case False
    then have "find_partition E br (f1, x, v1) = (fmt, b, v')" using Cons.prems(1) c by simp
    from Cons.IH[OF this v1(2) False] v1 show ?thesis using same_volume_trans[OF v1(3)] by simp
  qed
qed simp

lemma fsinfo_clean:
  assumes "read_fsinfo E b fmt v = v'" "\<not> wflag (fst v)"
  shows "blocks (fst (snd v')) = blocks (fst (snd v)) \<and> \<not> wflag (fst v') \<and> same_layout (fst v) (fst v')"
    and "fmt \<noteq> FS_FAT32 \<or> never_fails E \<and> drv (fst v) = SDC \<Longrightarrow> clean blocks v \<Longrightarrow> winsect (fst v) = b \<Longrightarrow> clean blocks v' \<and> (winsect (fst v') = b \<or> winsect (fst v') = b + 1)"
proof -
  let ?v = "((fst v)\<lparr>last_clust := 0xFFFFFFFF, free_clust := 0xFFFFFFFF, fsi_flag := 0x80\<rparr>, snd v)"
  have c: "\<not> wflag (fst ?v)" "same_layout (fst v) (fst ?v)"
    using assms(2) same_layout_book[where fs = "fst v"] by simp_all
  obtain r v1 where m: "move_window E (b + 1) ?v = (r, v1)" by (metis surj_pair)
  note mv = move_unwritten[OF c(1) m]
  have sl: "same_layout (fst v) (fst v1)" using c(2) mv(1) same_layout_if same_layout_trans by blast
  have sw: "(fst v1)\<lparr>fsi_flag := 0, free_clust := x, last_clust := y\<rparr> = (fst v1)\<lparr>last_clust := y, free_clust := x, fsi_flag := 0\<rparr>" for x y
    by (rule fatfs.equality) simp_all
  have sl2: "same_layout (fst v) ((fst v1)\<lparr>fsi_flag := 0\<rparr>)"
    "same_layout (fst v) ((fst v1)\<lparr>fsi_flag := 0, free_clust := x, last_clust := y\<rparr>)" for x y
    using same_layout_trans[OF sl same_layout_book[where fs = "fst v1" and l = "last_clust (fst v1)" and f = "free_clust (fst v1)" and g = 0]]
      same_layout_trans[OF sl same_layout_book[where fs = "fst v1" and l = y and f = x and g = 0]] by (simp_all add: sw)
  have e: "v' = ?v \<or> r \<noteq> FR_OK \<and> fmt = FS_FAT32 \<and> v' = v1
      \<or> r = FR_OK \<and> (\<exists>x y. v' = ((fst v1)\<lparr>fsi_flag := 0, free_clust := x, last_clust := y\<rparr>, snd v1) \<or> v' = ((fst v1)\<lparr>fsi_flag := 0\<rparr>, snd v1))"
    using assms(1) m by (auto simp: read_fsinfo_def Let_def split: if_splits)
  then show "blocks (fst (snd v')) = blocks (fst (snd v)) \<and> \<not> wflag (fst v') \<and> same_layout (fst v) (fst v')"
    using c mv(1) sl sl2 by auto
  show "clean blocks v' \<and> (winsect (fst v') = b \<or> winsect (fst v') = b + 1)"
    if "fmt \<noteq> FS_FAT32 \<or> never_fails E \<and> drv (fst v) = SDC" "clean blocks v" "winsect (fst v) = b"
  proof -
    have cv: "clean blocks ?v" using that(2) by (simp add: clean_def)
    have "fmt = FS_FAT32 \<Longrightarrow> r = FR_OK" using window_works(2)[of E ?v "b + 1"] m that(1) by simp
    moreover have "r = FR_OK \<Longrightarrow> clean blocks v1 \<and> winsect (fst v1) = b + 1" using mv(2) cv by simp
    ultimately show ?thesis using e cv that(3) by (auto simp: clean_def)
  qed
qed

end

lemma ldnumber: "get_ldnumber path = (vol, rest) \<Longrightarrow> vol < 0 \<or> vol = 0"
  by (auto simp: get_ldnumber_def Let_def word_less_nat_alt unsigned_eq_0_iff split: if_splits)

lemma same_layout_geometry:
  assumes "same_layout fs fs'"
  shows "geometry (fs'\<lparr>fs_type := t, fs_id := i\<rparr>) = geometry (fs\<lparr>fs_type := t\<rparr>)"
    and "data_layout (fs'\<lparr>fs_type := t, fs_id := i\<rparr>) = data_layout fs"
    and "mirror (fs'\<lparr>fs_type := t, fs_id := i\<rparr>) = mirror fs"
  using same_layoutD[OF assms] by (simp_all add: geometry_def data_layout_def mirror_def fun_eq_iff)

context sector_disk
begin

lemma mount_steps:
  assumes "mount_volume E s = (FR_OK, s')"
  obtains b v1 fmt fs v2 where "b \<noteq> 0xFFFFFFFF \<Longrightarrow> clean blocks v1 \<and> winsect (fst v1) = b"
    "\<not> wflag (fst v1)" "blocks (fst (snd v1)) = blocks (fst (snd (volume s)))" "same_volume (fst (volume s)) (fst v1)"
    "read_bpb b (fst v1) = (FR_OK, fmt, fs)" "v2 = read_fsinfo E b fmt (fs, snd v1)"
    "s' = s\<lparr>volume := ((fst v2)\<lparr>fs_type := fmt, fs_id := Fsid s + 1\<rparr>, snd v2), Fsid := Fsid s + 1\<rparr>"
proof -
  obtain f0 v0 where c0: "check_fs E 0 (volume s) = (f0, v0)" by (metis surj_pair)
  obtain f1 b v1 where c1: "(if f0 = 1 then find_partition E (map (partition_offset (fst v0)) [0, 1, 2, 3]) (f0, 0, v0)
      else (f0, 0, v0)) = (f1, b, v1)" by (metis surj_pair)
  have f1: "f1 = 0" using assms c0 c1 by (auto simp: mount_volume_def Let_def split: if_splits prod.splits)
  obtain r fmt fs where bp: "read_bpb b (fst v1) = (r, fmt, fs)" by (metis surj_pair)
  have r: "r = FR_OK" using assms c0 c1 f1 bp by (auto simp: mount_volume_def Let_def split: if_splits prod.splits)
  note k0 = check_fs_clean[OF c0]
  have "(b \<noteq> 0xFFFFFFFF \<longrightarrow> clean blocks v1 \<and> winsect (fst v1) = b) \<and> \<not> wflag (fst v1) \<and> blocks (fst (snd v1)) = blocks (fst (snd (volume s)))
    \<and> same_volume (fst (volume s)) (fst v1)"
  proof (cases "f0 = 1")
    case True
    then have "find_partition E (map (partition_offset (fst v0)) [0, 1, 2, 3]) (f0, 0, v0) = (f1, b, v1)" using c1 by simp
    from find_partition_clean[OF this k0(2)] show ?thesis using True f1 k0(1) same_volume_trans[OF k0(3)] by simp
  next
    case False
    then show ?thesis using c1 f1 k0 by auto
  qed
  moreover have "s' = s\<lparr>volume := ((fst (read_fsinfo E b fmt (fs, snd v1)))\<lparr>fs_type := fmt, fs_id := Fsid s + 1\<rparr>,
      snd (read_fsinfo E b fmt (fs, snd v1))), Fsid := Fsid s + 1\<rparr>"
    using assms c0 c1 f1 bp r by (auto simp: mount_volume_def Let_def)
  ultimately show ?thesis using that bp r by blast
qed

lemma mount_volume_sound:
  assumes "mount_volume E s = (FR_OK, s')" "drv (fst (volume s)) = SDC"
  defines "fs \<equiv> fst (volume s')"
  defines "boot \<equiv> blocks (fst (snd (volume s'))) (unat (volbase fs))"
  shows "registered s' = registered s \<and> Fsid s' = Fsid s + 1 \<and> fs_id fs = Fsid s + 1 \<and> drv fs = SDC
      \<and> blocks (fst (snd (volume s'))) = blocks (fst (snd (volume s)))"
    and "boot_fits (volbase fs) boot \<Longrightarrow> geometry fs \<and> data_layout fs \<and> unat (fsize fs) = boot_table boot
      \<and> unat (fatbase fs) = unat (volbase fs) + boot16 boot 14 \<and> unat (database fs) = unat (volbase fs) + boot_system boot
      \<and> unat (n_fatent fs) = boot_clusters boot + 2 \<and> n_fats fs = boot ! 16 \<and> csize fs = boot ! 13
      \<and> (fs_type fs \<noteq> FS_FAT32 \<or> never_fails E \<longrightarrow> coherent blocks (volume s'))"
proof -
  obtain b v1 fmt fs1 v2 where v1: "b \<noteq> 0xFFFFFFFF \<Longrightarrow> clean blocks v1 \<and> winsect (fst v1) = b" "\<not> wflag (fst v1)"
    "blocks (fst (snd v1)) = blocks (fst (snd (volume s)))" "same_volume (fst (volume s)) (fst v1)"
    and bp: "read_bpb b (fst v1) = (FR_OK, fmt, fs1)" and v2: "v2 = read_fsinfo E b fmt (fs1, snd v1)"
    and s': "s' = s\<lparr>volume := ((fst v2)\<lparr>fs_type := fmt, fs_id := Fsid s + 1\<rparr>, snd v2), Fsid := Fsid s + 1\<rparr>"
    using mount_steps[OF assms(1)] by blast
  note fr = bpb_frame[OF bp]
  have "\<not> wflag (fst (fs1, snd v1))" using fr v1(2) by simp
  note fi = fsinfo_clean[OF v2[symmetric] this]
  have sl: "same_layout fs1 (fst v2)" using fi(1) by simp
  have fs: "fs = (fst v2)\<lparr>fs_type := fmt, fs_id := Fsid s + 1\<rparr>" by (simp add: fs_def s')
  note D = same_layoutD[OF sl]
  have dr: "drv fs1 = SDC" using fr v1(4) assms(2) by (simp add: same_volumeD)
  have bl: "blocks (fst (snd (volume s'))) = blocks (fst (snd (volume s)))" using fi(1) v1(3) by (simp add: s')
  show "registered s' = registered s \<and> Fsid s' = Fsid s + 1 \<and> fs_id fs = Fsid s + 1 \<and> drv fs = SDC
      \<and> blocks (fst (snd (volume s'))) = blocks (fst (snd (volume s)))" using bl D dr by (simp add: fs s')
  assume fit: "boot_fits (volbase fs) boot"
  have b: "volbase fs = b" using fr D by (simp add: fs)
  have b32: "b \<noteq> 0xFFFFFFFF" using fit b by (auto simp: boot_fits_def)
  have cl: "clean blocks v1" "winsect (fst v1) = b" using v1(1) b32 by simp_all
  then have w: "win (fst v1) = boot" using bl v1(3) b by (simp add: boot_def clean_def)
  have ft: "boot_fits b (win (fst v1))" using fit w b by simp
  obtain r n where e: "fs1 = (fst v1)\<lparr>fsize := fsize fs1, n_fats := boot ! 16, csize := boot ! 13, n_rootdir := r, n_fatent := n,
        volbase := b, fatbase := fatbase fs1, database := database fs1, dirbase := dirbase fs1\<rparr>"
    and u: "unat (fsize fs1) = boot_table boot" "unat (fatbase fs1) = unat b + boot16 boot 14"
      "unat (database fs1) = unat b + boot_system boot" "unat n = boot_clusters boot + 2" "0 < boot16 boot 14"
    using bpb_fields[OF bp ft] unfolding w by blast
  have f: "n_fats fs1 = boot ! 16" "csize fs1 = boot ! 13" "n_fatent fs1 = n" by (subst e, simp)+
  note g = bpb_geometry[OF bp ft]
  have gd: "geometry fs" "data_layout fs" "mirror fs = mirror fs1" using g same_layout_geometry[OF sl] by (simp_all add: fs)
  have "coherent blocks (volume s')" if "fs_type fs \<noteq> FS_FAT32 \<or> never_fails E"
  proof -
    have "clean blocks v2 \<and> (winsect (fst v2) = b \<or> winsect (fst v2) = b + 1)"
      using fi(2) that dr cl fr by (simp add: fs clean_def)
    moreover have "unat (b + 1) = unat b + 1" using fit b by (simp add: unat_word_ariths(1) boot_fits_def)
    moreover have "1 \<le> unat (fsize fs1)"
      using geometryD(2,4)[OF gd(1)] D by (cases "unat (fsize fs1) = 0") (auto simp: fs fat_bytes_used_def split: if_splits)
    ultimately show ?thesis
      using gd u(2,5) sector_len by (auto simp: coherent_def clean_def s' fs mirror_def D)
  qed
  then show "geometry fs \<and> data_layout fs \<and> unat (fsize fs) = boot_table boot
      \<and> unat (fatbase fs) = unat (volbase fs) + boot16 boot 14 \<and> unat (database fs) = unat (volbase fs) + boot_system boot
      \<and> unat (n_fatent fs) = boot_clusters boot + 2 \<and> n_fats fs = boot ! 16 \<and> csize fs = boot ! 13
      \<and> (fs_type fs \<noteq> FS_FAT32 \<or> never_fails E \<longrightarrow> coherent blocks (volume s'))"
    using gd u f D b by (simp add: fs)
qed

end

subsection \<open>Sample cards\<close>

text \<open>A card of 20 sectors with one FAT12 volume of 16 clusters, and a boot sector of a volume of \<open>2\<^sup>3\<^sup>0\<close> sectors.\<close>

definition small_card :: "u8 list" where
  "small_card = [0xEB, 0x3C, 0x90, 0, 0, 0, 0, 0, 0, 0, 0, 0, 2, 1, 1, 0, 2, 16, 0, 20, 0, 0xF8, 1, 0]
     @ replicate 30 0 @ [0x46, 0x41, 0x54] @ replicate 453 0 @ [0x55, 0xAA]"

definition huge_card :: "u8 list" where
  "huge_card = [0xEB, 0x3C, 0x90, 0, 0, 0, 0, 0, 0, 0, 0, 0, 2, 1, 1, 0, 2, 0, 0, 0, 0, 0xF8, 0, 0]
     @ replicate 8 0 @ [0xFF, 0xFF, 0xFF, 0x3F, 0, 0, 0, 0] @ replicate 42 0 @ [0x46, 0x41, 0x54] @ replicate 425 0 @ [0x55, 0xAA]"

definition card_state :: "u8 list \<Rightarrow> (nat \<Rightarrow> u8 list) ff_state" where
  "card_state boot = \<lparr>registered = False, volume = (ram_fs 0, ((\<lambda>k. if k = 0 then boot else []), False)), Fsid = 0\<rparr>"

lemma small_fields: "length small_card = 512" "boot_fits 0 small_card" "boot_clusters small_card = 16"
  by (simp_all add: small_card_def boot_fits_def boot_clusters_def boot_total_def boot_system_def boot_table_def boot16_def)

lemma ram_read_0: "length (h 0) = 512 \<Longrightarrow> disk_read (sd (ram_env [])) SDC 0 1 (h, l) = (RES_OK, Some (h 0), (h, \<not> l))"
  by (simp add: disk_read_def ram_env_def ram_driver_def sdcard_activity_def pad512_id)

lemma ram_check_0:
  assumes "length (h 0) = 512" "drv fs = SDC"
  shows "move_window (ram_env []) 0 (fs\<lparr>wflag := False, winsect := 0xFFFFFFFF\<rparr>, (h, l))
    = (FR_OK, (fs\<lparr>wflag := False, winsect := 0, win := h 0\<rparr>, (h, \<not> l)))"
proof -
  have e: "fs\<lparr>wflag := False, winsect := 0xFFFFFFFF, win := h 0, winsect := 0\<rparr> = fs\<lparr>wflag := False, winsect := 0, win := h 0\<rparr>"
    by (rule fatfs.equality) simp_all
  show ?thesis using ram_read_0[of h l] assms by (simp add: move_window_def sync_window_def e)
qed

lemma small_bpb:
  assumes "win fs = small_card"
  shows "\<exists>fs'. read_bpb 0 fs = (FR_OK, FS_FAT12, fs') \<and> volbase fs' = 0"
  using assms
  by (simp add: read_bpb_def read_sizes_def read_layout_def offsets SS_def win_word_def win_dword_def small_card_def fat_sub_type_def
      fs_types MIN_FAT16_def MIN_FAT32_def)


lemma small_mounts: "\<exists>s'. f_mount (ram_env []) True [] 1 (card_state small_card) = (FR_OK, s') \<and> volbase (fst (volume s')) = 0"
proof -
  let ?fs = "(ram_fs 0)\<lparr>fs_type := 0, drv := 0\<rparr>" and ?h = "\<lambda>k :: nat. if k = 0 then small_card else []"
  let ?v = "(?fs\<lparr>wflag := False, winsect := 0, win := small_card\<rparr>, (?h, True))"
  have l: "length (?h 0) = 512" using small_fields by simp
  have sig: "win_word (fst ?v) 510 = 0xAA55" "win_dword (fst ?v) 54 AND 0xFFFFFF = 0x544146"
    by (simp_all add: win_word_def win_dword_def small_card_def)
  have "check_fs (ram_env []) 0 (?fs, (?h, False)) = (0, ?v)"
    using ram_check_0[of ?h ?fs False] l sig by (simp add: check_fs_def offsets SDC_def)
  moreover obtain fs' where "read_bpb 0 (fst ?v) = (FR_OK, FS_FAT12, fs')" "volbase fs' = 0"
    using small_bpb[of "fst ?v"] by auto
  ultimately have "mount_volume (ram_env []) \<lparr>registered = True, volume = (?fs, (?h, False)), Fsid = 0\<rparr> =
      (FR_OK, \<lparr>registered = True, volume = (fs'\<lparr>last_clust := 0xFFFFFFFF, free_clust := 0xFFFFFFFF, fsi_flag := 0x80,
         fs_type := FS_FAT12, fs_id := 1\<rparr>, (?h, True)), Fsid = 1\<rparr>)"
    by (simp add: mount_volume_def read_fsinfo_def fs_types)
  moreover have "disk_initialize (sd (ram_env [])) 0 d = 0" for d
    by (simp add: disk_initialize_def ram_env_def ram_driver_def SDC_def)
  ultimately show ?thesis using \<open>volbase fs' = 0\<close>
    by (simp add: f_mount_def get_ldnumber_def find_volume_def card_state_def)
qed


text \<open>\<open>find_volume\<close> computes the size of the table it needs with 32 bits: 0 for \<open>2\<^sup>3\<^sup>0\<close> entries. A boot sector whose
  table has no sectors at all is accepted, and the operations on the table then leave it.\<close>

lemma huge_volume_accepted:
  assumes "win fs = huge_card"
  shows "\<exists>fs'. read_bpb 0 fs = (FR_OK, FS_FAT32, fs') \<and> fsize fs' = 0 \<and> n_fatent fs' = 0x40000000 \<and> \<not> geometry (fs'\<lparr>fs_type := FS_FAT32\<rparr>)"
  using assms
  by (simp add: read_bpb_def read_sizes_def read_layout_def offsets SS_def win_word_def win_dword_def huge_card_def fat_sub_type_def
      fs_types MIN_FAT16_def MIN_FAT32_def geometry_def fat_bytes_used_def)

subsection \<open>Properties\<close>



end
