(* ===== verification/Fat_File.thy ===== *)
theory Fat_File
  imports Fat_Mount
begin

section \<open>Reading files (\<open>fatfs/src/ff.c\<close>: \<open>validate\<close>, \<open>f_read\<close>)\<close>

text \<open>
  An open file has a position, the cluster of the byte before it and a buffer for the sector it is in; whole sectors
  are read to the destination, as many at once as the cluster has. The state is the file object with the volume.
  The abstraction is \<open>file_content\<close>, the bytes of the sectors of the chain up to the size of the file, and the
  invariant \<open>reading\<close> relates the fields of the object to it.
\<close>

text \<open>\<open>fil_open\<close>: the object refers to the file system object; \<open>dir_ptr\<close> is an offset in the window.\<close>

record fil =
  fil_open :: bool
  fil_id :: u16
  flag :: u8
  err :: fresult
  fptr :: u32
  file_size :: u32
  sclust :: u32
  clust :: u32
  dsect :: u32
  dir_sect :: u32
  dir_ptr :: u32
  buf :: "u8 list"

definition FA_READ :: u8 where "FA_READ = 0x01"
definition FA__DIRTY :: u8 where "FA__DIRTY = 0x40"

subsection \<open>Operations\<close>

definition validate :: "'h fat_env \<Rightarrow> fil \<Rightarrow> 'h vol \<Rightarrow> fresult" where
  "validate E fp v =
     (if \<not> fil_open fp \<or> fs_type (fst v) = 0 \<or> fs_id (fst v) \<noteq> fil_id fp then FR_INVALID_OBJECT
      else if disk_status (sd E) (drv (fst v)) (snd v) AND STA_NOINIT \<noteq> 0 then FR_NOT_READY
      else FR_OK)"

text \<open>On a cluster boundary the next cluster is looked up.\<close>

definition follow_cluster :: "'h fat_env \<Rightarrow> fil \<Rightarrow> 'h vol \<Rightarrow> fresult \<times> fil \<times> 'h vol" where
  "follow_cluster E fp v =
     (let (clst, v) = (if fptr fp = 0 then (sclust fp, v) else get_fat E (clust fp) v)
      in if clst < 2 then (FR_INT_ERR, fp, v)
         else if clst = 0xFFFFFFFF then (FR_DISK_ERR, fp, v)
         else (FR_OK, fp\<lparr>clust := clst\<rparr>, v))"

text \<open>The bytes of the buffer from the position to the end of the sector.\<close>

definition copy_partial :: "u32 \<Rightarrow> fil \<Rightarrow> 'h vol \<Rightarrow> fresult \<times> u32 \<times> u8 list \<times> fil \<times> 'h vol" where
  "copy_partial btr fp v =
     (let rcnt = SS - fptr fp mod SS; rcnt = (if rcnt > btr then btr else rcnt)
      in (FR_OK, rcnt, take (unat rcnt) (drop (unat (fptr fp mod SS)) (buf fp)), fp, v))"

definition load_buffer :: "'h fat_env \<Rightarrow> u32 \<Rightarrow> fil \<Rightarrow> 'h vol \<Rightarrow> fresult \<times> fil \<times> 'h vol" where
  "load_buffer E sect fp v =
     (if dsect fp \<noteq> sect then
        let (r, fp, d) = (if flag fp AND FA__DIRTY \<noteq> 0
              then let (r, d) = disk_write (sd E) (drv (fst v)) (buf fp) (dsect fp) 1 (snd v)
                   in if r \<noteq> RES_OK then (FR_DISK_ERR, fp, d) else (FR_OK, fp\<lparr>flag := flag fp AND NOT FA__DIRTY\<rparr>, d)
              else (FR_OK, fp, snd v))
        in if r \<noteq> FR_OK then (r, fp, (fst v, d))
           else case disk_read (sd E) (drv (fst v)) sect 1 d of
                  (RES_OK, Some data, d) \<Rightarrow> (FR_OK, fp\<lparr>buf := data, dsect := sect\<rparr>, (fst v, d))
                | (_, _, d) \<Rightarrow> (FR_DISK_ERR, fp\<lparr>buf := torn E sect d\<rparr>, (fst v, d))
      else (FR_OK, fp, v))"

text \<open>Whole sectors; a sector that is changed in the buffer is taken from there.\<close>

definition read_direct :: "'h fat_env \<Rightarrow> u32 \<Rightarrow> u32 \<Rightarrow> fil \<Rightarrow> 'h vol \<Rightarrow> fresult \<times> u32 \<times> u8 list \<times> fil \<times> 'h vol" where
  "read_direct E sect cc fp v =
     (case disk_read (sd E) (drv (fst v)) sect (unat cc) (snd v) of
        (RES_OK, Some data, d) \<Rightarrow>
          let i = 512 * unat (dsect fp - sect);
              data = (if flag fp AND FA__DIRTY \<noteq> 0 \<and> dsect fp - sect < cc
                      then take i data @ buf fp @ drop (i + 512) data else data)
          in (FR_OK, SS * cc, data, fp, (fst v, d))
      | (_, _, d) \<Rightarrow> (FR_DISK_ERR, 0, [], fp, (fst v, d)))"

text \<open>One round of the loop of \<open>f_read\<close>: the result, the number of bytes and the bytes.\<close>

definition read_step :: "'h fat_env \<Rightarrow> u32 \<Rightarrow> fil \<Rightarrow> 'h vol \<Rightarrow> fresult \<times> u32 \<times> u8 list \<times> fil \<times> 'h vol" where
  "read_step E btr fp v =
     (if fptr fp mod SS = 0 then
        let csect = ucast (fptr fp div SS AND (ucast (csize (fst v)) - 1)) :: u8;
            (r, fp, v) = (if csect = 0 then follow_cluster E fp v else (FR_OK, fp, v))
        in if r \<noteq> FR_OK then (r, 0, [], fp, v)
        else let sect = clust2sect (fst v) (clust fp)
        in if sect = 0 then (FR_INT_ERR, 0, [], fp, v)
        else let sect = sect + ucast csect; cc = btr div SS
        in if cc \<noteq> 0
           then let cc = (if ucast csect + cc > ucast (csize (fst v)) then ucast (csize (fst v)) - ucast csect else cc)
                in read_direct E sect cc fp v
           else let (r, fp, v) = load_buffer E sect fp v
                in if r \<noteq> FR_OK then (r, 0, [], fp, v) else copy_partial btr fp v
      else copy_partial btr fp v)"

partial_function (option) read_loop ::
  "'h fat_env \<Rightarrow> u32 \<Rightarrow> u8 list \<Rightarrow> fil \<Rightarrow> 'h vol \<Rightarrow> (fresult \<times> u8 list \<times> fil \<times> 'h vol) option" where
  "read_loop E btr out fp v =
     (if btr = 0 then Some (FR_OK, out, fp, v)
      else let (r, rcnt, bytes, fp, v) = read_step E btr fp v
           in if r \<noteq> FR_OK then Some (r, out, fp\<lparr>err := r\<rparr>, v)
              else read_loop E (btr - rcnt) (out @ bytes) (fp\<lparr>fptr := fptr fp + rcnt\<rparr>) v)"

definition f_read :: "'h fat_env \<Rightarrow> fil \<Rightarrow> u32 \<Rightarrow> 'h vol \<Rightarrow> (fresult \<times> u8 list \<times> fil \<times> 'h vol) option" where
  "f_read E fp btr v =
     (let r = validate E fp v
      in if r \<noteq> FR_OK then Some (r, [], fp, v)
         else if err fp \<noteq> FR_OK then Some (err fp, [], fp, v)
         else if flag fp AND FA_READ = 0 then Some (FR_DENIED, [], fp, v)
         else let remain = file_size fp - fptr fp
              in read_loop E (if btr > remain then remain else btr) [] fp v)"

subsection \<open>The content of a file\<close>

text \<open>\<open>file_sector\<close>: the sector of the disk with the \<open>i\<close>th sector of a chain.\<close>

definition file_sector :: "fatfs \<Rightarrow> u32 list \<Rightarrow> nat \<Rightarrow> nat" where
  "file_sector fs cs i =
     (let k = unat (csize fs) in unat (database fs) + (unat (cs ! (i div k)) - 2) * k + i mod k)"

definition file_content :: "('h \<Rightarrow> nat \<Rightarrow> u8 list) \<Rightarrow> 'h vol \<Rightarrow> u32 list \<Rightarrow> u8 list" where
  "file_content blocks v cs =
     concat (map (\<lambda>i. blocks (fst (snd v)) (file_sector (fst v) cs i)) [0..<length cs * unat (csize (fst v))])"

text \<open>The volume and the buffer, and the position, of a file that is read.\<close>

definition file_ok :: "('h \<Rightarrow> nat \<Rightarrow> u8 list) \<Rightarrow> u32 list \<Rightarrow> fil \<Rightarrow> 'h vol \<Rightarrow> bool" where
  "file_ok blocks cs fp v \<longleftrightarrow> (let n = length cs * unat (csize (fst v)) in
     coherent blocks v \<and> data_layout (fst v) \<and> flag fp AND FA__DIRTY = 0
     \<and> chain (fat_of blocks v) (n_fatent (fst v)) (sclust fp) cs \<and> unat (file_size fp) \<le> 512 * n
     \<and> (dsect fp \<noteq> 0 \<longrightarrow> (\<exists>i < n. unat (dsect fp) = file_sector (fst v) cs i) \<and> buf fp = blocks (fst (snd v)) (unat (dsect fp)))
     \<and> (wflag (fst v) \<longrightarrow> (\<forall>i < n. unat (winsect (fst v)) \<noteq> file_sector (fst v) cs i)))"

definition position :: "fatfs \<Rightarrow> u32 list \<Rightarrow> fil \<Rightarrow> bool" where
  "position fs cs fp \<longleftrightarrow> (let p = unat (fptr fp) in p \<le> unat (file_size fp)
     \<and> (0 < p \<longrightarrow> clust fp = cs ! ((p - 1) div (512 * unat (csize fs))))
     \<and> (p mod 512 \<noteq> 0 \<longrightarrow> unat (dsect fp) = file_sector fs cs (p div 512)))"

definition reading :: "('h \<Rightarrow> nat \<Rightarrow> u8 list) \<Rightarrow> u32 list \<Rightarrow> fil \<Rightarrow> 'h vol \<Rightarrow> bool" where
  "reading blocks cs fp v \<longleftrightarrow> file_ok blocks cs fp v \<and> position (fst v) cs fp"

text \<open>What reading changes of the volume: the window, and the sector it held.\<close>

definition steady :: "('h \<Rightarrow> nat \<Rightarrow> u8 list) \<Rightarrow> u32 list \<Rightarrow> 'h vol \<Rightarrow> 'h vol \<Rightarrow> bool" where
  "steady blocks cs v v' \<longleftrightarrow> (let n = length cs * unat (csize (fst v)) in
     same_volume (fst v) (fst v') \<and> coherent blocks v'
     \<and> (\<forall>i < n. blocks (fst (snd v')) (file_sector (fst v) cs i) = blocks (fst (snd v)) (file_sector (fst v) cs i))
     \<and> (\<forall>c. 2 \<le> c \<and> c < n_fatent (fst v) \<longrightarrow> fat_of blocks v' c = fat_of blocks v c)
     \<and> (wflag (fst v') \<longrightarrow> (\<forall>i < n. unat (winsect (fst v')) \<noteq> file_sector (fst v) cs i)))"

definition same_file :: "fil \<Rightarrow> fil \<Rightarrow> bool" where
  "same_file fp fp' \<longleftrightarrow> (\<exists>c b s. fp' = fp\<lparr>clust := c, dsect := s, buf := b\<rparr>)"

definition same_object :: "fil \<Rightarrow> fil \<Rightarrow> bool" where
  "same_object fp fp' \<longleftrightarrow> fil_open fp' = fil_open fp \<and> fil_id fp' = fil_id fp \<and> flag fp' = flag fp \<and> err fp' = err fp
     \<and> file_size fp' = file_size fp \<and> sclust fp' = sclust fp"

lemma same_fileI: "same_file fp fp" "same_file fp (fp\<lparr>clust := c\<rparr>)" "same_file fp (fp\<lparr>buf := b, dsect := s\<rparr>)"
  "same_file fp (fp\<lparr>clust := c, buf := b, dsect := s\<rparr>)"
  unfolding same_file_def
     apply (rule exI[of _ "clust fp"], rule exI[of _ "buf fp"], rule exI[of _ "dsect fp"], simp)
    apply (rule exI[of _ c], rule exI[of _ "buf fp"], rule exI[of _ "dsect fp"], simp)
   apply (rule exI[of _ "clust fp"], rule exI[of _ b], rule exI[of _ s], rule fil.equality; simp)
  apply (rule exI[of _ c], rule exI[of _ b], rule exI[of _ s], rule fil.equality; simp)
  done

lemma same_fileD:
  assumes "same_file fp fp'"
  shows "fil_open fp' = fil_open fp" "fil_id fp' = fil_id fp" "flag fp' = flag fp" "err fp' = err fp" "fptr fp' = fptr fp"
    "file_size fp' = file_size fp" "sclust fp' = sclust fp" "dir_sect fp' = dir_sect fp" "dir_ptr fp' = dir_ptr fp"
  using assms by (auto simp: same_file_def)

lemma file_ok_fields:
  "file_ok blocks cs fp v \<Longrightarrow> file_ok blocks cs (fp\<lparr>clust := c\<rparr>) v" "file_ok blocks cs fp v \<Longrightarrow> file_ok blocks cs (fp\<lparr>fptr := p\<rparr>) v"
  by (simp_all add: file_ok_def)

lemma same_file_sector: "same_volume fs fs' \<Longrightarrow> file_sector fs' cs = file_sector fs cs"
  by (simp add: file_sector_def fun_eq_iff same_volumeD)

lemma steady_content:
  assumes "steady blocks cs v v'"
  shows "file_content blocks v' cs = file_content blocks v cs"
proof -
  have sv: "same_volume (fst v) (fst v')" using assms by (simp add: steady_def Let_def)
  have "map (\<lambda>i. blocks (fst (snd v')) (file_sector (fst v) cs i)) [0..<length cs * unat (csize (fst v))]
      = map (\<lambda>i. blocks (fst (snd v)) (file_sector (fst v) cs i)) [0..<length cs * unat (csize (fst v))]"
    using assms by (simp add: steady_def Let_def)
  then show ?thesis unfolding file_content_def same_file_sector[OF sv] same_volumeD(3)[OF sv] by (rule arg_cong)
qed

lemma steady_file_ok:
  assumes "file_ok blocks cs fp v" "steady blocks cs v v'"
  shows "file_ok blocks cs fp v'"
proof -
  have sv: "same_volume (fst v) (fst v')" using assms(2) by (simp add: steady_def Let_def)
  have "chain (fat_of blocks v') (n_fatent (fst v)) (sclust fp) cs"
    using assms chain_range[of "fat_of blocks v" "n_fatent (fst v)" "sclust fp" cs]
    by (subst chain_cong[of cs _ "fat_of blocks v"]) (auto simp: file_ok_def steady_def Let_def)
  moreover have "data_layout (fst v')" using assms(1) by (simp add: file_ok_def data_layout_def same_volumeD[OF sv] Let_def)
  ultimately show ?thesis
    using assms unfolding file_ok_def steady_def Let_def same_file_sector[OF sv] same_volumeD(3,5)[OF sv] by auto
qed

lemma steady_trans: "steady blocks cs a b \<Longrightarrow> steady blocks cs b c \<Longrightarrow> steady blocks cs a c"
  using same_volumeD(3,5)[of "fst a" "fst b"] same_file_sector[of "fst a" "fst b"]
  unfolding steady_def Let_def by (auto intro: same_volume_trans)

lemma steady_position: "steady blocks cs v v' \<Longrightarrow> position (fst v') cs fp = position (fst v) cs fp"
  using same_volumeD(3)[of "fst v" "fst v'"] same_file_sector[of "fst v" "fst v'"]
  by (simp add: steady_def position_def Let_def)

lemma unat32_less: "unat (x :: u32) < 4294967296"
  by (rule order.strict_trans2[OF unsigned_less]) simp

lemma same_cluster:
  assumes "0 < o'" "512 * (i mod k) + o' \<le> 512 * k"
  shows "(512 * i + o' - 1) div (512 * k) = (i :: nat) div k"
proof -
  let ?j = "512 * (i mod k) + o' - 1"
  have "512 * k * (i div k) + 512 * (i mod k) = 512 * (k * (i div k) + i mod k)" by (simp only: distrib_left mult.assoc)
  moreover have "k * (i div k) + i mod k = i" by simp
  ultimately have e: "512 * i + o' - 1 = ?j + 512 * k * (i div k)" using assms(1) by linarith
  have "?j < 512 * k" using assms by linarith
  then show ?thesis unfolding e by (subst div_mult_self2) auto
qed

lemma pow2_nat: "0 < n \<Longrightarrow> and n (n - 1) = 0 \<Longrightarrow> \<exists>m. (n :: nat) = 2 ^ m"
proof (induction n rule: less_induct)
  case (less n)
  have r: "2 * and (n div 2) ((n - 1) div 2) = 0" using less.prems(2) by (subst (asm) and_rec) auto
  show ?case
  proof (cases "even n")
    case True
    then obtain q where q: "n = 2 * q" by blast
    then have "0 < q" "q < n" using less.prems(1) by auto
    moreover from this have "(n - 1) div 2 = q - 1" using q by (cases q) auto
    then have "and q (q - 1) = 0" using q r by simp
    ultimately show ?thesis using less.IH[of q] q by (metis power_Suc)
  next
    case False
    then obtain q where q: "n = 2 * q + 1" by (blast elim: oddE)
    then have "n = 2 ^ 0" using r by simp
    then show ?thesis by blast
  qed
qed

lemma pow2_byte:
  assumes "(c :: u8) \<noteq> 0" "c AND (c - 1) = 0"
  shows "\<exists>m < 8. unat c = 2 ^ m"
proof -
  have z: "unat c \<noteq> 0" using assms(1) by (simp add: unsigned_eq_0_iff)
  then have "unat (c - 1) = unat c - 1" by (simp add: unat_sub word_le_nat_alt Suc_le_eq)
  then have "and (unat c) (unat c - 1) = 0" using assms(2) by (metis unsigned_0 unsigned_and_eq)
  then obtain m where m: "unat c = 2 ^ m" using pow2_nat[of "unat c"] z by auto
  have "unat c < 2 ^ 8" using unsigned_less[of c] by simp
  then have "m < 8" unfolding m by (simp only: power_strict_increasing_iff)
  then show ?thesis using m by blast
qed

lemma mask_sectors:
  assumes "(c :: u8) \<noteq> 0" "c AND (c - 1) = 0"
  shows "unat (ucast ((x :: u32) AND (ucast c - 1)) :: u8) = unat x mod unat c"
proof -
  obtain m where m: "m < 8" "unat c = 2 ^ m" using pow2_byte[OF assms] by blast
  have "m \<in> {0, 1, 2, 3, 4, 5, 6, 7}" using m(1) by auto
  then have "unat (2 ^ m :: u32) = 2 ^ m" by auto
  then have "ucast c = (2 ^ m :: u32)" using m by (simp add: word_unat_eq_iff unat_ucast_up)
  then have "x AND (ucast c - 1) = take_bit m x" by (simp add: take_bit_eq_mask mask_eq_exp_minus_1)
  moreover have "unat (ucast (take_bit m x) :: u8) = unat x mod 2 ^ m"
    using m(1) by (simp only: unsigned_ucast_eq unsigned_take_bit_eq take_bit_take_bit) (simp add: take_bit_nat_def)
  ultimately show ?thesis using m(2) by simp
qed

lemma concat_part:
  assumes "\<And>i. i < n \<Longrightarrow> length (f i) = 512" "i + m \<le> n"
  shows "take (512 * m) (drop (512 * i) (concat (map f [0..<n]))) = concat (map f [i..<i + m])"
proof -
  have len: "length (concat (map f [a..<b])) = 512 * (b - a)" if "b \<le> n" for a b
    using that assms(1) by (induction b) (auto simp: Suc_diff_le algebra_simps)
  have "[0..<n] = [0..<i] @ [i..<i + m] @ [i + m..<n]"
    using assms(2) by (metis le_add1 le_add2 add_0 le_trans upt_add_eq_append le_add_diff_inverse)
  then show ?thesis using len[of i 0] len[of "i + m" i] assms(2) by simp
qed

lemma concat_inside:
  assumes "\<And>i. i < n \<Longrightarrow> length (f i) = 512" "i < n" "o' + r \<le> 512"
  shows "take r (drop (512 * i + o') (concat (map f [0..<n]))) = take r (drop o' (f i))"
proof -
  have "take 512 (drop (512 * i) (concat (map f [0..<n]))) = f i"
    using concat_part[of n f i 1] assms(1,2) by simp
  then have "take r (drop o' (take 512 (drop (512 * i) (concat (map f [0..<n]))))) = take r (drop o' (f i))" by simp
  moreover have "min r (512 - o') = r" using assms(3) by simp
  ultimately show ?thesis by (simp add: drop_take add.commute)
qed

subsection \<open>Steps\<close>

lemma move_winsect:
  "move_window E s v = (FR_OK, v') \<Longrightarrow> winsect (fst v') = s \<and> fatbase (fst v') = fatbase (fst v)"
  by (auto simp: move_window_def sync_window_def Let_def split_beta split: if_splits prod.splits dresult.splits option.splits)

text \<open>After an entry was read the window is in the first copy of the table.\<close>

lemma get_fat_window:
  assumes "geometry (fst v)" "2 \<le> c" "c < n_fatent (fst v)" "get_fat E c v = (r, v')" "r \<noteq> 0xFFFFFFFF"
  shows "unat (winsect (fst v')) < unat (fatbase (fst v)) + unat (fsize (fst v))"
proof -
  note e = entry_bytes[OF assms(1-3)]
  note sc = scaled[OF e(2)]
  have in_table: "unat (fatbase (fst v) + bc div SS) < unat (fatbase (fst v)) + unat (fsize (fst v))" if "unat bc < 512 * unat (fsize (fst v))" for bc
    using fat_sector(1)[OF assms(1) that refl] that by (simp add: less_mult_imp_div_less mult.commute)
  consider "fs_type (fst v) = FS_FAT12" | "fs_type (fst v) = FS_FAT16" | "fs_type (fst v) = FS_FAT32"
    using geometryD(1)[OF assms(1)] by (auto simp: fat_type_def)
  then show ?thesis
  proof cases
    case 1
    let ?bc = "c + c div 2"
    obtain v1 where v1: "move_window E (fatbase (fst v) + ?bc div SS) v = (FR_OK, v1)"
      and m2: "move_window E (fatbase (fst v1) + (?bc + 1) div SS) v1 = (FR_OK, v')"
      using assms(2-5) 1 by (auto simp: get_fat_def Let_def not_le split: prod.splits if_splits)
    have "unat (?bc + 1) < 512 * unat (fsize (fst v))"
      using e unat_pos12[OF e(2)] 1 by (simp add: entry_pos_def entry_len_def fs_types)
    from in_table[OF this] show ?thesis using move_winsect[OF v1] move_winsect[OF m2] by simp
  next
    case 2
    then have m: "move_window E (fatbase (fst v) + (c * 2) div SS) v = (FR_OK, v')"
      using assms(2-5) by (auto simp: get_fat_def sc Let_def not_le fs_types split: prod.splits if_splits)
    have "unat (c * 2) < 512 * unat (fsize (fst v))" using e sc 2 by (simp add: entry_pos_def entry_len_def fs_types)
    from in_table[OF this] show ?thesis using move_winsect[OF m] by simp
  next
    case 3
    then have m: "move_window E (fatbase (fst v) + (c * 4) div SS) v = (FR_OK, v')"
      using assms(2-5) by (auto simp: get_fat_def sc Let_def not_le fs_types split: prod.splits if_splits)
    have "unat (c * 4) < 512 * unat (fsize (fst v))" using e sc 3 by (simp add: entry_pos_def entry_len_def fs_types)
    from in_table[OF this] show ?thesis using move_winsect[OF m] by simp
  qed
qed

text \<open>Sectors of a file.\<close>

lemma file_sector_spec:
  assumes "data_layout fs" "geometry fs" "chain F (n_fatent fs) c cs" "i < length cs * unat (csize fs)"
  defines "x \<equiv> cs ! (i div unat (csize fs))"
  shows "2 \<le> x" "x < n_fatent fs" "unat (clust2sect fs x) + i mod unat (csize fs) = file_sector fs cs i"
    and "0 < unat (clust2sect fs x)" "file_sector fs cs i < 2 ^ 32" "\<not> mirror fs (file_sector fs cs i)"
    and "unat (fatbase fs) + unat (fsize fs) \<le> file_sector fs cs i"
proof -
  let ?k = "unat (csize fs)" and ?n = "n_fatent fs"
  have k: "0 < ?k" using assms(1) by (simp add: data_layout_def unsigned_eq_0_iff flip: neq0_conv)
  have m: "i mod ?k < ?k" using k by simp
  have "i div ?k < length cs" using assms(4) by (simp add: less_mult_imp_div_less)
  then have "x \<in> set cs" by (simp add: x_def)
  then show x: "2 \<le> x" "x < ?n" using chain_range[OF assms(3)] by auto
  have u: "unat (x - 2) = unat x - 2" "2 \<le> unat x" "unat x < unat ?n" using x by (simp_all add: unat_sub word_le_nat_alt word_less_nat_alt)
  have n: "unat (?n - 2) = unat ?n - 2" using u by (simp add: unat_sub word_le_nat_alt)
  have "(unat x - 2 + 1) * ?k \<le> (unat ?n - 2) * ?k" using u by (intro mult_right_mono) auto
  then have le: "(unat x - 2) * ?k + ?k \<le> (unat ?n - 2) * ?k" by (simp add: algebra_simps)
  have db: "unat (database fs) + (unat ?n - 2) * ?k < 2 ^ 32" "unat (fatbase fs) + unat (n_fats fs) * unat (fsize fs) \<le> unat (database fs)"
    using assms(1) by (simp_all add: data_layout_def)
  have "\<not> x - 2 \<ge> ?n - 2" using u n by (simp add: word_le_nat_alt)
  moreover have "unat ((x - 2) * ucast (csize fs)) = (unat x - 2) * ?k"
    using le db u by (simp add: unat_word_ariths(2) unat_ucast_up)
  ultimately have cs: "unat (clust2sect fs x) = unat (database fs) + (unat x - 2) * ?k"
    using le db by (simp add: clust2sect_def unat_word_ariths(1))
  then show f: "unat (clust2sect fs x) + i mod ?k = file_sector fs cs i" by (simp add: file_sector_def Let_def x_def)
  show "file_sector fs cs i < 2 ^ 32" using cs f m le db by linarith
  have g: "unat (fatbase fs) + unat (fsize fs) \<le> unat (fatbase fs) + unat (n_fats fs) * unat (fsize fs)"
    using geometryD(4)[OF assms(2)] geometryD(5)[OF assms(2)] by simp
  show "unat (fatbase fs) + unat (fsize fs) \<le> file_sector fs cs i" using cs f db g by linarith
  have "0 < unat (fsize fs)"
    using geometryD(2,4)[OF assms(2)] by (cases "unat (fsize fs) = 0") (auto simp: fat_bytes_used_def split: if_splits)
  then show "0 < unat (clust2sect fs x)" using cs db g by linarith
  show "\<not> mirror fs (file_sector fs cs i)" using cs f db(2) by (simp add: mirror_def)
qed

lemma chain_next:
  assumes "chain F n c cs" "Suc j < length cs"
  shows "F (cs ! j) = cs ! Suc j"
  using assms
proof (induction cs arbitrary: c j)
  case (Cons x xs)
  then show ?case by (cases j; cases xs) auto
qed simp

context sector_disk
begin

lemma steady_get_fat:
  assumes "file_ok blocks cs fp v" "2 \<le> c" "c < n_fatent (fst v)" "get_fat E c v = (r, v')" "r \<noteq> 0xFFFFFFFF"
  shows "r = fat_of blocks v c \<and> steady blocks cs v v'"
proof -
  let ?n = "length cs * unat (csize (fst v))"
  have f: "coherent blocks v" "data_layout (fst v)" "chain (fat_of blocks v) (n_fatent (fst v)) (sclust fp) cs"
    "wflag (fst v) \<longrightarrow> (\<forall>i < ?n. unat (winsect (fst v)) \<noteq> file_sector (fst v) cs i)"
    using assms(1) by (simp_all add: file_ok_def Let_def)
  then have g: "geometry (fst v)" by (simp add: coherent_def)
  note s = get_fat_spec[OF f(1) assms(2-5)] and w = get_fat_window[OF g assms(2-5)]
  have sv: "same_volume (fst v) (fst v')" using s by (simp add: kept_def)
  have i: "unat (winsect (fst v')) \<noteq> file_sector (fst v) cs i
      \<and> blocks (fst (snd v')) (file_sector (fst v) cs i) = blocks (fst (snd v)) (file_sector (fst v) cs i)" if i: "i < ?n" for i
  proof -
    let ?k = "file_sector (fst v) cs i"
    note fs = file_sector_spec[OF f(2) g f(3) i]
    have ne: "unat (winsect (fst v')) \<noteq> ?k" using w fs(7) by linarith
    have "view blocks v' ?k = view blocks v ?k" using s fs(6) by (simp add: kept_def)
    moreover have "view blocks v ?k = blocks (fst (snd v)) ?k" using f(1,4) i by (auto simp: view_def coherent_def)
    ultimately show ?thesis using ne by (simp add: view_def)
  qed
  have "fat_of blocks v' x = fat_of blocks v x" if "2 \<le> x \<and> x < n_fatent (fst v)" for x
    using fat_of_kept[OF f(1)] that s by blast
  then show ?thesis using s sv i by (simp add: steady_def fat_of_def)
qed

lemma steady_read:
  assumes "file_ok blocks cs fp v" "blocks (fst d) = blocks (fst (snd v))"
  shows "steady blocks cs v (fst v, d)"
proof -
  have "coherent blocks (fst v, d)" using assms by (simp add: file_ok_def coherent_def Let_def)
  moreover have "fat_byte blocks (fst v, d) = fat_byte blocks v" using assms(2) by (simp add: fat_byte_def view_def fun_eq_iff)
  ultimately show ?thesis using assms by (simp add: steady_def file_ok_def Let_def fat_of_def)
qed

text \<open>On a cluster boundary.\<close>

lemma follow_ok:
  assumes "reading blocks cs fp v" "unat (fptr fp) = 512 * i" "i < length cs * unat (csize (fst v))" "i mod unat (csize (fst v)) = 0"
    and "follow_cluster E fp v = (r, fp', v')"
  shows "r = FR_OK \<Longrightarrow> fp' = fp\<lparr>clust := cs ! (i div unat (csize (fst v)))\<rparr> \<and> steady blocks cs v v'"
    and "never_fails E \<Longrightarrow> drv (fst v) = SDC \<Longrightarrow> r = FR_OK"
proof -
  let ?k = "unat (csize (fst v))" and ?n = "n_fatent (fst v)" and ?F = "fat_of blocks v"
  have ok: "file_ok blocks cs fp v" and ps: "position (fst v) cs fp" using assms(1) by (simp_all add: reading_def)
  then have c: "coherent blocks v" "data_layout (fst v)" "chain ?F ?n (sclust fp) cs" by (simp_all add: file_ok_def Let_def)
  have g: "geometry (fst v)" using c(1) by (simp add: coherent_def)
  note fs = file_sector_spec[OF c(2) g c(3) assms(3)]
  have big: "x < ?n \<Longrightarrow> x \<noteq> 0xFFFFFFFF" for x using geometryD(3)[OF g] by (auto simp: word_less_nat_alt)
  have j: "i div ?k < length cs" using assms(3) by (simp add: less_mult_imp_div_less)
  have step: "(r = FR_OK \<longrightarrow> fp' = fp\<lparr>clust := cs ! (i div ?k)\<rparr> \<and> steady blocks cs v v') \<and> (never_fails E \<and> drv (fst v) = SDC \<longrightarrow> r = FR_OK)"
  proof (cases "i = 0")
    case True
    then have "sclust fp = cs ! (i div ?k)" using c(3) j by (cases cs) auto
    then have "r = FR_OK \<and> fp' = fp\<lparr>clust := cs ! (i div ?k)\<rparr> \<and> v' = v"
      using assms(2,5) True leD[OF fs(1)] big[OF fs(2)] by (auto simp: follow_cluster_def unsigned_eq_0_iff)
    then show ?thesis using steady_read[OF ok, of "snd v"] by simp
  next
    case False
    obtain x v1 where gf: "get_fat E (clust fp) v = (x, v1)" by (metis surj_pair)
    have k: "0 < ?k" using c(2) by (simp add: data_layout_def unsigned_eq_0_iff flip: neq0_conv)
    have iq: "i = ?k * (i div ?k)" using assms(4) div_mult_mod_eq[of i ?k] by (simp add: mult.commute)
    then have "i div ?k \<noteq> 0" using False by (metis mult_0_right)
    then obtain q where "i div ?k = Suc q" using not0_implies_Suc by blast
    with iq have q: "i = ?k * Suc q" by metis
    have i1: "(i - 1) div ?k = q" "i div ?k = Suc q" using q k by (auto intro: div_nat_eqI)
    have "Suc ((i - 1) mod ?k) \<le> ?k" using k by (simp add: Suc_le_eq)
    then have "512 * ((i - 1) mod ?k) + 512 \<le> 512 * ?k" by linarith
    moreover have "512 * (i - 1) + 512 = 512 * i" using False by simp
    ultimately have "(512 * i - 1) div (512 * ?k) = q" using same_cluster[of 512 "i - 1" ?k] i1 by simp
    then have cl: "clust fp = cs ! q" using ps assms(2) False by (simp add: position_def Let_def)
    have "cs ! q \<in> set cs" using j i1 by simp
    then have rg: "2 \<le> cs ! q" "cs ! q < ?n" using chain_range[OF c(3)] by auto
    have nx: "?F (cs ! q) = cs ! Suc q" using chain_next[OF c(3)] j i1 by simp
    have sp: "x = cs ! Suc q \<and> steady blocks cs v v1" if "x \<noteq> 0xFFFFFFFF"
      using steady_get_fat[OF ok rg] gf cl that nx by simp
    have wk: "x \<noteq> 0xFFFFFFFF" if "never_fails E \<and> drv (fst v) = SDC"
      using get_fat_works[of E v "clust fp"] gf that geometryD(1)[OF g] by simp
    have "fptr fp \<noteq> 0" using assms(2) False by auto
    then have "(r, fp', v') = (if x < 2 then (FR_INT_ERR, fp, v1) else if x = 0xFFFFFFFF then (FR_DISK_ERR, fp, v1) else (FR_OK, fp\<lparr>clust := x\<rparr>, v1))"
      using assms(5) gf by (simp add: follow_cluster_def)
    then show ?thesis using sp wk leD[OF fs(1)] i1 by (auto split: if_splits)
  qed
  show "r = FR_OK \<Longrightarrow> fp' = fp\<lparr>clust := cs ! (i div ?k)\<rparr> \<and> steady blocks cs v v'" using step by blast
  show "never_fails E \<Longrightarrow> drv (fst v) = SDC \<Longrightarrow> r = FR_OK" using step by blast
qed

lemma copy_ok:
  assumes "file_ok blocks cs fp v" "unat (fptr fp) = 512 * i + o'" "o' < 512" "i < length cs * unat (csize (fst v))"
    and "unat (dsect fp) = file_sector (fst v) cs i" "clust fp = cs ! (i div unat (csize (fst v)))"
    and "0 < unat btr" "unat (fptr fp) + unat btr \<le> unat (file_size fp)" "copy_partial btr fp v = (r, rcnt, bytes, fp', v')"
  shows "r = FR_OK \<and> fp' = fp \<and> v' = v \<and> 0 < unat rcnt \<and> unat rcnt \<le> unat btr
    \<and> bytes = take (unat rcnt) (drop (unat (fptr fp)) (file_content blocks v cs)) \<and> position (fst v) cs (fp\<lparr>fptr := fptr fp + rcnt\<rparr>)"
proof -
  let ?k = "unat (csize (fst v))" and ?n = "length cs * unat (csize (fst v))"
  have c: "coherent blocks v" "data_layout (fst v)" "chain (fat_of blocks v) (n_fatent (fst v)) (sclust fp) cs"
    and b: "dsect fp \<noteq> 0 \<longrightarrow> buf fp = blocks (fst (snd v)) (unat (dsect fp))" using assms(1) by (simp_all add: file_ok_def Let_def)
  have g: "geometry (fst v)" using c(1) by (simp add: coherent_def)
  note fs = file_sector_spec[OF c(2) g c(3) assms(4)]
  have k: "0 < ?k" using c(2) by (simp add: data_layout_def unsigned_eq_0_iff flip: neq0_conv)
  have "dsect fp \<noteq> 0" using fs(3,4) assms(5) by (auto simp: unsigned_eq_0_iff)
  then have bf: "buf fp = blocks (fst (snd v)) (file_sector (fst v) cs i)" using b assms(5) by simp
  have o1: "unat (fptr fp mod SS) = o'" using assms(2,3) by (simp add: SS_def unat_mod)
  then have "unat (SS - fptr fp mod SS) = 512 - o'" using assms(3) by (simp add: SS_def unat_sub word_le_nat_alt)
  then have rc: "unat rcnt = min (512 - o') (unat btr)" and by1: "r = FR_OK" "fp' = fp" "v' = v"
    and bt: "bytes = take (unat rcnt) (drop o' (buf fp))"
    using assms(9) o1 by (auto simp: copy_partial_def Let_def word_less_nat_alt min_def split: if_splits)
  have pos: "0 < unat rcnt" "unat rcnt \<le> unat btr" "o' + unat rcnt \<le> 512" using rc assms(3,7) by auto
  have "take (unat rcnt) (drop (512 * i + o') (file_content blocks v cs)) = bytes"
    unfolding file_content_def bt bf using assms(4) pos(3) sector_len by (intro concat_inside) auto
  moreover have p1: "unat (fptr fp + rcnt) = 512 * i + (o' + unat rcnt)"
    using assms(2,8) pos unat32_less[of "file_size fp"] by (simp add: unat_word_ariths(1))
  have m: "Suc (i mod ?k) \<le> ?k" using k by (simp add: Suc_le_eq)
  then have "512 * (i mod ?k) + (o' + unat rcnt) \<le> 512 * ?k" using pos(3) by linarith
  then have "(512 * i + (o' + unat rcnt) - 1) div (512 * ?k) = i div ?k" using pos(1) by (intro same_cluster) auto
  moreover have "(512 * i + (o' + unat rcnt)) div 512 = i" if "(512 * i + (o' + unat rcnt)) mod 512 \<noteq> 0"
  proof -
    have "o' + unat rcnt \<noteq> 512" using that by (metis mod_mult_self1_is_0 mod_mult_self2 mult_Suc_right add.commute)
    then show ?thesis using pos(3) by simp
  qed
  ultimately show ?thesis using by1 pos assms(2,5,6,8) p1 by (simp add: position_def)
qed

lemma disk_read_many:
  assumes "disk_read (sd E) p a n d = (RES_OK, out, d')"
  shows "out = Some (concat (map (blocks (fst d)) [unat a..<unat a + n])) \<and> blocks (fst d') = blocks (fst d)"
proof -
  obtain data h' where "sdc_read (sd E) a n (fst d) = (False, data, h')" "out = Some data" "fst d' = h'"
    using assms by (auto simp: disk_read_def sdcard_activity_def Let_def split: if_splits prod.splits)
  with read_ok[OF this(1)] show ?thesis by auto
qed

lemma direct_ok:
  assumes "file_ok blocks cs fp v" "unat (fptr fp) = 512 * i" "clust fp = cs ! (i div unat (csize (fst v)))"
    and "unat sect = file_sector (fst v) cs i" "0 < unat cc" "i mod unat (csize (fst v)) + unat cc \<le> unat (csize (fst v))"
    and "512 * unat cc \<le> unat (btr :: u32)" "unat (fptr fp) + unat btr \<le> unat (file_size fp)"
    and "read_direct E sect cc fp v = (r, rcnt, bytes, fp', v')"
  shows "r = FR_OK \<Longrightarrow> fp' = fp \<and> steady blocks cs v v' \<and> 0 < unat rcnt \<and> unat rcnt \<le> unat btr
      \<and> bytes = take (unat rcnt) (drop (unat (fptr fp)) (file_content blocks v cs)) \<and> position (fst v) cs (fp\<lparr>fptr := fptr fp + rcnt\<rparr>)"
    and "never_fails E \<Longrightarrow> drv (fst v) = SDC \<Longrightarrow> r = FR_OK"
proof -
  let ?k = "unat (csize (fst v))" and ?n = "length cs * unat (csize (fst v))" and ?c = "unat cc"
  have dirty: "flag fp AND FA__DIRTY = 0" and sz: "unat (file_size fp) \<le> 512 * ?n" using assms(1) by (simp_all add: file_ok_def Let_def)
  obtain e out d where rd: "disk_read (sd E) (drv (fst v)) sect ?c (snd v) = (e, out, d)" by (metis surj_pair)
  show "r = FR_OK" if "never_fails E" "drv (fst v) = SDC"
    using disk_works(2)[OF that(1), of sect ?c "snd v"] rd that(2) assms(9) dirty by (auto simp: read_direct_def Let_def)
  assume "r = FR_OK"
  then have ok: "e = RES_OK" "out = Some bytes" "rcnt = SS * cc" "fp' = fp" "v' = (fst v, d)"
    using assms(9) rd dirty by (auto simp: read_direct_def Let_def split: dresult.splits option.splits)
  note dm = disk_read_many[OF rd[unfolded ok(1)]]
  have u: "unat rcnt = 512 * ?c" using assms(7) unat32_less[of btr] by (simp add: ok(3) SS_def unat_word_ariths(2))
  have "512 * (i + ?c) \<le> 512 * ?n" using assms(2,7,8) sz by simp
  then have le: "i + ?c \<le> ?n" by simp
  have sq: "file_sector (fst v) cs (i + j) = file_sector (fst v) cs i + j" if "j < ?c" for j
  proof -
    have ij: "i + j = (i mod ?k + j) + ?k * (i div ?k)" by simp
    have "i mod ?k + j < ?k" using that assms(6) by linarith
    then have "(i + j) div ?k = i div ?k" "(i + j) mod ?k = i mod ?k + j"
      unfolding ij by (simp_all only: div_mult_self2 mod_mult_self2) auto
    then show ?thesis by (simp add: file_sector_def Let_def)
  qed
  have "map (blocks (fst (snd v))) [unat sect..<unat sect + ?c]
      = map (\<lambda>j. blocks (fst (snd v)) (file_sector (fst v) cs j)) [i..<i + ?c]"
    unfolding assms(4) by (rule nth_equalityI) (auto simp: sq)
  then have "bytes = concat (map (\<lambda>j. blocks (fst (snd v)) (file_sector (fst v) cs j)) [i..<i + ?c])" using dm ok(2) by simp
  moreover have "take (512 * ?c) (drop (512 * i) (file_content blocks v cs))
      = concat (map (\<lambda>j. blocks (fst (snd v)) (file_sector (fst v) cs j)) [i..<i + ?c])"
    unfolding file_content_def using le sector_len by (intro concat_part) auto
  moreover have st: "steady blocks cs v v'" using steady_read[OF assms(1), of d] dm ok(5) by simp
  moreover have p1: "unat (fptr fp + rcnt) = 512 * (i + ?c - 1) + 512"
    using assms(2,5,7,8) u unat32_less[of "file_size fp"] by (simp add: unat_word_ariths(1))
  moreover have "(512 * (i + ?c - 1) + 512 - 1) div (512 * ?k) = i div ?k"
  proof -
    have ij: "i + ?c - 1 = (i mod ?k + ?c - 1) + ?k * (i div ?k)" using assms(5) by simp
    have l: "i mod ?k + ?c - 1 < ?k" using assms(5,6) by linarith
    have "(i + ?c - 1) div ?k = i div ?k" "(i + ?c - 1) mod ?k = i mod ?k + ?c - 1"
      unfolding ij using l by (simp_all only: div_mult_self2 mod_mult_self2) auto
    moreover have "512 * (i mod ?k + ?c - 1) + 512 \<le> 512 * ?k" using assms(5,6) by linarith
    ultimately show ?thesis using same_cluster[of 512 "i + ?c - 1" ?k] by simp
  qed
  ultimately show "fp' = fp \<and> steady blocks cs v v' \<and> 0 < unat rcnt \<and> unat rcnt \<le> unat btr
      \<and> bytes = take (unat rcnt) (drop (unat (fptr fp)) (file_content blocks v cs)) \<and> position (fst v) cs (fp\<lparr>fptr := fptr fp + rcnt\<rparr>)"
    using ok(4) u assms(2,3,5,7,8) by (simp add: position_def Let_def)
qed

lemma load_ok:
  assumes "file_ok blocks cs fp v" "i < length cs * unat (csize (fst v))" "unat sect = file_sector (fst v) cs i"
    and "load_buffer E sect fp v = (r, fp', v')"
  shows "r = FR_OK \<Longrightarrow> steady blocks cs v v' \<and> file_ok blocks cs fp' v' \<and> dsect fp' = sect \<and> (\<exists>b. fp' = fp\<lparr>buf := b, dsect := sect\<rparr>)"
    and "never_fails E \<Longrightarrow> drv (fst v) = SDC \<Longrightarrow> r = FR_OK"
proof -
  have dirty: "flag fp AND FA__DIRTY = 0" using assms(1) by (simp add: file_ok_def Let_def)
  obtain e out d where rd: "disk_read (sd E) (drv (fst v)) sect 1 (snd v) = (e, out, d)" by (metis surj_pair)
  show "r = FR_OK" if "never_fails E" "drv (fst v) = SDC"
    using disk_works(2)[OF that(1), of sect 1 "snd v"] rd that(2) assms(4) dirty by (auto simp: load_buffer_def split: if_splits)
  assume r: "r = FR_OK"
  show "steady blocks cs v v' \<and> file_ok blocks cs fp' v' \<and> dsect fp' = sect \<and> (\<exists>b. fp' = fp\<lparr>buf := b, dsect := sect\<rparr>)"
  proof (cases "dsect fp = sect")
    case True
    then have "fp' = fp" "v' = v" using assms(4) by (simp_all add: load_buffer_def)
    moreover have "fp = fp\<lparr>buf := buf fp, dsect := sect\<rparr>" using True by simp
    ultimately show ?thesis using steady_read[OF assms(1), of "snd v"] assms(1) True by (simp, metis)
  next
    case False
    then obtain data where o: "e = RES_OK" "out = Some data" "fp' = fp\<lparr>buf := data, dsect := sect\<rparr>" "v' = (fst v, d)"
      using assms(4) rd dirty r by (auto simp: load_buffer_def split: dresult.splits option.splits)
    note dm = disk_read_1[OF rd[unfolded o(1)]]
    have st: "steady blocks cs v v'" using steady_read[OF assms(1), of d] dm o(4) by simp
    have "file_ok blocks cs fp v'" using steady_file_ok[OF assms(1) st] .
    then have "file_ok blocks cs fp' v'" using o dm assms(2,3) by (auto simp: file_ok_def Let_def)
    then show ?thesis using st o by auto
  qed
qed

lemma at_sector:
  assumes "reading blocks cs fp v" "0 < unat btr" "unat (fptr fp) + unat btr \<le> unat (file_size fp)"
  defines "p \<equiv> unat (fptr fp)" and "k \<equiv> unat (csize (fst v))"
  shows "p div 512 < length cs * k" "0 < k"
    and "p mod 512 \<noteq> 0 \<or> p div 512 mod k \<noteq> 0 \<Longrightarrow> clust fp = cs ! (p div 512 div k)"
proof -
  have ok: "file_ok blocks cs fp v" and ps: "position (fst v) cs fp" using assms(1) by (simp_all add: reading_def)
  have "p < 512 * (length cs * k)" using ok assms(2,3) by (simp add: file_ok_def Let_def p_def k_def)
  then show "p div 512 < length cs * k" by (simp add: less_mult_imp_div_less mult.commute)
  show k: "0 < k" using ok by (simp add: file_ok_def data_layout_def k_def unsigned_eq_0_iff Let_def flip: neq0_conv)
  have cl: "0 < p \<Longrightarrow> clust fp = cs ! ((p - 1) div (512 * k))" using ps by (simp add: position_def Let_def p_def k_def)
  define i where "i = p div 512"
  have m: "Suc (i mod k) \<le> k" using k by (simp add: Suc_le_eq)
  assume "p mod 512 \<noteq> 0 \<or> p div 512 mod k \<noteq> 0"
  then consider "p mod 512 \<noteq> 0" | "p mod 512 = 0" "i mod k \<noteq> 0" unfolding i_def by blast
  then have "0 < p \<and> (p - 1) div (512 * k) = i div k"
  proof cases
    case 1
    have "p mod 512 < 512" by simp
    then have "512 * (i mod k) + p mod 512 \<le> 512 * k" using m by linarith
    then have "(512 * i + p mod 512 - 1) div (512 * k) = i div k" using 1 by (intro same_cluster) auto
    moreover have "512 * i + p mod 512 = p" by (simp add: i_def)
    ultimately show ?thesis using 1 by (auto intro: gr0I)
  next
    case 2
    then have i: "0 < i" by (auto intro: gr0I)
    have e: "i - 1 = (i mod k - 1) + k * (i div k)" using 2(2) by simp
    have "i mod k - 1 < k" using m by linarith
    then have d: "(i - 1) div k = i div k" "(i - 1) mod k = i mod k - 1"
      unfolding e by (simp_all only: div_mult_self2 mod_mult_self2) auto
    have q: "512 * (i - 1) + 512 = p" using 2(1) i by (auto simp: i_def)
    have "(512 * (i - 1) + 512 - 1) div (512 * k) = (i - 1) div k" using d m by (intro same_cluster) auto
    then have "(p - 1) div (512 * k) = i div k" unfolding q d(1) .
    then show ?thesis using q by simp
  qed
  then show "clust fp = cs ! (p div 512 div k)" using cl by (simp add: i_def)
qed

text \<open>At the start of a sector: its number, and the cluster of the file object.\<close>

lemma sector_start:
  assumes "reading blocks cs fp v" "0 < unat btr" "unat (fptr fp) + unat btr \<le> unat (file_size fp)" "unat (fptr fp) = 512 * i"
    and "(if i mod unat (csize (fst v)) = 0 then follow_cluster E fp v else (FR_OK, fp, v)) = (r, fp1, v1)"
  shows "r = FR_OK \<Longrightarrow> (\<exists>c. fp1 = fp\<lparr>clust := c\<rparr>) \<and> steady blocks cs v v1 \<and> file_ok blocks cs fp1 v1
      \<and> clust fp1 = cs ! (i div unat (csize (fst v))) \<and> clust2sect (fst v1) (clust fp1) \<noteq> 0
      \<and> unat (clust2sect (fst v1) (clust fp1)) + i mod unat (csize (fst v)) = file_sector (fst v) cs i \<and> file_sector (fst v) cs i < 2 ^ 32"
    and "never_fails E \<Longrightarrow> drv (fst v) = SDC \<Longrightarrow> r = FR_OK"
proof -
  let ?k = "unat (csize (fst v))"
  have ok: "file_ok blocks cs fp v" using assms(1) by (simp add: reading_def)
  note a = at_sector[OF assms(1-3)]
  have i: "i < length cs * ?k" using a(1) assms(4) by simp
  show "r = FR_OK" if "never_fails E" "drv (fst v) = SDC"
    using follow_ok(2)[OF assms(1,4) i] assms(5) that by (auto split: if_splits)
  assume r: "r = FR_OK"
  have 1: "(\<exists>c. fp1 = fp\<lparr>clust := c\<rparr>) \<and> steady blocks cs v v1 \<and> clust fp1 = cs ! (i div ?k)"
  proof (cases "i mod ?k = 0")
    case True
    then show ?thesis using follow_ok(1)[OF assms(1,4) i] assms(5) r by auto
  next
    case False
    then have e: "fp1 = fp" "v1 = v" using assms(5) by simp_all
    have "\<exists>c. fp = fp\<lparr>clust := c\<rparr>" by (rule exI[of _ "clust fp"]) simp
    moreover have "clust fp = cs ! (i div ?k)" using a(3) False assms(4) by simp
    ultimately show ?thesis using steady_read[OF ok, of "snd v"] e by simp
  qed
  then have ok1: "file_ok blocks cs fp1 v1" using steady_file_ok[OF ok] file_ok_fields(1) by blast
  have sv: "same_volume (fst v) (fst v1)" using 1 by (simp add: steady_def Let_def)
  have c: "data_layout (fst v1)" "geometry (fst v1)" "chain (fat_of blocks v1) (n_fatent (fst v1)) (sclust fp1) cs"
    using ok1 by (simp_all add: file_ok_def coherent_def Let_def)
  have i1: "i < length cs * unat (csize (fst v1))" using i same_volumeD(3)[OF sv] by simp
  note fs = file_sector_spec[OF c i1]
  show "(\<exists>c. fp1 = fp\<lparr>clust := c\<rparr>) \<and> steady blocks cs v v1 \<and> file_ok blocks cs fp1 v1
      \<and> clust fp1 = cs ! (i div ?k) \<and> clust2sect (fst v1) (clust fp1) \<noteq> 0
      \<and> unat (clust2sect (fst v1) (clust fp1)) + i mod ?k = file_sector (fst v) cs i \<and> file_sector (fst v) cs i < 2 ^ 32"
    using 1 ok1 fs(3,4,5) by (auto simp: same_volumeD(3)[OF sv] same_file_sector[OF sv])
qed

lemma read_step_inside: "fptr fp mod SS \<noteq> 0 \<Longrightarrow> read_step E btr fp v = copy_partial btr fp v"
  by (simp add: read_step_def)

lemma read_step_start:
  assumes "fptr fp mod SS = 0" "csect = (ucast (fptr fp div SS AND (ucast (csize (fst v)) - 1)) :: u8)"
    and "(if csect = 0 then follow_cluster E fp v else (FR_OK, fp, v)) = (r, fp1, v1)"
  shows "r \<noteq> FR_OK \<Longrightarrow> read_step E btr fp v = (r, 0, [], fp1, v1)"
    and "r = FR_OK \<Longrightarrow> clust2sect (fst v1) (clust fp1) \<noteq> 0 \<Longrightarrow> btr div SS \<noteq> 0 \<Longrightarrow>
      read_step E btr fp v = read_direct E (clust2sect (fst v1) (clust fp1) + ucast csect)
        (if ucast csect + btr div SS > ucast (csize (fst v1)) then ucast (csize (fst v1)) - ucast csect else btr div SS) fp1 v1"
    and "r = FR_OK \<Longrightarrow> clust2sect (fst v1) (clust fp1) \<noteq> 0 \<Longrightarrow> btr div SS = 0 \<Longrightarrow>
      load_buffer E (clust2sect (fst v1) (clust fp1) + ucast csect) fp1 v1 = (r2, fp2, v2) \<Longrightarrow>
      read_step E btr fp v = (if r2 \<noteq> FR_OK then (r2, 0, [], fp2, v2) else copy_partial btr fp2 v2)"
  using assms(1) assms(3)[unfolded assms(2)] by (simp_all only: read_step_def Let_def assms(2) if_True prod.case split: if_split) simp_all

lemma step_inside:
  assumes "reading blocks cs fp v" "0 < unat btr" "unat (fptr fp) + unat btr \<le> unat (file_size fp)"
    and "read_step E btr fp v = (r, rcnt, bytes, fp', v')" "unat (fptr fp) mod 512 \<noteq> 0"
  shows "r = FR_OK \<and> 0 < unat rcnt \<and> unat rcnt \<le> unat btr \<and> same_file fp fp' \<and> steady blocks cs v v'
      \<and> bytes = take (unat rcnt) (drop (unat (fptr fp)) (file_content blocks v cs)) \<and> reading blocks cs (fp'\<lparr>fptr := fptr fp' + rcnt\<rparr>) v'"
proof -
  define i where "i = unat (fptr fp) div 512"
  have ok: "file_ok blocks cs fp v" using assms(1) by (simp add: reading_def)
  note a = at_sector[OF assms(1-3), folded i_def]
  have "unat (fptr fp mod SS) \<noteq> 0" using assms(5) by (simp add: SS_def unat_mod)
  then have "fptr fp mod SS \<noteq> 0" by (metis unsigned_0)
  then have cp: "copy_partial btr fp v = (r, rcnt, bytes, fp', v')" using assms(4) read_step_inside by metis
  have ds: "unat (dsect fp) = file_sector (fst v) cs i" using assms(1,5) by (simp add: reading_def position_def i_def Let_def)
  have "unat (fptr fp) = 512 * i + unat (fptr fp) mod 512" by (simp add: i_def)
  from copy_ok[OF ok this _ a(1) ds _ assms(2,3) cp] have "r = FR_OK \<and> fp' = fp \<and> v' = v \<and> 0 < unat rcnt \<and> unat rcnt \<le> unat btr
      \<and> bytes = take (unat rcnt) (drop (unat (fptr fp)) (file_content blocks v cs)) \<and> position (fst v) cs (fp\<lparr>fptr := fptr fp + rcnt\<rparr>)"
    using a(3) assms(5) by simp
  then show ?thesis using steady_read[OF ok, of "snd v"] same_fileI(1) file_ok_fields(2)[OF ok] by (auto simp: reading_def)
qed

lemma step_start:
  assumes "reading blocks cs fp v" "0 < unat btr" "unat (fptr fp) + unat btr \<le> unat (file_size fp)"
    and "read_step E btr fp v = (r, rcnt, bytes, fp', v')" "unat (fptr fp) mod 512 = 0"
  shows "(r = FR_OK \<longrightarrow> 0 < unat rcnt \<and> unat rcnt \<le> unat btr \<and> same_file fp fp' \<and> steady blocks cs v v'
      \<and> bytes = take (unat rcnt) (drop (unat (fptr fp)) (file_content blocks v cs)) \<and> reading blocks cs (fp'\<lparr>fptr := fptr fp' + rcnt\<rparr>) v')
    \<and> (never_fails E \<and> drv (fst v) = SDC \<longrightarrow> r = FR_OK)"
proof -
  let ?k = "unat (csize (fst v))"
  define i where "i = unat (fptr fp) div 512"
  have ok: "file_ok blocks cs fp v" using assms(1) by (simp add: reading_def)
  note a = at_sector[OF assms(1-3), folded i_def]
  have fi: "unat (fptr fp) = 512 * i" using assms(5) by (auto simp: i_def)
  have fm: "fptr fp mod SS = 0" using assms(5) by (simp add: word_unat_eq_iff SS_def unat_mod)
  define csect :: u8 where "csect = ucast (fptr fp div SS AND (ucast (csize (fst v)) - 1))"
  have cz: "csize (fst v) \<noteq> 0" "csize (fst v) AND (csize (fst v) - 1) = 0" using ok by (simp_all add: file_ok_def data_layout_def Let_def)
  have cu: "unat csect = i mod ?k" using mask_sectors[OF cz, of "fptr fp div SS"] by (simp add: csect_def i_def SS_def unat_div)
  then have c0: "csect = 0 \<longleftrightarrow> i mod ?k = 0" by (metis unsigned_eq_0_iff)
  obtain r1 fp1 v1 where st: "(if csect = 0 then follow_cluster E fp v else (FR_OK, fp, v)) = (r1, fp1, v1)" by (metis surj_pair)
  note ss = sector_start[OF assms(1-3) fi st[unfolded c0]]
  note rs = read_step_start[OF fm csect_def st, where btr = btr]
  show ?thesis
  proof (cases "r1 = FR_OK")
    case False
    then show ?thesis using rs(1) ss(2) assms(4) by auto
  next
    case True
    note s1 = ss(1)[OF True]
    obtain c where fp1: "fp1 = fp\<lparr>clust := c\<rparr>" using s1 by blast
    have sv: "same_volume (fst v) (fst v1)" using s1 by (simp add: steady_def Let_def)
    have k1: "csize (fst v1) = csize (fst v)" "drv (fst v1) = drv (fst v)" "file_sector (fst v1) cs = file_sector (fst v) cs"
      using same_volumeD(2,3)[OF sv] same_file_sector[OF sv] by simp_all
    let ?sect = "clust2sect (fst v1) (clust fp1) + ucast csect"
    have nz: "clust2sect (fst v1) (clust fp1) \<noteq> 0" using s1 by blast
    have z: "unat (clust2sect (fst v1) (clust fp1)) + i mod ?k = file_sector (fst v) cs i" "file_sector (fst v) cs i < 2 ^ 32"
      using s1 by blast+
    have "unat ?sect = (unat (clust2sect (fst v1) (clust fp1)) + i mod ?k) mod 2 ^ 32"
      by (simp add: unat_word_ariths(1) unat_ucast_up cu)
    then have su: "unat ?sect = file_sector (fst v1) cs i" unfolding z(1) k1(3) using z(2) by simp
    have le: "unat (fptr fp1) + unat btr \<le> unat (file_size fp1)" "unat (fptr fp1) = 512 * i" using assms(3) fi fp1 by simp_all
    have ct: "file_content blocks v1 cs = file_content blocks v cs" using steady_content s1 by blast
    show ?thesis
    proof (cases "btr div SS = 0")
      case False
      let ?cc = "if ucast csect + btr div SS > ucast (csize (fst v1)) then ucast (csize (fst v1)) - ucast csect else btr div SS"
      have rd: "read_direct E ?sect ?cc fp1 v1 = (r, rcnt, bytes, fp', v')" using rs(2)[OF True nz False] assms(4) by simp
      have bu: "unat (btr div SS) = unat btr div 512" by (simp add: SS_def unat_div)
      have b0: "0 < unat btr div 512" using False bu by (metis gr0I unsigned_eq_0_iff)
      have m: "i mod ?k < ?k" using a(2) by simp
      have "?k < 256" using unsigned_less[of "csize (fst v)"] by simp
      moreover have "unat btr div 512 < 2 ^ 23" using unat32_less[of btr] by (simp add: less_mult_imp_div_less)
      ultimately have "unat (ucast csect + btr div SS) = i mod ?k + unat btr div 512"
        using m by (simp add: unat_word_ariths(1) unat_ucast_up cu bu)
      moreover have "unat (ucast (csize (fst v)) - ucast csect :: u32) = ?k - i mod ?k"
        using m by (simp add: unat_sub word_le_nat_alt unat_ucast_up cu)
      ultimately have cc: "unat ?cc = min (?k - i mod ?k) (unat btr div 512)"
        using m by (auto simp: k1 word_less_nat_alt unat_ucast_up bu)
      have c3: "0 < unat ?cc" "i mod unat (csize (fst v1)) + unat ?cc \<le> unat (csize (fst v1))" "512 * unat ?cc \<le> unat btr"
        using cc m b0 k1(1) by auto
      have cl1: "clust fp1 = cs ! (i div unat (csize (fst v1)))" using s1 k1(1) by simp
      note dr = direct_ok[OF _ le(2) cl1 su c3 le(1) rd]
      show ?thesis using dr s1 ct k1 fp1 steady_trans[of blocks cs v v1 v'] steady_file_ok[of blocks cs fp1 v1 v'] file_ok_fields(2)[of blocks cs fp1 v']
          steady_position[of blocks cs v1 v'] same_fileI(2)[of fp c] by (auto simp: reading_def)
    next
      case False2: True
      obtain r2 fp2 v2 where ld: "load_buffer E ?sect fp1 v1 = (r2, fp2, v2)" by (metis surj_pair)
      have i1: "i < length cs * unat (csize (fst v1))" using a(1) k1(1) by simp
      note lo = load_ok[OF _ i1 su ld]
      have e: "(r, rcnt, bytes, fp', v') = (if r2 \<noteq> FR_OK then (r2, 0, [], fp2, v2) else copy_partial btr fp2 v2)"
        using rs(3)[OF True nz False2 ld] assms(4) by simp
      show ?thesis
      proof (cases "r2 = FR_OK")
        case False
        then show ?thesis using e lo(2) s1 k1(2) by auto
      next
        case r2: True
        then have cp: "copy_partial btr fp2 v2 = (r, rcnt, bytes, fp', v')" using e by simp
        have l: "steady blocks cs v1 v2" "file_ok blocks cs fp2 v2" "dsect fp2 = ?sect" "\<exists>b. fp2 = fp1\<lparr>buf := b, dsect := ?sect\<rparr>"
          using lo(1) s1 r2 by blast+
        then obtain b where fp2: "fp2 = fp1\<lparr>buf := b, dsect := ?sect\<rparr>" by blast
        have sv2: "same_volume (fst v1) (fst v2)" using l(1) by (simp add: steady_def Let_def)
        have k2: "csize (fst v2) = csize (fst v)" "file_sector (fst v2) cs = file_sector (fst v) cs"
          using same_volumeD(3)[OF sv2] same_file_sector[OF sv2] k1 by simp_all
        have "unat (fptr fp2) = 512 * i + 0" "clust fp2 = cs ! (i div unat (csize (fst v2)))" "unat (dsect fp2) = file_sector (fst v2) cs i"
          "i < length cs * unat (csize (fst v2))" "unat (fptr fp2) + unat btr \<le> unat (file_size fp2)"
          using le s1 fp2 fp1 su k1 k2 a(1) by simp_all
        note cpo = copy_ok[OF l(2) this(1) _ this(4) this(3) this(2) assms(2) this(5) cp]
        have "same_file fp fp2" using same_fileI(4) fp2 fp1 by simp
        moreover have "steady blocks cs v v2" using steady_trans s1 l(1) by blast
        moreover have "file_content blocks v2 cs = file_content blocks v cs" using steady_content[OF l(1)] ct by simp
        ultimately show ?thesis using cpo file_ok_fields(2)[OF l(2)] fp2 fp1 by (auto simp: reading_def)
      qed
    qed
  qed
qed

lemmas step_ok = step_inside step_start

lemma read_loop_ok:
  assumes "reading blocks cs fp v" "unat (fptr fp) + unat btr \<le> unat (file_size fp)"
  defines "content \<equiv> file_content blocks v cs" and "p \<equiv> unat (fptr fp)"
  shows "\<exists>r out' fp' v'. read_loop E btr out fp v = Some (r, out', fp', v')
    \<and> (\<exists>m \<le> unat btr. out' = out @ take m (drop p content) \<and> (r = FR_OK \<longrightarrow> m = unat btr))
    \<and> (r = FR_OK \<longrightarrow> reading blocks cs fp' v' \<and> unat (fptr fp') = p + unat btr \<and> steady blocks cs v v' \<and> same_object fp fp')
    \<and> (r \<noteq> FR_OK \<longrightarrow> err fp' = r) \<and> (never_fails E \<and> drv (fst v) = SDC \<longrightarrow> r = FR_OK)"
  unfolding content_def p_def using assms(1,2)
proof (induction "unat btr" arbitrary: btr out fp v rule: less_induct)
  case less
  have ok: "file_ok blocks cs fp v" using less.prems(1) by (simp add: reading_def)
  show ?case
  proof (cases "btr = 0")
    case True
    then have "read_loop E btr out fp v = Some (FR_OK, out, fp, v)" by (simp add: read_loop.simps)
    then show ?thesis using True less.prems(1) steady_read[OF ok, of "snd v"] by (simp add: same_object_def)
  next
    case False
    then have b: "0 < unat btr" by (simp add: unsigned_eq_0_iff flip: neq0_conv)
    obtain r rcnt bytes fp1 v1 where st: "read_step E btr fp v = (r, rcnt, bytes, fp1, v1)" by (metis surj_pair)
    have so: "(r = FR_OK \<longrightarrow> 0 < unat rcnt \<and> unat rcnt \<le> unat btr \<and> same_file fp fp1 \<and> steady blocks cs v v1
      \<and> bytes = take (unat rcnt) (drop (unat (fptr fp)) (file_content blocks v cs)) \<and> reading blocks cs (fp1\<lparr>fptr := fptr fp1 + rcnt\<rparr>) v1)
      \<and> (never_fails E \<and> drv (fst v) = SDC \<longrightarrow> r = FR_OK)"
      using step_inside[OF less.prems(1) b less.prems(2) st] step_start[OF less.prems(1) b less.prems(2) st] by blast
    show ?thesis
    proof (cases "r = FR_OK")
      case False
      then have "read_loop E btr out fp v = Some (r, out, fp1\<lparr>err := r\<rparr>, v1)" using st \<open>btr \<noteq> 0\<close> by (simp add: read_loop.simps)
      then show ?thesis using False so by (auto intro!: exI[of _ "0 :: nat"])
    next
      case True
      let ?fp = "fp1\<lparr>fptr := fptr fp1 + rcnt\<rparr>"
      have s1: "0 < unat rcnt" "unat rcnt \<le> unat btr" "same_file fp fp1" "steady blocks cs v v1" "reading blocks cs ?fp v1"
        and bt: "bytes = take (unat rcnt) (drop (unat (fptr fp)) (file_content blocks v cs))" using so True by simp_all
      have lp: "read_loop E btr out fp v = read_loop E (btr - rcnt) (out @ bytes) ?fp v1"
        using st True \<open>btr \<noteq> 0\<close> by (subst read_loop.simps) simp
      have bu: "unat (btr - rcnt) = unat btr - unat rcnt" using s1(2) by (simp add: unat_sub word_le_nat_alt)
      have pu: "unat (fptr ?fp) = unat (fptr fp) + unat rcnt"
        using s1(2,3) less.prems(2) unat32_less[of "file_size fp"] by (simp add: unat_word_ariths(1) same_fileD)
      have dr: "drv (fst v1) = drv (fst v)" using s1(4) same_volumeD(2) by (auto simp: steady_def Let_def)
      have "unat (btr - rcnt) < unat btr" "unat (fptr ?fp) + unat (btr - rcnt) \<le> unat (file_size ?fp)"
        using bu pu s1(1,2,3) less.prems(2) b by (simp_all add: same_fileD)
      from less.hyps[OF this(1) s1(5) this(2), of "out @ bytes"]
      obtain r' out' fp' v' m where ih: "read_loop E (btr - rcnt) (out @ bytes) ?fp v1 = Some (r', out', fp', v')"
        "m \<le> unat (btr - rcnt)" "out' = (out @ bytes) @ take m (drop (unat (fptr ?fp)) (file_content blocks v1 cs))"
        "r' = FR_OK \<longrightarrow> m = unat (btr - rcnt)"
        "r' = FR_OK \<longrightarrow> reading blocks cs fp' v' \<and> unat (fptr fp') = unat (fptr ?fp) + unat (btr - rcnt) \<and> steady blocks cs v1 v' \<and> same_object ?fp fp'"
        "r' \<noteq> FR_OK \<longrightarrow> err fp' = r'" "never_fails E \<and> drv (fst v1) = SDC \<longrightarrow> r' = FR_OK" by blast
      have "out' = out @ take (unat rcnt + m) (drop (unat (fptr fp)) (file_content blocks v cs))"
        unfolding ih(3) bt steady_content[OF s1(4)] pu by (simp add: take_add add.commute[of "unat (fptr fp)" "unat rcnt"])
      moreover have "same_object fp fp'" if "same_object ?fp fp'" using that s1(3) by (simp add: same_object_def same_fileD)
      moreover have "unat rcnt + m \<le> unat btr" "r' = FR_OK \<longrightarrow> unat rcnt + m = unat btr" using ih(2,4) bu s1(2) by auto
      moreover have "r' = FR_OK \<longrightarrow> reading blocks cs fp' v' \<and> unat (fptr fp') = unat (fptr fp) + unat btr \<and> steady blocks cs v v'"
        using ih(5) bu pu s1(2) steady_trans[OF s1(4)] by auto
      moreover have "read_loop E btr out fp v = Some (r', out', fp', v')" using lp ih(1) by simp
      moreover have "never_fails E \<and> drv (fst v) = SDC \<longrightarrow> r' = FR_OK" using ih(7) dr by simp
      ultimately show ?thesis using ih(5,6) by blast
    qed
  qed
qed

end

text \<open>A file as \<open>f_open\<close> leaves it, before the first read.\<close>

lemma opened_reading:
  assumes "coherent blocks v" "data_layout (fst v)" "chain (fat_of blocks v) (n_fatent (fst v)) (sclust fp) cs"
    and "unat (file_size fp) \<le> 512 * (length cs * unat (csize (fst v)))" "\<not> wflag (fst v)"
    and "flag fp AND FA__DIRTY = 0" "fptr fp = 0" "dsect fp = 0"
  shows "reading blocks cs fp v"
  using assms by (simp add: reading_def file_ok_def position_def Let_def)

lemma content_length:
  assumes "sector_disk E blocks"
  shows "length (file_content blocks v cs) = 512 * (length cs * unat (csize (fst v)))"
proof -
  have "length (concat (map (\<lambda>i. blocks h (f i)) xs)) = 512 * length xs" for h f and xs :: "nat list"
    by (induction xs) (simp_all add: sector_disk.sector_len[OF assms])
  then show ?thesis by (simp add: file_content_def)
qed

text \<open>A call of \<open>f_read\<close>.\<close>

lemma f_read_ok:
  assumes "sector_disk E blocks" "reading blocks cs fp v"
    and "validate E fp v = FR_OK" "err fp = FR_OK" "flag fp AND FA_READ \<noteq> 0"
  defines "content \<equiv> take (unat (file_size fp)) (file_content blocks v cs)"
  shows "\<exists>r out fp' v'. f_read E fp btr v = Some (r, out, fp', v')
    \<and> (\<exists>m. out = take m (drop (unat (fptr fp)) content) \<and> m \<le> unat btr)
    \<and> (r = FR_OK \<longrightarrow> out = take (unat btr) (drop (unat (fptr fp)) content) \<and> reading blocks cs fp' v'
        \<and> unat (fptr fp') = unat (fptr fp) + length out \<and> steady blocks cs v v' \<and> same_object fp fp')
    \<and> (r \<noteq> FR_OK \<longrightarrow> err fp' = r) \<and> (never_fails E \<and> drv (fst v) = SDC \<longrightarrow> r = FR_OK)"
proof -
  let ?C = "file_content blocks v cs" and ?p = "unat (fptr fp)" and ?s = "unat (file_size fp)"
  let ?b = "if btr > file_size fp - fptr fp then file_size fp - fptr fp else btr"
  have p: "?p \<le> ?s" using assms(2) by (simp add: reading_def position_def Let_def)
  have l: "?s \<le> length ?C" using assms(2) by (simp add: content_length[OF assms(1)] reading_def file_ok_def Let_def)
  have b: "unat ?b = min (unat btr) (?s - ?p)" using p by (auto simp: unat_sub word_le_nat_alt word_less_nat_alt)
  have pb: "?p + unat ?b \<le> ?s" using p unfolding b by simp
  have rd: "f_read E fp btr v = read_loop E ?b [] fp v" using assms(3-5) by (simp add: f_read_def)
  obtain r out fp' v' m where lp: "read_loop E ?b [] fp v = Some (r, out, fp', v')"
    "m \<le> unat ?b" "out = take m (drop ?p ?C)" "r = FR_OK \<longrightarrow> m = unat ?b"
    "r = FR_OK \<longrightarrow> reading blocks cs fp' v' \<and> unat (fptr fp') = ?p + unat ?b \<and> steady blocks cs v v' \<and> same_object fp fp'"
    "r \<noteq> FR_OK \<longrightarrow> err fp' = r" "never_fails E \<and> drv (fst v) = SDC \<longrightarrow> r = FR_OK"
    using sector_disk.read_loop_ok[OF assms(1,2) pb, of "[]"] by force
  have pre: "out = take m (drop ?p content)" "m \<le> unat btr" using lp(2,3) b by (simp_all add: content_def drop_take)
  have got: "out = take (unat btr) (drop ?p content)" "length out = unat ?b" if "r = FR_OK"
    using lp(3,4) that b l by (auto simp: content_def drop_take)
  have moved: "reading blocks cs fp' v'" "unat (fptr fp') = ?p + length out" "steady blocks cs v v'" "same_object fp fp'" if "r = FR_OK"
    using lp(5) that got(2) by simp_all
  show ?thesis unfolding rd
    by (rule exI[of _ r], rule exI[of _ out], rule exI[of _ fp'], rule exI[of _ v'])
      (use lp(1,6,7) pre got(1) moved in blast)
qed

subsection \<open>Properties\<close>

text \<open>C39. \<open>f_read\<close> of a file whose clusters form a chain returns for every number of bytes. What it delivers is the content of
the chain's sectors from the position on, as much as asked for and as the file has, whole sectors and parts alike, and the
position moves behind it; after an error the bytes delivered are still a part of it, and the error sticks to the file object. On a card
that works there is no error.\<close>
theorem f_read_returns_content:
  assumes "sector_disk E blocks" "reading blocks cs fp v"
    and "validate E fp v = FR_OK" "err fp = FR_OK" "flag fp AND FA_READ \<noteq> 0"
  defines "content \<equiv> take (unat (file_size fp)) (file_content blocks v cs)"
  shows "\<exists>r out fp' v'. f_read E fp btr v = Some (r, out, fp', v')
    \<and> (\<exists>m. out = take m (drop (unat (fptr fp)) content) \<and> m \<le> unat btr)
    \<and> (r = FR_OK \<longrightarrow> out = take (unat btr) (drop (unat (fptr fp)) content) \<and> reading blocks cs fp' v'
        \<and> unat (fptr fp') = unat (fptr fp) + length out \<and> take (unat (file_size fp')) (file_content blocks v' cs) = content \<and> err fp' = FR_OK)
    \<and> (r \<noteq> FR_OK \<longrightarrow> err fp' = r) \<and> (never_fails E \<and> drv (fst v) = SDC \<longrightarrow> r = FR_OK)"
proof -
  obtain r out fp' v' where f: "f_read E fp btr v = Some (r, out, fp', v')"
    "\<exists>m. out = take m (drop (unat (fptr fp)) content) \<and> m \<le> unat btr"
    "r = FR_OK \<longrightarrow> out = take (unat btr) (drop (unat (fptr fp)) content) \<and> reading blocks cs fp' v'
        \<and> unat (fptr fp') = unat (fptr fp) + length out \<and> steady blocks cs v v' \<and> same_object fp fp'"
    "r \<noteq> FR_OK \<longrightarrow> err fp' = r" "never_fails E \<and> drv (fst v) = SDC \<longrightarrow> r = FR_OK"
    using f_read_ok[OF assms(1-5)] unfolding content_def by blast
  have "take (unat (file_size fp')) (file_content blocks v' cs) = content" "err fp' = FR_OK" if "r = FR_OK"
    using f(3) that steady_content[of blocks cs v v'] assms(4) by (simp_all add: content_def same_object_def)
  then show ?thesis using f by blast
qed

text \<open>A file with the bytes \<open>bs\<close> in cluster 2 of a FAT16 volume.\<close>

definition file_vol :: "u8 list \<Rightarrow> (nat \<Rightarrow> u8 list) vol" where
  "file_vol bs = (ram_fs FS_FAT16,
     ((\<lambda>k. if k = 1 then [0xF8, 0xFF, 0xFF, 0xFF, 0xFF, 0xFF] else if k = 4 then bs else []), False))"

definition small_file :: "u32 \<Rightarrow> fil" where
  "small_file n = \<lparr>fil_open = True, fil_id = 1, flag = FA_READ, err = FR_OK, fptr = 0, file_size = n, sclust = 2, clust = 0,
     dsect = 0, dir_sect = 3, dir_ptr = 0, buf = []\<rparr>"

lemma file_vol_reading:
  assumes "unat n \<le> 512"
  shows "reading ram_blocks [2] (small_file n) (file_vol bs)"
proof (rule opened_reading)
  show "coherent ram_blocks (file_vol bs)"
    by (auto simp: coherent_def file_vol_def ram_fs_def geometry_def mirror_def ram_blocks_def fat_type_def fat_bytes_used_def
        entry_mask_def fs_types)
  have "fat_of ram_blocks (file_vol bs) 2 = 0xFFFF"
    by (simp add: fat_of_def fat_entry_def fat_byte_def view_def entry_pos_def ram_blocks_def pad512_def file_vol_def ram_fs_def fs_types)
  then show "chain (fat_of ram_blocks (file_vol bs)) (n_fatent (fst (file_vol bs))) (sclust (small_file n)) [2]"
    by (simp add: file_vol_def small_file_def)
  show "data_layout (fst (file_vol bs))" by (simp add: file_vol_def ram_fs_def data_layout_def)
qed (use assms in \<open>simp_all add: file_vol_def small_file_def FA_READ_def FA__DIRTY_def ram_fs_def\<close>)

lemma file_vol_valid:
  "validate (ram_env []) (small_file n) (file_vol bs) = FR_OK" "err (small_file n) = FR_OK" "flag (small_file n) AND FA_READ \<noteq> 0"
  "file_size (small_file n) = n" "fptr (small_file n) = 0" "drv (fst (file_vol bs)) = SDC"
  by (simp_all add: validate_def small_file_def file_vol_def disk_status_def ram_env_def ram_driver_def ram_fs_def fs_types
      STA_NOINIT_def FA_READ_def)

lemma file_vol_content:
  "length bs \<le> 512 \<Longrightarrow> n = length bs \<Longrightarrow> take n (file_content ram_blocks (file_vol bs) [2]) = bs"
  by (simp add: file_content_def file_sector_def file_vol_def ram_blocks_def pad512_def ram_fs_def)

theorem f_read_returns_content_witness:
  "\<exists>fp' v'. f_read (ram_env []) (small_file 5) 10 (file_vol [1, 2, 3, 4, 5]) = Some (FR_OK, [1, 2, 3, 4, 5], fp', v') \<and> fptr fp' = 5"
proof -
  let ?v = "file_vol [1, 2, 3, 4, 5]"
  have c: "take 5 (file_content ram_blocks ?v [2]) = [1, 2, 3, 4, 5]" by (rule file_vol_content) simp_all
  have rd: "reading ram_blocks [2] (small_file 5) ?v" by (rule file_vol_reading) simp
  from f_read_returns_content[OF ram.sector_disk_axioms rd file_vol_valid(1-3), of 10]
  obtain r out fp' v' where "f_read (ram_env []) (small_file 5) 10 ?v = Some (r, out, fp', v')" "r = FR_OK"
    "out = [1, 2, 3, 4, 5]" "unat (fptr fp') = length out"
    using ram_works c file_vol_valid(4-6) by (simp del: split_paired_All split_paired_Ex) blast
  moreover from this have "fptr fp' = 5" by (simp add: word_unat_eq_iff)
  ultimately show ?thesis by blast
qed

end
