(* ===== verification/Fat_Audio.thy ===== *)
theory Fat_Audio
  imports Fat_File Audio_Wav
begin

section \<open>Playing a file of the card\<close>

text \<open>
  The audio thread reads its file with \<open>f_read\<close>. \<open>fat_filesystem\<close> is the record of file operations of \<open>Audio_Wav\<close> over
  the model of FatFs, with the operations on directories (\<open>f_open\<close>, \<open>f_close\<close>) as parameters; on a card that works it
  keeps the contract \<open>readable_fs\<close>, so the properties of the decoder hold for files on the card.
\<close>

definition fat_filesystem ::
  "'h fat_env \<Rightarrow> (string \<Rightarrow> 'd \<Rightarrow> ((fil \<times> 'h vol) \<times> 'd) option) \<Rightarrow> (fil \<times> 'h vol \<Rightarrow> 'd \<Rightarrow> 'd) \<Rightarrow> (fil \<times> 'h vol, 'd) filesystem" where
  "fat_filesystem E opn cls = \<lparr>fs_open = opn,
     fs_read = (\<lambda>(fp, v) n. case f_read E fp (of_nat n) v of
         Some (r, out, fp, v) \<Rightarrow> (r = FR_OK, out, (fp, v)) | None \<Rightarrow> (False, [], (fp, v))),
     fs_close = cls\<rparr>"

text \<open>What is left to read, and the files that can be read.\<close>

definition remaining :: "('h \<Rightarrow> nat \<Rightarrow> u8 list) \<Rightarrow> u32 list \<Rightarrow> fil \<times> 'h vol \<Rightarrow> u8 list" where
  "remaining blocks cs = (\<lambda>(fp, v). drop (unat (fptr fp)) (take (unat (file_size fp)) (file_content blocks v cs)))"

definition readable :: "'h fat_env \<Rightarrow> ('h \<Rightarrow> nat \<Rightarrow> u8 list) \<Rightarrow> u32 list \<Rightarrow> fil \<times> 'h vol \<Rightarrow> bool" where
  "readable E blocks cs = (\<lambda>(fp, v). reading blocks cs fp v \<and> validate E fp v = FR_OK \<and> err fp = FR_OK
     \<and> flag fp AND FA_READ \<noteq> 0 \<and> drv (fst v) = SDC)"

lemma still_valid:
  assumes "validate E fp v = FR_OK" "never_fails E" "steady blocks cs v v'" "same_object fp fp'" "drv (fst v) = SDC"
  shows "validate E fp' v' = FR_OK" "drv (fst v') = SDC"
proof -
  have sv: "same_volume (fst v) (fst v')" using assms(3) by (simp add: steady_def Let_def)
  show "drv (fst v') = SDC" using assms(5) by (simp add: same_volumeD(2)[OF sv])
  then show "validate E fp' v' = FR_OK"
    using assms(1,2,4) same_volumeD(1,11)[OF sv]
    by (auto simp: validate_def same_object_def disk_status_def never_fails_def STA_NOINIT_def STA_PROTECT_def split: if_splits)
qed

lemma fat_filesystem_readable:
  assumes "sector_disk E blocks" "never_fails E"
  shows "readable_fs (fat_filesystem E opn cls) (remaining blocks cs) (readable E blocks cs)"
proof
  fix f n
  assume u: "readable E blocks cs f" and n: "n < (2 :: nat) ^ 32"
  obtain fp v where f: "f = (fp, v)" by (metis surj_pair)
  have r: "reading blocks cs fp v" "validate E fp v = FR_OK" "err fp = FR_OK" "flag fp AND FA_READ \<noteq> 0" "drv (fst v) = SDC"
    using u by (simp_all add: readable_def f)
  have nu: "unat (of_nat n :: u32) = n" using n by (simp add: of_nat_inverse)
  let ?C = "take (unat (file_size fp)) (file_content blocks v cs)"
  obtain r out fp' v' where g0: "f_read E fp (of_nat n) v = Some (r, out, fp', v')" "never_fails E \<and> drv (fst v) = SDC \<longrightarrow> r = FR_OK"
    "r = FR_OK \<longrightarrow> out = take n (drop (unat (fptr fp)) ?C) \<and> reading blocks cs fp' v'
        \<and> unat (fptr fp') = unat (fptr fp) + length out \<and> steady blocks cs v v' \<and> same_object fp fp'"
    using f_read_ok[OF assms(1) r(1-4), of "of_nat n"] unfolding nu by blast
  then have g: "f_read E fp (of_nat n) v = Some (FR_OK, out, fp', v')" "out = take n (drop (unat (fptr fp)) ?C)"
    "reading blocks cs fp' v'" "unat (fptr fp') = unat (fptr fp) + length out" "steady blocks cs v v'" "same_object fp fp'"
    using assms(2) r(5) by auto
  have "drop (length (take n xs)) xs = drop n xs" for xs :: "u8 list" by (simp add: min_def)
  from this[of "drop (unat (fptr fp)) ?C"] have "remaining blocks cs (fp', v') = drop n (remaining blocks cs f)"
    unfolding remaining_def f prod.case g(4) g(2) using steady_content[OF g(5)] g(6)
    by (simp add: same_object_def add.commute)
  moreover have "readable E blocks cs (fp', v')"
    using g(3,6) r(3,4) still_valid[OF r(2) assms(2) g(5,6) r(5)] by (simp add: readable_def same_object_def)
  ultimately show "\<exists>f'. fs_read (fat_filesystem E opn cls) f n = (True, take n (remaining blocks cs f), f')
      \<and> remaining blocks cs f' = drop n (remaining blocks cs f) \<and> readable E blocks cs f'"
    using g(1,2) by (intro exI[of _ "(fp', v')"]) (simp add: fat_filesystem_def remaining_def f)
qed

interpretation card: readable_fs "fat_filesystem (ram_env []) opn cls" "remaining ram_blocks cs" "readable (ram_env []) ram_blocks cs"
  for opn cls cs by (rule fat_filesystem_readable[OF ram.sector_disk_axioms ram_works])

text \<open>C40. From the sectors of the card to the converter: a request to play a file whose clusters form a chain, and whose content is a
valid header with samples behind it, is answered with success, and the converter has converted the samples of the data chunk once
and in order, whatever the sizes of clusters and reads.\<close>
theorem card_file_played:
  assumes "sector_disk E blocks" "never_fails E" "opn path disk = Some ((fp, v), disk1)"
    and "reading blocks cs fp v" "validate E fp v = FR_OK" "err fp = FR_OK" "flag fp AND FA_READ \<noteq> 0" "drv (fst v) = SDC" "fptr fp = 0"
    and "take (unat (file_size fp)) (file_content blocks v cs) = wav_header a r b c bits l @ bytes"
    and "ucast (bits div 8) = (2 :: u8)" "r \<noteq> 0" "length (dac_buffer s) = 1000"
  shows "\<exists>wav' s' disk'. audio_thd_request (fat_filesystem E opn cls) timclk path (wav, s, disk) = Some (AUDIO_OK, wav', s', disk')
    \<and> converted s' = converted s @ even_prefix (dac_samples (take (unat l) bytes)) \<and> \<not> dac_running s'"
proof (rule readable_fs.audio_request_converts[OF fat_filesystem_readable[OF assms(1,2)]])
  show "fs_open (fat_filesystem E opn cls) path disk = Some ((fp, v), disk1)" using assms(3) by (simp add: fat_filesystem_def)
  show "remaining blocks cs (fp, v) = wav_header a r b c bits l @ bytes" using assms(9,10) by (simp add: remaining_def)
  show "readable E blocks cs (fp, v)" using assms(4-8) by (simp add: readable_def)
qed (use assms(11-13) in simp_all)

theorem card_file_played_witness:
  "\<exists>wav' s' disk'. audio_thd_request (fat_filesystem (ram_env []) (\<lambda>path d. Some ((small_file 50, d), d)) (\<lambda>f d. d)) 84000000 ''a.wav''
      (\<lparr>wav_file = (small_file 0, file_vol []), sample_rate = 0, sample_size = 0, data_len = 0, data_pos = 0\<rparr>, dac_idle 1000,
       file_vol (wav_header 0 44100 88200 2 16 6 @ [0, 0, 255, 127, 7, 0])) = Some (AUDIO_OK, wav', s', disk')
    \<and> converted s' = converted (dac_idle 1000) @ even_prefix (dac_samples (take (unat (6 :: u32)) [0, 0, 255, 127, 7, 0]))
    \<and> \<not> dac_running s'"
proof (rule card_file_played[OF ram.sector_disk_axioms ram_works _ file_vol_reading, where a = 0 and b = 88200 and c = 2 and bits = 16 and r = 44100])
  let ?bs = "wav_header 0 44100 88200 2 16 6 @ [0, 0, 255, 127, 7, 0]"
  show "take (unat (file_size (small_file 50))) (file_content ram_blocks (file_vol ?bs) [2]) = ?bs"
    by (rule file_vol_content) (simp_all add: file_vol_valid)
qed (simp_all add: file_vol_valid dac_idle_def)

end
