(* ===== verification/Spec2Isabelle.thy ===== *)
theory Spec2Isabelle
  imports IEEE_Float Flash_Driver Config_Storage Config_Refinement Msgbus Encoder Motor_Pwm
    Motor_Controller Motor_Pid_Thread Audio_Wav Storage Aseba_Natives Adc_Sensors Spi_I2c_Sensors
    Body_Leds Memory_Protection Lwip_Sys Can_Interface Shell_Cmd
    Encoder_Timer Topic_Types Usb_Config Robot_Commands Start_Up Fat_Table Fat_Chain Fat_Mount
    Fat_File Fat_Audio
begin

text \<open>
  Verification library for the main processor firmware of the e-puck2 robot (\<open>src/src\<close>, C on ChibiOS).

  \<^bold>\<open>The program.\<close> One thread per sensor, actuator or service. The threads talk through topics of a message
  bus and take their settings from a parameter tree that is kept in flash. A motor control thread runs
  two cascaded controllers; a virtual machine (Aseba) runs scripts whose variables are copied from the
  topics and written back to them; a shell gives commands. The theories follow this division. Each opens
  with a text on its state and operations; names are those of the C code, with a suffix where
  Isabelle uses the name.

  \<^bold>\<open>Shared.\<close>
  \<^item> \<open>Prelude\<close>: C integers as words, a byte memory, little-endian bytes.
  \<^item> \<open>IEEE_Float\<close>: \<open>float\<close> and \<open>double\<close> with their rounding; rounding is monotone, exact on representable
    numbers and within half a unit. The compiler is assumed not to contract a multiplication and an
    addition into one operation.
  \<^item> \<open>Msgbus\<close>: the message structs of the headers and the interface of the bus (locale \<open>message_bus\<close>).

  \<^bold>\<open>Configuration.\<close>
  \<^item> \<open>Flash_Driver\<close> (\<open>flash/flash.c\<close>): the register protocol of the controller; erasing and writing do what
    they say on every documented controller (locale \<open>flash_controller\<close>), and give the interface
    \<open>flash_store\<close> of the next theory.
  \<^item> \<open>Config_Storage\<close>, \<open>Config_Refinement\<close> (\<open>config_flash_storage.c\<close>): \<open>config_save\<close> implements a log of
    checksummed blocks that starts again when it is full; what a load returns; when a save never ends.

  \<^bold>\<open>Motion.\<close>
  \<^item> \<open>Encoder_Timer\<close>, \<open>Encoder\<close> (\<open>sensors/encoder.c\<close>): the timer registers that the start of the encoders leaves, and
    that a timer so set counts the edges of the wheel; positions follow the wheels over counter wraps.
  \<^item> \<open>Motor_Pwm\<close>, \<open>Motor_Controller\<close>, \<open>Motor_Pid_Thread\<close> (\<open>motor_pwm.c\<close>, \<open>motor_controller.c\<close>,
    \<open>motor_pid_thread.c\<close>): bounds of the drive and of the current setpoint, the ramps, the rates of the
    nested loops, mode changes, which cycles fault.

  \<^bold>\<open>Sensors and actuators.\<close>
  \<^item> \<open>Adc_Sensors\<close> (\<open>proximity.c\<close>, \<open>motor_current.c\<close>, \<open>battery_level.c\<close>, \<open>battery_protection.c\<close>,
    \<open>board_shutdown\<close>): the averages that are published, for every order of interrupts; the converter
    values at which the robot warns and shuts down.
  \<^item> \<open>Spi_I2c_Sensors\<close> (\<open>range.c\<close>, \<open>vl6180x\<close>, \<open>imu.c\<close>, \<open>mpu60X0.c\<close>, \<open>exti.c\<close>): polling ends, registers and
    scales agree.
  \<^item> \<open>Body_Leds\<close> (\<open>body_leds.c\<close>): the registers a round writes.
  \<^item> \<open>Audio_Dac\<close>, \<open>Audio_Wav\<close> (\<open>audio\<close>): samples are converted once and in order; which headers are read.
  \<^item> \<open>Storage\<close> (\<open>sdcard.c\<close>, \<open>fatfs_diskio.c\<close>): the mounted state, reads after writes.

  \<^bold>\<open>File system\<close> (\<open>fatfs/src/ff.c\<close> as \<open>ffconf.h\<close> configures it).
  \<^item> \<open>Fat_Table\<close> (\<open>move_window\<close>, \<open>sync_window\<close>, \<open>get_fat\<close>, \<open>put_fat\<close>): the window is a write-back copy of one sector of
    the disk, and the table under it an array of numbers of 12, 16 or 28 bits.
  \<^item> \<open>Fat_Chain\<close> (\<open>create_chain\<close>, \<open>remove_chain\<close>): clusters are taken and freed chain by chain, all others kept.
  \<^item> \<open>Fat_Mount\<close> (\<open>check_fs\<close>, \<open>find_volume\<close>, \<open>f_mount\<close>, \<open>sync_fs\<close>): which boot sectors are accepted, and that the layout read
    from them is inside the volume.
  \<^item> \<open>Fat_File\<close> (\<open>f_read\<close>): the bytes read are those of the clusters of the file.
  \<^item> \<open>Fat_Audio\<close>: \<open>f_read\<close> keeps the contract that the WAV decoder relies on, so a file of the card is played.

  \<^bold>\<open>The robot as a whole.\<close>
  \<^item> \<open>Topic_Types\<close>: every topic of the firmware has one message type, which all writers and readers use.
  \<^item> \<open>Robot_Commands\<close>: the paths from the shell to the motors and the LEDs.
  \<^item> \<open>Start_Up\<close> (\<open>main.c\<close>): the order in which \<open>main\<close> makes resources and threads.

  \<^bold>\<open>Scripts, networks, shell.\<close>
  \<^item> \<open>Aseba_Vars\<close>, \<open>Aseba_Sync\<close>, \<open>Aseba_Node\<close>, \<open>Aseba_Natives\<close> (\<open>aseba_vm\<close>): the layout of the variables, the two
    copies between machine and robot, the round of the machine thread and its events, native functions,
    the bytecode in flash.
  \<^item> \<open>Can_Interface\<close> (\<open>aseba_can_interface.c\<close>): frames from robot to robot.
  \<^item> \<open>Lwip_Sys\<close> (\<open>lwip/bindings/arch/sys_arch.c\<close>): mailboxes are bounded queues.
  \<^item> \<open>Shell_Cmd\<close> (\<open>cmd.c\<close>): what the commands print, publish and change.
  \<^item> \<open>Usb_Config\<close> (\<open>usbconf.c\<close>): the descriptors the robot gives to a USB host, read as the host reads them.
  \<^item> \<open>Memory_Protection\<close> (\<open>memory_protection.c\<close>, \<open>context_switch_hook\<close>): the accesses that fault.

  \<^bold>\<open>Parameters and hypotheses.\<close> Libraries and hardware are arguments of the definitions: records of
  functions over opaque states (\<open>flash_bus\<close>, \<open>msgbus\<close>, \<open>params\<close>, \<open>kernel\<close>, \<open>mpu_unit\<close>, the buses of the sensors,
  the virtual machine, checksum, serializer, file system calls). What the code relies on are the
  \<open>assumes\<close> of a locale; each is interpreted on an executable reference, which the witnesses use. Conversions of the C library between
  numbers and text are parameters.

  \<^bold>\<open>Conventions.\<close> \<open>None\<close> of an \<open>option\<close> is undefined behaviour, a halt or a wait that never ends, as each theory
  says; where the difference matters, a sum type (\<open>fault\<close>, \<open>sys_result\<close>, \<open>Never_returns\<close>) tells them apart.
  Loops that poll or may not end are \<open>partial_function\<close>s, and the theorems prove that they return. No
  fuel is used.

  \<^bold>\<open>Interleaving.\<close> A thread runs between two waits without being observed; interrupts and other threads act
  at the waits, in any order (\<open>prox_wait\<close>, \<open>dac_wait\<close>, the events of the Aseba node, context switches); \<open>Start_Up\<close> and
  \<open>Topic_Types\<close> interleave the steps of all threads.

  \<^bold>\<open>Not modelled.\<close> The operating system, the drivers of the microcontroller, the parameter tree, the message
  bus, the virtual machine, MessagePack and CRC: libraries outside the repository. Of FatFs, the directories, opening
  and writing files, and the functions the firmware never calls; \<open>fatfs/src/option\<close> holds code pages that are configured
  away, and \<open>fatfs_syscall.c\<close> is compiled only for a re-entrant FatFs. \<open>board.h\<close>, \<open>mcuconf.h\<close>,
  \<open>halconf.h\<close>, \<open>chconf.h\<close>: constants of pins, clocks and the kernel. \<open>lwipthread.c\<close>, \<open>serial_io.c\<close>: calls of the IP
  stack and of a stream. \<open>panic.c\<close>: a LED and an endless loop. The shell commands \<open>test\<close>, \<open>reboot\<close>,
  \<open>mpu_test\<close>. The timer registers of the PWM, which the driver of the microcontroller sets.
\<close>

end
